(* ===== verification/Prelude.thy ===== *)
theory Prelude
  imports Main "HOL-Library.Word" "HOL-Library.Multiset" "HOL-Library.Sublist"
begin

text \<open>
  What the components share: the names of the machine integer types, the
  error monad every fallible operation is written in (\<open>bindR\<close>, and \<open>forE\<close>
  for a C \<open>for\<close> loop whose body may fail), collections of simplification
  rules, a few facts about lists and words, and the interface of a
  transition system with an invariant (locale \<open>invariant_system\<close>).
\<close>

unbundle bit_operations_syntax

type_synonym u8 = "8 word"
type_synonym u16 = "16 word"
type_synonym u32 = "32 word"
type_synonym u64 = "64 word"

named_theorems mem_simps \<open>reads and writes of the modelled memories and files\<close>
named_theorems inv_intros \<open>preservation of the components' invariants\<close>

section \<open>Errors as values\<close>

text \<open>
  A fallible operation returns \<open>Inl\<close> of an error or \<open>Inr\<close> of its result, and
  \<open>bindR\<close> is its sequential composition: the first error ends the sequence.
\<close>

definition bindR :: "'e + 'a \<Rightarrow> ('a \<Rightarrow> 'e + 'b) \<Rightarrow> 'e + 'b" where
  "bindR m f = (case m of Inl e \<Rightarrow> Inl e | Inr x \<Rightarrow> f x)"

lemma bindR_simps [simp]:
  "bindR (Inl e) f = Inl e"
  "bindR (Inr x) f = f x"
  by (simp_all add: bindR_def)

lemma bindR_assoc: "bindR (bindR m f) g = bindR m (\<lambda>x. bindR (f x) g)"
  by (cases m) simp_all

lemma bindR_eq_Inr: "bindR m f = Inr y \<longleftrightarrow> (\<exists>x. m = Inr x \<and> f x = Inr y)"
  by (cases m) simp_all

lemma bindR_eq_Inl: "bindR m f = Inl e \<longleftrightarrow> m = Inl e \<or> (\<exists>x. m = Inr x \<and> f x = Inl e)"
  by (cases m) simp_all

text \<open>
  \<open>forE f is s\<close> runs the loop body \<open>f i\<close> for the indices \<open>is\<close> in order, threading
  the state and stopping at the first error.
\<close>

fun forE :: "('i \<Rightarrow> 's \<Rightarrow> 'e + 's) \<Rightarrow> 'i list \<Rightarrow> 's \<Rightarrow> 'e + 's" where
  "forE f [] s = Inr s"
| "forE f (i # is) s = bindR (f i s) (forE f is)"

lemma forE_append: "forE f (is @ js) s = bindR (forE f is s) (forE f js)"
  by (induction "is" arbitrary: s) (auto simp: bindR_def split: sum.split)

lemma forE_invariant:
  assumes "forE f is s = Inr s'" and "P s"
    and "\<And>i s s'. i \<in> set is \<Longrightarrow> P s \<Longrightarrow> f i s = Inr s' \<Longrightarrow> P s'"
  shows "P s'"
  using assms
proof (induction "is" arbitrary: s)
  case Nil
  then show ?case by simp
next
  case (Cons i "is")
  then obtain s1 where s1: "f i s = Inr s1" "forE f is s1 = Inr s'"
    by (auto simp: bindR_eq_Inr)
  have "P s1" using Cons.prems(2,3) s1(1) by (meson list.set_intros(1))
  then show ?case
    using Cons.IH [OF s1(2)] Cons.prems(3) by (meson list.set_intros(2))
qed

text \<open>
  Two loops over the same indices whose bodies keep a relation between their
  states: they fail with related errors or end in related states.
\<close>

lemma forE_sim:
  assumes "R s t"
    and "\<And>i s t. i \<in> set is \<Longrightarrow> R s t \<Longrightarrow>
      (case g i t of Inl e \<Rightarrow> f i s = Inl (w e) | Inr t' \<Rightarrow> \<exists>s'. f i s = Inr s' \<and> R s' t')"
  shows "case forE g is t of Inl e \<Rightarrow> forE f is s = Inl (w e)
    | Inr t' \<Rightarrow> \<exists>s'. forE f is s = Inr s' \<and> R s' t'"
  using assms
proof (induction "is" arbitrary: s t)
  case Nil
  then show ?case by simp
next
  case (Cons i "is")
  have b: "case g i t of Inl e \<Rightarrow> f i s = Inl (w e) | Inr t' \<Rightarrow> \<exists>s'. f i s = Inr s' \<and> R s' t'"
    using Cons.prems(1) Cons.prems(2) [of i s t] by simp
  show ?case
  proof (cases "g i t")
    case (Inl e)
    with b show ?thesis by simp
  next
    case (Inr t')
    with b obtain s' where s': "f i s = Inr s'" "R s' t'" by auto
    have "case forE g is t' of Inl e \<Rightarrow> forE f is s' = Inl (w e)
      | Inr t'' \<Rightarrow> \<exists>s''. forE f is s' = Inr s'' \<and> R s'' t''"
      using Cons.IH [OF s'(2)] Cons.prems(2) by simp
    with Inr s'(1) show ?thesis by (simp split: sum.split_asm)
  qed
qed

text \<open>
  The loop over an interval: every turn ends in an error with \<open>Q\<close> or moves the
  indexed invariant \<open>P\<close> one index on.
\<close>

lemma forE_upto:
  assumes "m \<le> n" and "P m s"
    and "\<And>k s. m \<le> k \<Longrightarrow> k < n \<Longrightarrow> P k s \<Longrightarrow>
      (case f k s of Inl e \<Rightarrow> Q e | Inr s' \<Rightarrow> P (Suc k) s')"
  shows "case forE f [m..<n] s of Inl e \<Rightarrow> Q e | Inr s' \<Rightarrow> P n s'"
  using assms
proof (induction "n - m" arbitrary: m s)
  case 0
  then show ?case by simp
next
  case (Suc d)
  then have mn: "m < n" by simp
  note step = Suc.prems(3) [of m s, OF order_refl mn Suc.prems(2)]
  show ?case
  proof (cases "f m s")
    case (Inl e)
    with mn step show ?thesis by (simp add: upt_conv_Cons)
  next
    case (Inr s')
    with step have "P (Suc m) s'" by simp
    moreover have "d = n - Suc m" "Suc m \<le> n" using Suc.hyps(2) mn by simp_all
    ultimately have "case forE f [Suc m..<n] s' of Inl e \<Rightarrow> Q e | Inr s' \<Rightarrow> P n s'"
      using Suc.hyps(1) Suc.prems(3) by simp
    with mn Inr show ?thesis by (simp add: upt_conv_Cons split: sum.split_asm)
  qed
qed

text \<open>Both at once: an indexed relation between two loops over the same interval.\<close>

lemma forE_sim_upto:
  assumes "m \<le> n" and "R m s t"
    and "\<And>k s t. m \<le> k \<Longrightarrow> k < n \<Longrightarrow> R k s t \<Longrightarrow>
      (case g k t of Inl e \<Rightarrow> f k s = Inl (w e) | Inr t' \<Rightarrow> \<exists>s'. f k s = Inr s' \<and> R (Suc k) s' t')"
  shows "case forE g [m..<n] t of Inl e \<Rightarrow> forE f [m..<n] s = Inl (w e)
    | Inr t' \<Rightarrow> \<exists>s'. forE f [m..<n] s = Inr s' \<and> R n s' t'"
  using assms
proof (induction "n - m" arbitrary: m s t)
  case 0
  then show ?case by simp
next
  case (Suc d)
  then have mn: "m < n" by simp
  note step = Suc.prems(3) [of m s t, OF order_refl mn Suc.prems(2)]
  show ?case
  proof (cases "g m t")
    case (Inl e)
    with mn step show ?thesis by (simp add: upt_conv_Cons)
  next
    case (Inr t')
    with step obtain s' where s': "f m s = Inr s'" "R (Suc m) s' t'" by auto
    have "d = n - Suc m" "Suc m \<le> n" using Suc.hyps(2) mn by simp_all
    then have "case forE g [Suc m..<n] t' of Inl e \<Rightarrow> forE f [Suc m..<n] s' = Inl (w e)
      | Inr t' \<Rightarrow> \<exists>s''. forE f [Suc m..<n] s' = Inr s'' \<and> R n s'' t'"
      using Suc.hyps(1) s'(2) Suc.prems(3) by simp
    with mn Inr s'(1) show ?thesis by (simp add: upt_conv_Cons split: sum.split_asm)
  qed
qed

lemma forE_map: "forE f (map g is) s = forE (\<lambda>i. f (g i)) is s"
proof (induction "is" arbitrary: s)
  case (Cons i "is")
  then have "forE f (map g is) = forE (\<lambda>i. f (g i)) is" by (rule ext)
  then show ?case by simp
qed simp

lemma forE_nth: "forE f xs s = forE (\<lambda>i. f (xs ! i)) [0..<length xs] s"
  using forE_map [of f "\<lambda>i. xs ! i" "[0..<length xs]" s] by (simp add: map_nth)

section \<open>Lists\<close>

lemma sum_list_map_update:
  fixes f :: "'a \<Rightarrow> 'b :: comm_monoid_add"
  assumes "i < length xs"
  shows "sum_list (map f (xs[i := y])) + f (xs ! i) = sum_list (map f xs) + f y"
  using assms
proof (induction xs arbitrary: i)
  case Nil
  then show ?case by simp
next
  case (Cons x xs)
  show ?case
  proof (cases i)
    case 0
    then show ?thesis by (simp add: ac_simps)
  next
    case (Suc j)
    then have "sum_list (map f (xs[j := y])) + f (xs ! j) = sum_list (map f xs) + f y"
      using Cons by simp
    then show ?thesis using Suc by (simp add: ac_simps)
  qed
qed

lemma nth_append_pivot [simp]: "length xs = i \<Longrightarrow> (xs @ y # ys) ! i = y"
  by auto

lemma list_update_pivot [simp]: "length xs = i \<Longrightarrow> (xs @ y # ys)[i := z] = xs @ z # ys"
  by (auto simp: list_update_append)

lemma upt_split: "i \<le> j \<Longrightarrow> j \<le> k \<Longrightarrow> [i..<k] = [i..<j] @ [j..<k]"
  by (metis le_add_diff_inverse upt_add_eq_append)

section \<open>Words\<close>

lemma unat_u64_less: "unat (w :: u64) < 2 ^ 64"
  using unsigned_less [of w] by simp

lemma unat_Suc_less: "(a :: u64) < b \<Longrightarrow> unat (a + 1) = Suc (unat a)"
proof -
  assume "a < b"
  then have "unat a + 1 < 2 ^ 64" using unat_u64_less [of b] by (simp add: word_less_nat_alt)
  then show ?thesis using unat_add_lem [of a 1] by simp
qed

lemma unat_add_le: "unat (a + b :: u64) \<le> unat a + unat b"
  by (simp add: unat_word_ariths)

section \<open>Transition systems with an invariant\<close>

text \<open>
  The contract of a component whose state only its own steps change: an
  initial state, a step relation and an invariant the initial state has and
  every step keeps. The client of the contract is every property of the
  reachable states.
\<close>

locale invariant_system =
  fixes start :: "'s \<Rightarrow> bool"
    and step :: "'s \<Rightarrow> 's \<Rightarrow> bool"
    and inv :: "'s \<Rightarrow> bool"
  assumes inv_start: "start s \<Longrightarrow> inv s"
    and inv_step: "inv s \<Longrightarrow> step s t \<Longrightarrow> inv t"
begin

lemma inv_steps: "step\<^sup>*\<^sup>* s t \<Longrightarrow> inv s \<Longrightarrow> inv t"
  by (induction rule: rtranclp_induct) (auto intro: inv_step)

lemma inv_reachable: "start s \<Longrightarrow> step\<^sup>*\<^sup>* s t \<Longrightarrow> inv t"
  using inv_start inv_steps by blast

end

end
