(* ===== verification/AssocArray.thy ===== *)
theory AssocArray
  imports Prelude
begin

text \<open>
  The data of \<open>src/assoc_array_gc/repro.c\<close>: tagged pointers, nodes and
  shortcuts, the heap they live in, and the memory accesses the code makes.
  An access through a pointer to nothing, or outside a node's sixteen slots,
  is the error \<open>Fault\<close>; a failing \<open>BUG_ON\<close> is the error \<open>Bug\<close> of its condition.
\<close>

section \<open>Tagged pointers (lines 89 to 154)\<close>

text \<open>
  A \<open>struct assoc_array_ptr *\<close> is never dereferenced as such: it is an address
  with two tag bits. Bit 0 tells leaf (or NULL) from meta, bit 1 tells node
  from shortcut.
\<close>

type_synonym ptr = u64
type_synonym addr = u64

abbreviation (input) ASSOC_ARRAY_FAN_OUT :: nat where "ASSOC_ARRAY_FAN_OUT \<equiv> 16"
abbreviation (input) ASSOC_ARRAY_KEY_CHUNK_SIZE :: int where "ASSOC_ARRAY_KEY_CHUNK_SIZE \<equiv> 64"
abbreviation (input) ASSOC_ARRAY_KEY_CHUNK_SHIFT :: nat where "ASSOC_ARRAY_KEY_CHUNK_SHIFT \<equiv> 6"
abbreviation (input) ASSOC_ARRAY_PTR_TYPE_MASK :: u64 where "ASSOC_ARRAY_PTR_TYPE_MASK \<equiv> 1"
abbreviation (input) ASSOC_ARRAY_PTR_META_TYPE :: u64 where "ASSOC_ARRAY_PTR_META_TYPE \<equiv> 1"
abbreviation (input) ASSOC_ARRAY_PTR_SUBTYPE_MASK :: u64 where "ASSOC_ARRAY_PTR_SUBTYPE_MASK \<equiv> 2"
abbreviation (input) ASSOC_ARRAY_PTR_NODE_SUBTYPE :: u64 where "ASSOC_ARRAY_PTR_NODE_SUBTYPE \<equiv> 0"
abbreviation (input) ASSOC_ARRAY_PTR_SHORTCUT_SUBTYPE :: u64 where
  "ASSOC_ARRAY_PTR_SHORTCUT_SUBTYPE \<equiv> 2"

definition assoc_array_ptr_is_meta :: "ptr \<Rightarrow> bool" where
  "assoc_array_ptr_is_meta x \<longleftrightarrow> x AND ASSOC_ARRAY_PTR_TYPE_MASK \<noteq> 0"

definition assoc_array_ptr_is_leaf :: "ptr \<Rightarrow> bool" where
  "assoc_array_ptr_is_leaf x \<longleftrightarrow> \<not> assoc_array_ptr_is_meta x"

definition assoc_array_ptr_is_shortcut :: "ptr \<Rightarrow> bool" where
  "assoc_array_ptr_is_shortcut x \<longleftrightarrow> x AND ASSOC_ARRAY_PTR_SUBTYPE_MASK \<noteq> 0"

definition assoc_array_ptr_is_node :: "ptr \<Rightarrow> bool" where
  "assoc_array_ptr_is_node x \<longleftrightarrow> \<not> assoc_array_ptr_is_shortcut x"

definition assoc_array_ptr_to_leaf :: "ptr \<Rightarrow> addr" where
  "assoc_array_ptr_to_leaf x = x AND NOT ASSOC_ARRAY_PTR_TYPE_MASK"

definition assoc_array_ptr_to_meta :: "ptr \<Rightarrow> addr" where
  "assoc_array_ptr_to_meta x =
     x AND NOT (ASSOC_ARRAY_PTR_SUBTYPE_MASK OR ASSOC_ARRAY_PTR_TYPE_MASK)"

definition assoc_array_ptr_to_node :: "ptr \<Rightarrow> addr" where
  "assoc_array_ptr_to_node x = assoc_array_ptr_to_meta x"

definition assoc_array_ptr_to_shortcut :: "ptr \<Rightarrow> addr" where
  "assoc_array_ptr_to_shortcut x = assoc_array_ptr_to_meta x"

definition assoc_array_x_to_ptr :: "addr \<Rightarrow> u64 \<Rightarrow> ptr" where
  "assoc_array_x_to_ptr p t = p OR t"

definition assoc_array_node_to_ptr :: "addr \<Rightarrow> ptr" where
  "assoc_array_node_to_ptr p =
     assoc_array_x_to_ptr p (ASSOC_ARRAY_PTR_META_TYPE OR ASSOC_ARRAY_PTR_NODE_SUBTYPE)"

definition assoc_array_shortcut_to_ptr :: "addr \<Rightarrow> ptr" where
  "assoc_array_shortcut_to_ptr p =
     assoc_array_x_to_ptr p (ASSOC_ARRAY_PTR_META_TYPE OR ASSOC_ARRAY_PTR_SHORTCUT_SUBTYPE)"

text \<open>The macro \<open>round_up\<close> on C \<open>int\<close>s (line 161).\<close>

definition round_up :: "int \<Rightarrow> int \<Rightarrow> int" where
  "round_up x y = ((x - 1) OR (y - 1)) + 1"

section \<open>Nodes, shortcuts and the heap (lines 35 to 53)\<close>

record assoc_array_node =
  back_pointer :: ptr
  parent_slot :: u8
  slots :: "ptr list"
  nr_leaves_on_branch :: u64

record assoc_array_shortcut =
  s_back_pointer :: ptr
  s_parent_slot :: int
  skip_to_level :: int
  next_node :: ptr
  index_key :: "u64 list"

record assoc_array =
  root :: ptr
  nr_leaves_on_tree :: u64

text \<open>
  The edit script: of its fields \<open>assoc_array_gc\<close> and the stubbed
  \<open>assoc_array_apply_edit\<close> use the pointer to the array (the one array of the
  run), \<open>excised_subtree\<close>, and the target \<open>to\<close> of the first assignment.
\<close>

record assoc_array_edit =
  excised_subtree :: ptr
  set0_to :: ptr

text \<open>
  The heap holds the live nodes and shortcuts by address. \<open>pool\<close> is the
  sequence of addresses the next calls of \<open>malloc\<close> and \<open>calloc\<close> return; an
  exhausted pool is an allocation that returns NULL.
\<close>

record mem =
  nodes :: "addr \<rightharpoonup> assoc_array_node"
  shorts :: "addr \<rightharpoonup> assoc_array_shortcut"
  edits :: "addr \<rightharpoonup> assoc_array_edit"
  pool :: "addr list"

text \<open>
  The conditions of the \<open>BUG_ON\<close>s of \<open>assoc_array_gc\<close> and of the assertion in the
  creation helpers, and the ends of a run.
\<close>

datatype bug = Bug_shortcut | Bug_meta | Bug_next_slot | Bug_cursor | Bug_not_node

datatype gc_stop = Returned int mem assoc_array | Bug bug | Fault

definition malloc :: "mem \<Rightarrow> addr \<times> mem" where
  "malloc m = (case pool m of [] \<Rightarrow> (0, m) | a # as \<Rightarrow> (a, m\<lparr>pool := as\<rparr>))"

definition get_node :: "mem \<Rightarrow> addr \<Rightarrow> gc_stop + assoc_array_node" where
  "get_node m a = (case nodes m a of None \<Rightarrow> Inl Fault | Some n \<Rightarrow> Inr n)"

definition get_shortcut :: "mem \<Rightarrow> addr \<Rightarrow> gc_stop + assoc_array_shortcut" where
  "get_shortcut m a = (case shorts m a of None \<Rightarrow> Inl Fault | Some s \<Rightarrow> Inr s)"

definition put_node :: "addr \<Rightarrow> assoc_array_node \<Rightarrow> mem \<Rightarrow> mem" where
  "put_node a n m = m\<lparr>nodes := (nodes m)(a \<mapsto> n)\<rparr>"

definition put_shortcut :: "addr \<Rightarrow> assoc_array_shortcut \<Rightarrow> mem \<Rightarrow> mem" where
  "put_shortcut a s m = m\<lparr>shorts := (shorts m)(a \<mapsto> s)\<rparr>"

text \<open>\<open>kfree\<close> of a live object; freeing anything else is a fault.\<close>

definition kfree_node :: "addr \<Rightarrow> mem \<Rightarrow> gc_stop + mem" where
  "kfree_node a m = bindR (get_node m a) (\<lambda>_. Inr (m\<lparr>nodes := (nodes m)(a := None)\<rparr>))"

definition kfree_shortcut :: "addr \<Rightarrow> mem \<Rightarrow> gc_stop + mem" where
  "kfree_shortcut a m = bindR (get_shortcut m a) (\<lambda>_. Inr (m\<lparr>shorts := (shorts m)(a := None)\<rparr>))"

text \<open>\<open>n->slots[i]\<close>, read and written, with the bounds of the array.\<close>

definition read_slot :: "mem \<Rightarrow> addr \<Rightarrow> int \<Rightarrow> gc_stop + ptr" where
  "read_slot m a i = bindR (get_node m a)
     (\<lambda>n. if 0 \<le> i \<and> nat i < length (slots n) then Inr (slots n ! nat i) else Inl Fault)"

definition write_slot :: "addr \<Rightarrow> int \<Rightarrow> ptr \<Rightarrow> mem \<Rightarrow> gc_stop + mem" where
  "write_slot a i p m = bindR (get_node m a)
     (\<lambda>n. if 0 \<le> i \<and> nat i < length (slots n)
          then Inr (put_node a (n\<lparr>slots := (slots n)[nat i := p]\<rparr>) m) else Inl Fault)"

definition zero_node :: assoc_array_node where
  "zero_node = \<lparr>back_pointer = 0, parent_slot = 0,
     slots = replicate ASSOC_ARRAY_FAN_OUT 0, nr_leaves_on_branch = 0\<rparr>"

end
