(* ===== verification/AssocGC.thy ===== *)
theory AssocGC
  imports AssocArray
begin

text \<open>
  \<open>assoc_array_gc\<close> of \<open>src/assoc_array_gc/repro.c\<close> (the kernel's function as it
  was) and of \<open>src/assoc_array_gc/repro_fixed.c\<close> (with the patch). The body of
  gotos is a step function on a state that holds the function's live local
  variables, the heap and the current label; one step runs from a label to the
  next jump, a turn of the \<open>for\<close> loop at \<open>continue_node\<close> being a jump. The two
  versions differ in the retry condition only, a parameter of the step.
\<close>

section \<open>State\<close>

text \<open>
  The labels of the C function, and three points between them: \<open>DupNode\<close>
  ("Duplicate the node at this position"), \<open>ExciseNode\<close> ("Excise this node if
  it is singly occupied by a shortcut") and \<open>ExciseShortcut\<close> ("Excise any
  shortcuts we might encounter").
\<close>

datatype gc_label = Descend | DupNode | ContinueNode | RetryCompress | ExciseNode
  | ExciseShortcut | AscendOldTree | GcComplete | Enomem

text \<open>
  What the pointer to pointer \<open>new_ptr_pp\<close> points to: nothing, the local
  variable \<open>new_root\<close>, a slot of a new node, or a new shortcut's \<open>next_node\<close>.
\<close>

datatype ptr_ref = NullRef | RootRef | SlotRef addr int | NextNodeRef addr

record gc_state =
  g_mem :: mem
  g_array :: assoc_array
  g_edit :: addr
  g_label :: gc_label
  g_node :: addr
  g_new_n :: addr
  g_cursor :: ptr
  g_new_root :: ptr
  g_new_parent :: ptr
  g_new_ptr_pp :: ptr_ref
  g_slot :: int
  g_nr_free :: int
  g_nr_leaves_on_tree :: u64

text \<open>\<open>*new_ptr_pp = p\<close>\<close>

definition store_ref :: "ptr_ref \<Rightarrow> ptr \<Rightarrow> gc_state \<Rightarrow> gc_stop + gc_state" where
  "store_ref r p s = (case r of
       NullRef \<Rightarrow> Inl Fault
     | RootRef \<Rightarrow> Inr (s\<lparr>g_new_root := p\<rparr>)
     | SlotRef a i \<Rightarrow> bindR (write_slot a i p (g_mem s)) (\<lambda>m. Inr (s\<lparr>g_mem := m\<rparr>))
     | NextNodeRef a \<Rightarrow> bindR (get_shortcut (g_mem s) a)
         (\<lambda>sc. Inr (s\<lparr>g_mem := put_shortcut a (sc\<lparr>next_node := p\<rparr>) (g_mem s)\<rparr>)))"

section \<open>Going down: copy the shortcut and the node (lines 224 to 256)\<close>

text \<open>
  \<open>descend\<close>: a shortcut at the cursor is duplicated, key included. Copying more
  key words than the object has is a fault.
\<close>

definition gc_descend :: "gc_state \<Rightarrow> gc_stop + gc_state" where
  "gc_descend s =
     (if assoc_array_ptr_is_shortcut (g_cursor s) then
        bindR (get_shortcut (g_mem s) (assoc_array_ptr_to_shortcut (g_cursor s))) (\<lambda>shortcut.
          let keylen = drop_bit ASSOC_ARRAY_KEY_CHUNK_SHIFT
                         (round_up (skip_to_level shortcut) ASSOC_ARRAY_KEY_CHUNK_SIZE);
              (new_s, m) = malloc (g_mem s)
          in if new_s = 0 then Inr (s\<lparr>g_mem := m, g_label := Enomem\<rparr>)
             else if keylen < 0 \<or> length (index_key shortcut) < nat keylen then Inl Fault
             else
               let p = assoc_array_shortcut_to_ptr new_s;
                   m' = put_shortcut new_s
                     (shortcut\<lparr>s_back_pointer := g_new_parent s,
                               index_key := take (nat keylen) (index_key shortcut)\<rparr>) m
               in bindR (store_ref (g_new_ptr_pp s) p (s\<lparr>g_mem := m'\<rparr>)) (\<lambda>s'.
                    Inr (s'\<lparr>g_new_parent := p, g_new_ptr_pp := NextNodeRef new_s,
                            g_cursor := next_node shortcut, g_label := DupNode\<rparr>)))
      else Inr (s\<lparr>g_label := DupNode\<rparr>))"

definition gc_dup_node :: "gc_state \<Rightarrow> gc_stop + gc_state" where
  "gc_dup_node s =
     (let node = assoc_array_ptr_to_node (g_cursor s);
          (new_n, m) = malloc (g_mem s)
      in if new_n = 0 then Inr (s\<lparr>g_mem := m, g_label := Enomem\<rparr>)
         else bindR (get_node m node) (\<lambda>n.
           let p = assoc_array_node_to_ptr new_n;
               m' = put_node new_n
                 (zero_node\<lparr>back_pointer := g_new_parent s, parent_slot := parent_slot n\<rparr>) m
           in bindR (store_ref (g_new_ptr_pp s) p (s\<lparr>g_mem := m'\<rparr>)) (\<lambda>s'.
                Inr (s'\<lparr>g_node := node, g_new_n := new_n, g_new_parent := p,
                        g_new_ptr_pp := NullRef, g_slot := 0, g_label := ContinueNode\<rparr>))))"

section \<open>Filtering the leaves (lines 258 to 282)\<close>

text \<open>One turn of the loop over the old node's slots; its end goes on to the compression.\<close>

definition gc_continue_node :: "(addr \<Rightarrow> bool) \<Rightarrow> gc_state \<Rightarrow> gc_stop + gc_state" where
  "gc_continue_node iterator s =
     (if g_slot s < int ASSOC_ARRAY_FAN_OUT then
        bindR (read_slot (g_mem s) (g_node s) (g_slot s)) (\<lambda>ptr.
          if ptr = 0 then Inr (s\<lparr>g_slot := g_slot s + 1\<rparr>)
          else if assoc_array_ptr_is_leaf ptr then
            (if iterator (assoc_array_ptr_to_leaf ptr) then
               bindR (write_slot (g_new_n s) (g_slot s) ptr (g_mem s)) (\<lambda>m.
                 Inr (s\<lparr>g_mem := m, g_slot := g_slot s + 1\<rparr>))
             else Inr (s\<lparr>g_slot := g_slot s + 1\<rparr>))
          else Inr (s\<lparr>g_new_ptr_pp := SlotRef (g_new_n s) (g_slot s), g_cursor := ptr,
                     g_label := Descend\<rparr>))
      else Inr (s\<lparr>g_label := RetryCompress\<rparr>))"

section \<open>Compressing a finished node (lines 284 to 355)\<close>

text \<open>Count the empty slots and the leaves directly in the node.\<close>

fun count_slots :: "ptr list \<Rightarrow> int \<Rightarrow> u64 \<Rightarrow> int \<times> u64" where
  "count_slots [] nr_free nr_leaves = (nr_free, nr_leaves)"
| "count_slots (ptr # ps) nr_free nr_leaves =
     (if ptr = 0 then count_slots ps (nr_free + 1) nr_leaves
      else if assoc_array_ptr_is_leaf ptr then count_slots ps nr_free (nr_leaves + 1)
      else count_slots ps nr_free nr_leaves)"

text \<open>
  \<open>while (new_n->slots[next_slot]) next_slot++;\<close> A read behind the last slot is
  outside the array, a fault.
\<close>

function find_free_slot :: "ptr list \<Rightarrow> nat \<Rightarrow> gc_stop + nat" where
  "find_free_slot ss next_slot =
     (if next_slot < length ss then
        (if ss ! next_slot \<noteq> 0 then find_free_slot ss (Suc next_slot) else Inr next_slot)
      else Inl Fault)"
  by pat_completeness auto
termination
  by (relation "measure (\<lambda>(ss, i). length ss - i)") auto

declare find_free_slot.simps [simp del]

text \<open>The locals of the folding loop that live across its turns.\<close>

record fold_state =
  f_mem :: mem
  f_nr_free :: int
  f_next_slot :: nat
  f_retained :: bool

text \<open>Slot \<open>i\<close> of the folded child moves to the next free slot of \<open>new_n\<close> (lines 335 to 343).\<close>

definition move_leaf :: "addr \<Rightarrow> addr \<Rightarrow> nat \<Rightarrow> fold_state \<Rightarrow> gc_stop + fold_state" where
  "move_leaf new_n child i f =
     bindR (read_slot (f_mem f) child (int i)) (\<lambda>p.
       if p = 0 then Inr f
       else if assoc_array_ptr_is_meta p then Inl (Bug Bug_meta)
       else bindR (get_node (f_mem f) new_n) (\<lambda>n.
         bindR (find_free_slot (slots n) (f_next_slot f)) (\<lambda>next_slot.
           if next_slot \<ge> ASSOC_ARRAY_FAN_OUT then Inl (Bug Bug_next_slot)
           else bindR (write_slot new_n (int next_slot) p (f_mem f)) (\<lambda>m.
             Inr (f\<lparr>f_mem := m, f_next_slot := next_slot + 1,
                    f_nr_free := f_nr_free f - 1\<rparr>)))))"

text \<open>
  One turn of the folding loop (lines 303 to 350). \<open>nr_leaves_on_branch\<close> of the
  new node grows by the child's count; the child is folded when its leaves fit
  into the free slots and its own.
\<close>

definition fold_slot :: "addr \<Rightarrow> nat \<Rightarrow> fold_state \<Rightarrow> gc_stop + fold_state" where
  "fold_slot new_n slot f =
     bindR (read_slot (f_mem f) new_n (int slot)) (\<lambda>ptr.
       if ptr = 0 \<or> assoc_array_ptr_is_leaf ptr then Inr f
       else
         bindR (if assoc_array_ptr_is_shortcut ptr
                then bindR (get_shortcut (f_mem f) (assoc_array_ptr_to_shortcut ptr))
                       (\<lambda>s. Inr (True, next_node s))
                else Inr (False, ptr)) (\<lambda>(s, ptr').
           let child = assoc_array_ptr_to_node ptr' in
           bindR (get_node (f_mem f) child) (\<lambda>c.
           bindR (get_node (f_mem f) new_n) (\<lambda>n.
           let m1 = put_node new_n (n\<lparr>nr_leaves_on_branch :=
                      nr_leaves_on_branch n + nr_leaves_on_branch c\<rparr>) (f_mem f) in
           bindR (get_node m1 child) (\<lambda>c.
             if nr_leaves_on_branch c \<le> word_of_int (f_nr_free f + 1) then
               if s then Inl (Bug Bug_shortcut)
               else
                 bindR (write_slot new_n (int slot) 0 m1) (\<lambda>m2.
                 bindR (forE (move_leaf new_n child) [0..<ASSOC_ARRAY_FAN_OUT]
                         (f\<lparr>f_mem := m2, f_nr_free := f_nr_free f + 1,
                            f_next_slot := min slot (f_next_slot f)\<rparr>)) (\<lambda>f'.
                 bindR (kfree_node child (f_mem f')) (\<lambda>m3. Inr (f'\<lparr>f_mem := m3\<rparr>))))
             else Inr (f\<lparr>f_mem := m1, f_retained := True\<rparr>))))))"

text \<open>
  One pass of the compression, and the end of it: \<open>retry\<close> is the condition of
  the jump back, on \<open>retained\<close> and the leaf count.
\<close>

definition compress_pass :: "addr \<Rightarrow> mem \<Rightarrow> gc_stop + fold_state" where
  "compress_pass new_n m =
     bindR (get_node m new_n) (\<lambda>n.
       let (nr_free, nr_leaves) = count_slots (slots n) 0 0 in
       forE (fold_slot new_n) [0..<ASSOC_ARRAY_FAN_OUT]
         \<lparr>f_mem = put_node new_n (n\<lparr>nr_leaves_on_branch := nr_leaves\<rparr>) m,
          f_nr_free = nr_free, f_next_slot = 0, f_retained = False\<rparr>)"

definition gc_compress :: "(bool \<Rightarrow> u64 \<Rightarrow> bool) \<Rightarrow> gc_state \<Rightarrow> gc_stop + gc_state" where
  "gc_compress retry s =
     bindR (compress_pass (g_new_n s) (g_mem s)) (\<lambda>f.
     bindR (get_node (f_mem f) (g_new_n s)) (\<lambda>n.
       if retry (f_retained f) (nr_leaves_on_branch n)
       then Inr (s\<lparr>g_mem := f_mem f, g_label := RetryCompress\<rparr>)
       else Inr (s\<lparr>g_mem := f_mem f, g_nr_free := f_nr_free f,
                   g_nr_leaves_on_tree := nr_leaves_on_branch n, g_label := ExciseNode\<rparr>)))"

section \<open>Excising what a single shortcut makes superfluous (lines 357 to 433)\<close>

text \<open>The first non-empty slot, NULL when there is none.\<close>

definition first_ptr :: "ptr list \<Rightarrow> ptr" where
  "first_ptr ss = (case dropWhile (\<lambda>p. p = 0) ss of [] \<Rightarrow> 0 | p # _ \<Rightarrow> p)"

text \<open>\<open>new_s\<close> becomes the root: no parent, slot 0 (lines 371 to 374 and 388 to 391).\<close>

definition shortcut_to_root :: "addr \<Rightarrow> ptr \<Rightarrow> mem \<Rightarrow> gc_state \<Rightarrow> gc_stop + gc_state" where
  "shortcut_to_root new_s ptr m s =
     bindR (get_shortcut m new_s) (\<lambda>sc.
       Inr (s\<lparr>g_mem := put_shortcut new_s (sc\<lparr>s_back_pointer := 0, s_parent_slot := 0\<rparr>) m,
              g_new_root := ptr, g_label := GcComplete\<rparr>))"

definition gc_excise_node :: "gc_state \<Rightarrow> gc_stop + gc_state" where
  "gc_excise_node s =
     (if g_nr_free s \<noteq> int ASSOC_ARRAY_FAN_OUT - 1 then Inr (s\<lparr>g_label := ExciseShortcut\<rparr>)
      else bindR (get_node (g_mem s) (g_new_n s)) (\<lambda>n.
        let ptr = first_ptr (slots n) in
        if \<not> (assoc_array_ptr_is_meta ptr \<and> assoc_array_ptr_is_shortcut ptr)
        then Inr (s\<lparr>g_label := ExciseShortcut\<rparr>)
        else
          let new_s = assoc_array_ptr_to_shortcut ptr; new_parent = back_pointer n in
          bindR (kfree_node (g_new_n s) (g_mem s)) (\<lambda>m.
            if new_parent = 0 then shortcut_to_root new_s ptr m s
            else
              bindR (if assoc_array_ptr_is_shortcut new_parent
                     then
                       let a = assoc_array_ptr_to_shortcut new_parent in
                       bindR (get_shortcut m a) (\<lambda>sa.
                       bindR (get_shortcut m new_s) (\<lambda>sc.
                       bindR (kfree_shortcut a (put_shortcut new_s
                         (sc\<lparr>s_back_pointer := s_back_pointer sa,
                             s_parent_slot := s_parent_slot sa\<rparr>) m)) (\<lambda>m'.
                         Inr (m', s_back_pointer sa, s_parent_slot sa))))
                     else Inr (m, new_parent, uint (parent_slot n))) (\<lambda>(m, new_parent, slot).
                if new_parent = 0 then shortcut_to_root new_s ptr m s
                else
                  bindR (get_shortcut m new_s) (\<lambda>sc.
                  let m' = put_shortcut new_s
                             (sc\<lparr>s_back_pointer := new_parent, s_parent_slot := slot\<rparr>) m;
                      new_n = assoc_array_ptr_to_node new_parent in
                  bindR (write_slot new_n slot ptr m') (\<lambda>m''.
                    Inr (s\<lparr>g_mem := m'', g_new_n := new_n, g_new_parent := new_parent,
                           g_label := AscendOldTree\<rparr>)))))))"

definition gc_excise_shortcut :: "gc_state \<Rightarrow> gc_stop + gc_state" where
  "gc_excise_shortcut s =
     bindR (get_node (g_mem s) (g_new_n s)) (\<lambda>n.
       let ptr = back_pointer n in
       if ptr = 0 then Inr (s\<lparr>g_label := GcComplete\<rparr>)
       else if assoc_array_ptr_is_shortcut ptr then
         let new_s = assoc_array_ptr_to_shortcut ptr in
         bindR (get_shortcut (g_mem s) new_s) (\<lambda>sc.
           let new_parent = s_back_pointer sc; slot = s_parent_slot sc in
           if nr_leaves_on_branch n \<le> of_nat ASSOC_ARRAY_FAN_OUT then
             bindR (kfree_shortcut new_s (put_node (g_new_n s)
               (n\<lparr>back_pointer := new_parent, parent_slot := word_of_int slot\<rparr>) (g_mem s))) (\<lambda>m.
             if new_parent = 0 then
               Inr (s\<lparr>g_mem := m, g_new_root := assoc_array_node_to_ptr (g_new_n s),
                      g_new_parent := new_parent, g_label := GcComplete\<rparr>)
             else
               bindR (write_slot (assoc_array_ptr_to_node new_parent) slot
                       (assoc_array_node_to_ptr (g_new_n s)) m) (\<lambda>m'.
                 Inr (s\<lparr>g_mem := m', g_new_n := assoc_array_ptr_to_node new_parent,
                        g_new_parent := new_parent, g_label := AscendOldTree\<rparr>)))
           else Inr (s\<lparr>g_new_n := assoc_array_ptr_to_node new_parent,
                       g_new_parent := new_parent, g_label := AscendOldTree\<rparr>))
       else Inr (s\<lparr>g_new_n := assoc_array_ptr_to_node ptr, g_new_parent := ptr,
                   g_label := AscendOldTree\<rparr>))"

section \<open>Going up, and the end (lines 435 to 463)\<close>

definition gc_ascend_old_tree :: "gc_state \<Rightarrow> gc_stop + gc_state" where
  "gc_ascend_old_tree s =
     bindR (get_node (g_mem s) (g_node s)) (\<lambda>n.
       let ptr = back_pointer n in
       if assoc_array_ptr_is_shortcut ptr then
         bindR (get_shortcut (g_mem s) (assoc_array_ptr_to_shortcut ptr)) (\<lambda>sc.
           if s_back_pointer sc = 0 then Inr (s\<lparr>g_label := GcComplete\<rparr>)
           else Inr (s\<lparr>g_cursor := s_back_pointer sc,
                       g_node := assoc_array_ptr_to_node (s_back_pointer sc),
                       g_slot := s_parent_slot sc + 1, g_label := ContinueNode\<rparr>))
       else if ptr = 0 then Inl (Bug Bug_cursor)
       else Inr (s\<lparr>g_cursor := ptr, g_node := assoc_array_ptr_to_node ptr,
                   g_slot := uint (parent_slot n) + 1, g_label := ContinueNode\<rparr>))"

text \<open>
  The stubs of \<open>assoc_array_apply_edit\<close> (lines 182 to 186) and of
  \<open>assoc_array_destroy_subtree\<close> (lines 175 to 181), which only prints.
\<close>

definition assoc_array_apply_edit :: "assoc_array_edit \<Rightarrow> assoc_array \<Rightarrow> assoc_array" where
  "assoc_array_apply_edit edit array = array\<lparr>root := set0_to edit\<rparr>"

definition assoc_array_destroy_subtree :: "ptr \<Rightarrow> mem \<Rightarrow> mem" where
  "assoc_array_destroy_subtree new_root m = m"

definition ENOMEM :: int where "ENOMEM = 12"

definition gc_complete :: "gc_state \<Rightarrow> gc_stop" where
  "gc_complete s =
     (case edits (g_mem s) (g_edit s) of
        None \<Rightarrow> Fault
      | Some e \<Rightarrow>
          let e' = e\<lparr>set0_to := g_new_root s\<rparr>;
              array = assoc_array_apply_edit e' (g_array s)
          in Returned 0 ((g_mem s)\<lparr>edits := (edits (g_mem s))(g_edit s \<mapsto> e')\<rparr>)
               (array\<lparr>nr_leaves_on_tree := g_nr_leaves_on_tree s\<rparr>))"

definition gc_enomem :: "gc_state \<Rightarrow> gc_stop" where
  "gc_enomem s =
     (let m = assoc_array_destroy_subtree (g_new_root s) (g_mem s)
      in Returned (- ENOMEM) (m\<lparr>edits := (edits m)(g_edit s := None)\<rparr>) (g_array s))"

section \<open>The whole function (lines 193 to 463)\<close>

definition gc_step ::
  "(bool \<Rightarrow> u64 \<Rightarrow> bool) \<Rightarrow> (addr \<Rightarrow> bool) \<Rightarrow> gc_state \<Rightarrow> gc_stop + gc_state" where
  "gc_step retry iterator s = (case g_label s of
       Descend \<Rightarrow> gc_descend s
     | DupNode \<Rightarrow> gc_dup_node s
     | ContinueNode \<Rightarrow> gc_continue_node iterator s
     | RetryCompress \<Rightarrow> gc_compress retry s
     | ExciseNode \<Rightarrow> gc_excise_node s
     | ExciseShortcut \<Rightarrow> gc_excise_shortcut s
     | AscendOldTree \<Rightarrow> gc_ascend_old_tree s
     | GcComplete \<Rightarrow> Inl (gc_complete s)
     | Enomem \<Rightarrow> Inl (gc_enomem s))"

text \<open>\<open>None\<close> is a run that does not end.\<close>

partial_function (option) gc_loop ::
  "(gc_state \<Rightarrow> gc_stop + gc_state) \<Rightarrow> gc_state \<Rightarrow> gc_stop option" where
  "gc_loop step s = (case step s of Inl r \<Rightarrow> Some r | Inr s' \<Rightarrow> gc_loop step s')"

abbreviation reaches ::
  "(gc_state \<Rightarrow> gc_stop + gc_state) \<Rightarrow> gc_state \<Rightarrow> gc_state \<Rightarrow> bool" where
  "reaches step \<equiv> (\<lambda>s t. step s = Inr t)\<^sup>*\<^sup>*"

lemma gc_loop_reaches: "reaches step s t \<Longrightarrow> gc_loop step s = gc_loop step t"
  by (induction rule: converse_rtranclp_induct) (simp_all add: gc_loop.simps)

lemma gc_loop_stop: "step s = Inl r \<Longrightarrow> gc_loop step s = Some r"
  by (simp add: gc_loop.simps)

lemma reaches_step: "step s = Inr t \<Longrightarrow> reaches step t u \<Longrightarrow> reaches step s u"
  by (rule converse_rtranclp_into_rtranclp)

text \<open>The state in front of \<open>descend\<close> (lines 211 to 222), after the edit's allocation.\<close>

definition gc_start :: "mem \<Rightarrow> assoc_array \<Rightarrow> addr \<Rightarrow> gc_state" where
  "gc_start m array edit =
     \<lparr>g_mem = m\<lparr>edits := (edits m)(edit \<mapsto> \<lparr>excised_subtree = root array, set0_to = 0\<rparr>)\<rparr>,
      g_array = array, g_edit = edit, g_label = Descend, g_node = 0, g_new_n = 0,
      g_cursor = root array, g_new_root = 0, g_new_parent = 0, g_new_ptr_pp = RootRef,
      g_slot = 0, g_nr_free = 0, g_nr_leaves_on_tree = 0\<rparr>"

definition gc_run :: "(bool \<Rightarrow> u64 \<Rightarrow> bool) \<Rightarrow> (addr \<Rightarrow> bool) \<Rightarrow> mem \<Rightarrow> assoc_array
    \<Rightarrow> gc_stop option" where
  "gc_run retry iterator m array =
     (if root array = 0 then Some (Returned 0 m array)
      else let (edit, m1) = malloc m in
        if edit = 0 then Some (Returned (- ENOMEM) m1 array)
        else gc_loop (gc_step retry iterator) (gc_start m1 array edit))"

text \<open>\<open>repro.c\<close> never retries; the patch of \<open>repro_fixed.c\<close> does (lines 353 to 360 there).\<close>

definition retry_never :: "bool \<Rightarrow> u64 \<Rightarrow> bool" where
  "retry_never retained nr_leaves \<longleftrightarrow> False"

definition retry_fixed :: "bool \<Rightarrow> u64 \<Rightarrow> bool" where
  "retry_fixed retained nr_leaves \<longleftrightarrow> retained \<and> nr_leaves < of_nat ASSOC_ARRAY_FAN_OUT"

definition assoc_array_gc :: "(addr \<Rightarrow> bool) \<Rightarrow> mem \<Rightarrow> assoc_array \<Rightarrow> gc_stop option" where
  "assoc_array_gc = gc_run retry_never"

definition assoc_array_gc_fixed :: "(addr \<Rightarrow> bool) \<Rightarrow> mem \<Rightarrow> assoc_array \<Rightarrow> gc_stop option" where
  "assoc_array_gc_fixed = gc_run retry_fixed"

end
