(* ===== verification/AssocTree.thy ===== *)
theory AssocTree
  imports AssocGC
begin

text \<open>
  The abstract specification of \<open>assoc_array_gc\<close> on arrays without shortcuts (the
  arrays \<open>repro.c\<close> can build): trees without addresses, the compression of a
  node's slots on lists, and the whole collection as a recursive function. The
  lemmas here are about this specification; \<open>AssocRefine\<close> shows that the
  pointer program implements it.
\<close>

section \<open>Trees\<close>

datatype 'l tr = is_Hole: Hole | is_Leaf: Leaf 'l | is_Node: Node "'l tr list"

fun nleaves :: "'l tr \<Rightarrow> nat" where
  "nleaves Hole = 0"
| "nleaves (Leaf x) = 1"
| "nleaves (Node ts) = sum_list (map nleaves ts)"

fun nnodes :: "'l tr \<Rightarrow> nat" where
  "nnodes (Node ts) = Suc (sum_list (map nnodes ts))"
| "nnodes t = 0"

fun leaves :: "'l tr \<Rightarrow> 'l multiset" where
  "leaves Hole = {#}"
| "leaves (Leaf x) = {#x#}"
| "leaves (Node ts) = sum_list (map leaves ts)"

text \<open>
  \<open>leaf_at t x \<pi>\<close>: the node reached from the root of \<open>t\<close> by the slots \<open>\<pi>\<close> holds
  the leaf \<open>x\<close>. A search for \<open>x\<close> walks such a path, one slot per key digit.
\<close>

inductive leaf_at :: "'l tr \<Rightarrow> 'l \<Rightarrow> nat list \<Rightarrow> bool" where
  here: "i < length ts \<Longrightarrow> ts ! i = Leaf x \<Longrightarrow> leaf_at (Node ts) x []"
| down: "i < length ts \<Longrightarrow> leaf_at (ts ! i) x \<pi> \<Longrightarrow> leaf_at (Node ts) x (i # \<pi>)"

inductive_simps leaf_at_simps [simp]:
  "leaf_at Hole x \<pi>"
  "leaf_at (Leaf y) x \<pi>"
  "leaf_at (Node ts) x []"
  "leaf_at (Node ts) x (i # \<pi>)"

text \<open>A flat node holds leaves only.\<close>

definition flat :: "'l tr \<Rightarrow> bool" where
  "flat t = (case t of Node ts \<Rightarrow> list_all (\<lambda>u. \<not> is_Node u) ts | _ \<Rightarrow> True)"

fun fan_out :: "'l tr \<Rightarrow> bool" where
  "fan_out (Node ts) \<longleftrightarrow> length ts = ASSOC_ARRAY_FAN_OUT \<and> list_all fan_out ts"
| "fan_out t \<longleftrightarrow> True"

definition holes :: "'l tr list \<Rightarrow> nat" where
  "holes ts = length (filter is_Hole ts)"

section \<open>Compression on lists\<close>

datatype tr_err = TBug bug | TFault | TNoMem

function hole_from :: "'l tr list \<Rightarrow> nat \<Rightarrow> tr_err + nat" where
  "hole_from ts i =
     (if i < length ts then (if is_Hole (ts ! i) then Inr i else hole_from ts (Suc i))
      else Inl TFault)"
  by pat_completeness auto
termination
  by (relation "measure (\<lambda>(ts, i). length ts - i)") auto

declare hole_from.simps [simp del]

definition place :: "'l tr \<Rightarrow> 'l tr list \<times> nat \<times> nat \<Rightarrow> tr_err + 'l tr list \<times> nat \<times> nat" where
  "place u = (\<lambda>(ts, fr, nx). case u of
       Hole \<Rightarrow> Inr (ts, fr, nx)
     | Leaf x \<Rightarrow> bindR (hole_from ts nx) (\<lambda>j. Inr (ts[j := Leaf x], fr - 1, Suc j))
     | Node us \<Rightarrow> Inl (TBug Bug_meta))"

definition fold_at :: "nat \<Rightarrow> 'l tr list \<times> nat \<times> nat \<times> bool
    \<Rightarrow> tr_err + 'l tr list \<times> nat \<times> nat \<times> bool" where
  "fold_at k = (\<lambda>(ts, fr, nx, ret). case ts ! k of
       Node us \<Rightarrow>
         if nleaves (Node us) \<le> fr + 1
         then bindR (forE place us (ts[k := Hole], fr + 1, min k nx))
                (\<lambda>(ts, fr, nx). Inr (ts, fr, nx, ret))
         else Inr (ts, fr, nx, True)
     | _ \<Rightarrow> Inr (ts, fr, nx, ret))"

definition pass :: "'l tr list \<Rightarrow> tr_err + 'l tr list \<times> nat \<times> nat \<times> bool" where
  "pass ts = forE fold_at [0..<ASSOC_ARRAY_FAN_OUT] (ts, holes ts, 0, False)"

definition compress :: "(bool \<Rightarrow> u64 \<Rightarrow> bool) \<Rightarrow> 'l tr list \<Rightarrow> tr_err + 'l tr list" where
  "compress retry ts = bindR (pass ts) (\<lambda>(ts1, _, _, ret).
     if retry ret (of_nat (nleaves (Node ts1)))
     then bindR (pass ts1) (\<lambda>(ts2, _, _, _). Inr ts2)
     else Inr ts1)"

section \<open>The collection\<close>

text \<open>
  \<open>k\<close> is the number of allocations that still succeed; a node costs one, its
  children are collected in the order of their slots before it is compressed.
\<close>

fun gct :: "(bool \<Rightarrow> u64 \<Rightarrow> bool) \<Rightarrow> ('l \<Rightarrow> bool) \<Rightarrow> nat \<Rightarrow> 'l tr \<Rightarrow> tr_err + 'l tr \<times> nat"
and gcts :: "(bool \<Rightarrow> u64 \<Rightarrow> bool) \<Rightarrow> ('l \<Rightarrow> bool) \<Rightarrow> nat \<Rightarrow> 'l tr list
    \<Rightarrow> tr_err + 'l tr list \<times> nat" where
  "gct retry keep k Hole = Inr (Hole, k)"
| "gct retry keep k (Leaf x) = Inr (if keep x then Leaf x else Hole, k)"
| "gct retry keep k (Node ts) =
     (case k of 0 \<Rightarrow> Inl TNoMem
      | Suc k' \<Rightarrow> bindR (gcts retry keep k' ts) (\<lambda>(us, k'').
          bindR (compress retry us) (\<lambda>vs. Inr (Node vs, k''))))"
| "gcts retry keep k [] = Inr ([], k)"
| "gcts retry keep k (t # ts) = bindR (gct retry keep k t) (\<lambda>(u, k').
     bindR (gcts retry keep k' ts) (\<lambda>(us, k''). Inr (u # us, k'')))"

section \<open>Holes and the search for a free slot\<close>

lemma size_sum_list_mset: "size (sum_list ms) = sum_list (map size ms)"
  for ms :: "'a multiset list"
  by (induction ms) simp_all

lemma nleaves_eq_size: "nleaves t = size (leaves t)"
  by (induction t) (auto simp: size_sum_list_mset comp_def intro!: arg_cong [where f = sum_list])

lemma holes_eq_sum: "holes ts = sum_list (map (\<lambda>t. if is_Hole t then 1 else 0) ts)"
  by (induction ts) (auto simp: holes_def)

lemma holes_le_length: "holes ts \<le> length ts"
  by (simp add: holes_def)

lemma holes_update:
  assumes "i < length ts"
  shows "holes (ts[i := t]) + (if is_Hole (ts ! i) then 1 else 0)
    = holes ts + (if is_Hole t then 1 else 0)"
  using sum_list_map_update [OF assms, of "\<lambda>t. if is_Hole t then 1 else (0::nat)"]
  by (simp add: holes_eq_sum)

lemma holes_pos_ex: "0 < holes ts \<Longrightarrow> \<exists>j<length ts. is_Hole (ts ! j)"
  by (auto simp: holes_def filter_empty_conv in_set_conv_nth)

lemma hole_from_finds:
  assumes "i \<le> j" and "j < length ts" and "is_Hole (ts ! j)"
  shows "\<exists>k. hole_from ts i = Inr k \<and> i \<le> k \<and> k < length ts \<and> is_Hole (ts ! k)
    \<and> (\<forall>l. i \<le> l \<and> l < k \<longrightarrow> \<not> is_Hole (ts ! l))"
  using assms
proof (induction ts i rule: hole_from.induct)
  case (1 ts i)
  then have i: "i < length ts" by simp
  show ?case
  proof (cases "is_Hole (ts ! i)")
    case True
    with i show ?thesis by (auto simp: hole_from.simps [of ts i])
  next
    case False
    with "1.prems" have "Suc i \<le> j" by (metis Suc_leI le_neq_implies_less)
    then obtain k where k: "hole_from ts (Suc i) = Inr k" "Suc i \<le> k" "k < length ts"
      "is_Hole (ts ! k)" "\<forall>l. Suc i \<le> l \<and> l < k \<longrightarrow> \<not> is_Hole (ts ! l)"
      using "1.IH" [OF i False] "1.prems" by blast
    then have "\<forall>l. i \<le> l \<and> l < k \<longrightarrow> \<not> is_Hole (ts ! l)"
      using False by (metis Suc_leI le_neq_implies_less)
    with k i False show ?thesis by (auto simp: hole_from.simps [of ts i])
  qed
qed

section \<open>The invariant of the folding loop\<close>

text \<open>
  \<open>nr_free\<close> counts the holes, and every slot below \<open>next_slot\<close> is taken: this is
  why the search for a free slot never leaves the node.
\<close>

fun slots_ok :: "'l tr list \<times> nat \<times> nat \<Rightarrow> bool" where
  "slots_ok (ts, fr, nx) \<longleftrightarrow> length ts = ASSOC_ARRAY_FAN_OUT \<and> fr = holes ts \<and>
     (\<forall>j<nx. j < ASSOC_ARRAY_FAN_OUT \<longrightarrow> \<not> is_Hole (ts ! j))"

text \<open>The slots of \<open>ts'\<close> are those of \<open>ts\<close>, some holes filled with leaves from \<open>us\<close>.\<close>

definition filled :: "'l tr list \<Rightarrow> 'l tr list \<Rightarrow> 'l tr list \<Rightarrow> bool" where
  "filled us ts ts' \<longleftrightarrow> length ts' = length ts \<and> (\<forall>j<length ts. ts' ! j = ts ! j \<or>
     is_Hole (ts ! j) \<and> is_Leaf (ts' ! j) \<and> ts' ! j \<in> set us)"

lemma filled_refl: "filled us ts ts"
  by (simp add: filled_def)

lemma filled_trans:
  "filled us ts ts' \<Longrightarrow> filled vs ts' ts'' \<Longrightarrow> set us \<union> set vs \<subseteq> set ws \<Longrightarrow> filled ws ts ts''"
  unfolding filled_def by (metis Un_iff subsetD)

lemma leaves_update:
  "i < length ts \<Longrightarrow>
    leaves (Node (ts[i := t])) + leaves (ts ! i) = leaves (Node ts) + leaves t"
  using sum_list_map_update [of i ts leaves t] by simp

lemma place_simps [simp]:
  "place Hole s = Inr s"
  "place (Node us) s = Inl (TBug Bug_meta)"
  by (cases s; simp add: place_def)+

lemma filled_Cons: "filled us ts ts' \<Longrightarrow> filled (u # us) ts ts'"
  by (auto simp: filled_def)

lemma place_leaf:
  assumes "slots_ok (ts, fr, nx)" and "0 < fr"
  shows "\<exists>j. place (Leaf x) (ts, fr, nx) = Inr (ts[j := Leaf x], fr - 1, Suc j)
    \<and> j < length ts \<and> is_Hole (ts ! j) \<and> slots_ok (ts[j := Leaf x], fr - 1, Suc j)"
proof -
  from assms have ok: "length ts = 16" "fr = holes ts"
    "\<And>j. j < nx \<Longrightarrow> j < 16 \<Longrightarrow> \<not> is_Hole (ts ! j)" by auto
  obtain j where j: "j < length ts" "is_Hole (ts ! j)"
    using holes_pos_ex assms(2) ok(2) by metis
  with ok have "nx \<le> j" by (metis not_le)
  then obtain k where k: "hole_from ts nx = Inr k" "k < length ts" "is_Hole (ts ! k)"
    "\<And>l. nx \<le> l \<Longrightarrow> l < k \<Longrightarrow> \<not> is_Hole (ts ! l)"
    using hole_from_finds [OF _ j] by metis
  have "holes (ts[k := Leaf x]) = fr - 1"
    using holes_update [OF k(2), of "Leaf x"] k(3) ok(2) by simp
  moreover have "\<forall>l<Suc k. l < 16 \<longrightarrow> \<not> is_Hole (ts[k := Leaf x] ! l)"
    using k ok by (metis (no_types, lifting) less_Suc_eq not_le nth_list_update tr.disc(2))
  ultimately show ?thesis
    using k ok(1) by (auto simp: place_def)
qed

text \<open>Placing the slots of a flat child whose leaves fit.\<close>

lemma place_all:
  assumes "slots_ok (ts, fr, nx)" and "nleaves (Node us) \<le> fr" and "flat (Node us)"
  shows "\<exists>ts' fr' nx'. forE place us (ts, fr, nx) = Inr (ts', fr', nx') \<and>
    slots_ok (ts', fr', nx') \<and> filled us ts ts' \<and>
    leaves (Node ts') = leaves (Node ts) + leaves (Node us)"
  using assms
proof (induction us arbitrary: ts fr nx)
  case Nil
  then show ?case by (auto simp: filled_refl)
next
  case (Cons u us)
  have flat: "flat (Node us)" using Cons.prems(3) by (simp add: flat_def)
  consider "u = Hole" | x where "u = Leaf x"
    using Cons.prems(3) by (cases u) (auto simp: flat_def)
  then show ?case
  proof cases
    case 1
    have "\<exists>ts' fr' nx'. forE place us (ts, fr, nx) = Inr (ts', fr', nx') \<and>
      slots_ok (ts', fr', nx') \<and> filled us ts ts' \<and>
      leaves (Node ts') = leaves (Node ts) + leaves (Node us)"
      using Cons.IH [OF Cons.prems(1) _ flat] Cons.prems(2) 1 by simp
    with 1 show ?thesis
      by (auto intro: filled_Cons)
  next
    case 2
    with Cons.prems(2) have fr: "0 < fr" "nleaves (Node us) \<le> fr - 1" by auto
    obtain j where j: "place (Leaf x) (ts, fr, nx) = Inr (ts[j := Leaf x], fr - 1, Suc j)"
      "j < length ts" "is_Hole (ts ! j)" "slots_ok (ts[j := Leaf x], fr - 1, Suc j)"
      using place_leaf [OF Cons.prems(1) fr(1)] by blast
    obtain ts' fr' nx' where t: "forE place us (ts[j := Leaf x], fr - 1, Suc j) = Inr (ts', fr', nx')"
      "slots_ok (ts', fr', nx')" "filled us (ts[j := Leaf x]) ts'"
      "leaves (Node ts') = leaves (Node (ts[j := Leaf x])) + leaves (Node us)"
      using Cons.IH [OF j(4) fr(2) flat] by blast
    have "filled [Leaf x] ts (ts[j := Leaf x])"
      using j by (auto simp: filled_def nth_list_update)
    then have "filled (u # us) ts ts'"
      using t(3) 2 by (auto intro: filled_trans)
    moreover have "ts ! j = Hole" using j(3) by (cases "ts ! j") auto
    then have "leaves (Node ts') = leaves (Node ts) + leaves (Node (u # us))"
      using t(4) leaves_update [OF j(2), of "Leaf x"] 2 by simp
    ultimately show ?thesis using 2 j(1) t by auto
  qed
qed

text \<open>A child with a node among its slots ends the run, whatever fits before it.\<close>

lemma place_all_bug:
  assumes "slots_ok (ts, fr, nx)" and "nleaves (Node us) \<le> fr" and "\<not> flat (Node us)"
  shows "forE place us (ts, fr, nx) = Inl (TBug Bug_meta)"
  using assms
proof (induction us arbitrary: ts fr nx)
  case Nil
  then show ?case by (simp add: flat_def)
next
  case (Cons u us)
  show ?case
  proof (cases u)
    case Hole
    then show ?thesis
      using Cons.IH [OF Cons.prems(1)] Cons.prems(2,3) by (simp add: flat_def)
  next
    case (Leaf x)
    with Cons.prems(2) have fr: "0 < fr" "nleaves (Node us) \<le> fr - 1" by auto
    obtain j where "place (Leaf x) (ts, fr, nx) = Inr (ts[j := Leaf x], fr - 1, Suc j)"
      "slots_ok (ts[j := Leaf x], fr - 1, Suc j)"
      using place_leaf [OF Cons.prems(1) fr(1)] by blast
    with Leaf show ?thesis
      using Cons.IH [OF _ fr(2)] Cons.prems(3) by (simp add: flat_def)
  next
    case (Node vs)
    then show ?thesis by simp
  qed
qed

section \<open>One pass of the compression\<close>

lemma fold_at_skip: "\<not> is_Node (ts ! k) \<Longrightarrow> fold_at k (ts, fr, nx, ret) = Inr (ts, fr, nx, ret)"
  by (cases "ts ! k") (simp_all add: fold_at_def)

lemma fold_at_retain:
  "ts ! k = Node us \<Longrightarrow> fr + 1 < nleaves (Node us) \<Longrightarrow>
    fold_at k (ts, fr, nx, ret) = Inr (ts, fr, nx, True)"
  by (simp add: fold_at_def)

lemma slots_ok_clear:
  assumes "slots_ok (ts, fr, nx)" and "k < 16" and "is_Node (ts ! k)"
  shows "slots_ok (ts[k := Hole], fr + 1, min k nx)" and "fr + 1 \<le> 16"
proof -
  have h: "holes (ts[k := Hole]) = fr + 1"
    using holes_update [of k ts Hole] assms by (auto simp: tr.disc_eq_case split: tr.splits)
  with assms show "slots_ok (ts[k := Hole], fr + 1, min k nx)" by auto
  have "length (ts[k := Hole]) = 16" using assms(1) by simp
  then show "fr + 1 \<le> 16" using h holes_le_length [of "ts[k := Hole]"] by simp
qed

lemma fold_at_fold:
  assumes "slots_ok (ts, fr, nx)" and "k < 16" and "ts ! k = Node us"
    and "nleaves (Node us) \<le> fr + 1" and "flat (Node us)"
  shows "\<exists>ts' fr' nx'. fold_at k (ts, fr, nx, ret) = Inr (ts', fr', nx', ret) \<and>
    slots_ok (ts', fr', nx') \<and> filled us (ts[k := Hole]) ts' \<and>
    leaves (Node ts') = leaves (Node ts)"
proof -
  have ok: "slots_ok (ts[k := Hole], fr + 1, min k nx)"
    using slots_ok_clear(1) [OF assms(1,2)] assms(3) by simp
  obtain ts' fr' nx' where t: "forE place us (ts[k := Hole], fr + 1, min k nx) = Inr (ts', fr', nx')"
    "slots_ok (ts', fr', nx')" "filled us (ts[k := Hole]) ts'"
    "leaves (Node ts') = leaves (Node (ts[k := Hole])) + leaves (Node us)"
    using place_all [OF ok assms(4,5)] by blast
  have "k < length ts" using assms(1,2) by simp
  then have "leaves (Node (ts[k := Hole])) + leaves (Node us) = leaves (Node ts)"
    using leaves_update [of k ts Hole] assms(3) by simp
  with t assms(3,4) show ?thesis by (simp add: fold_at_def)
qed

lemma fold_at_bug:
  assumes "slots_ok (ts, fr, nx)" and "k < 16" and "ts ! k = Node us"
    and "nleaves (Node us) \<le> fr + 1" and "\<not> flat (Node us)"
  shows "fold_at k (ts, fr, nx, ret) = Inl (TBug Bug_meta)"
proof -
  have "slots_ok (ts[k := Hole], fr + 1, min k nx)"
    using slots_ok_clear(1) [OF assms(1,2)] assms(3) by simp
  from place_all_bug [OF this assms(4,5)] assms(3,4) show ?thesis
    by (simp add: fold_at_def)
qed

text \<open>
  What holds after the turns below \<open>k\<close>: no leaf is lost or invented, a node that is
  left is one of the old ones in its old slot, those already passed were too big for
  the free slots, and a leaf stands where it stood or comes out of a child.
\<close>

fun pass_inv :: "'l tr list \<Rightarrow> nat \<Rightarrow> 'l tr list \<times> nat \<times> nat \<times> bool \<Rightarrow> bool" where
  "pass_inv ts0 k (ts, fr, nx, ret) \<longleftrightarrow>
     slots_ok (ts, fr, nx) \<and> leaves (Node ts) = leaves (Node ts0) \<and>
     (\<forall>j<ASSOC_ARRAY_FAN_OUT. is_Node (ts ! j) \<longrightarrow> ts ! j = ts0 ! j) \<and>
     (\<forall>j<ASSOC_ARRAY_FAN_OUT. k \<le> j \<and> is_Node (ts0 ! j) \<longrightarrow> ts ! j = ts0 ! j) \<and>
     (\<forall>j<k. j < ASSOC_ARRAY_FAN_OUT \<and> is_Node (ts ! j) \<longrightarrow> ret \<and> 2 \<le> nleaves (ts ! j)) \<and>
     (\<forall>j<ASSOC_ARRAY_FAN_OUT. is_Leaf (ts ! j) \<longrightarrow> ts ! j = ts0 ! j \<or>
       (\<exists>i<ASSOC_ARRAY_FAN_OUT. \<exists>us. ts0 ! i = Node us \<and> ts ! j \<in> set us))"

declare pass_inv.simps [simp del]

lemma pass_invD:
  assumes "pass_inv ts0 k (ts, fr, nx, ret)"
  shows pass_inv_ok: "slots_ok (ts, fr, nx)"
    and pass_inv_leaves: "leaves (Node ts) = leaves (Node ts0)"
    and pass_inv_node: "\<And>j. j < 16 \<Longrightarrow> is_Node (ts ! j) \<Longrightarrow> ts ! j = ts0 ! j"
    and pass_inv_later: "\<And>j. j < 16 \<Longrightarrow> k \<le> j \<Longrightarrow> is_Node (ts0 ! j) \<Longrightarrow> ts ! j = ts0 ! j"
    and pass_inv_passed: "\<And>j. j < k \<Longrightarrow> j < 16 \<Longrightarrow> is_Node (ts ! j) \<Longrightarrow>
      ret \<and> 2 \<le> nleaves (ts ! j)"
    and pass_inv_leaf: "\<And>j. j < 16 \<Longrightarrow> is_Leaf (ts ! j) \<Longrightarrow> ts ! j = ts0 ! j \<or>
      (\<exists>i<16. \<exists>us. ts0 ! i = Node us \<and> ts ! j \<in> set us)"
  using assms unfolding pass_inv.simps by blast+

text \<open>A turn that leaves the slots as they are.\<close>

lemma pass_inv_Suc:
  assumes inv: "pass_inv ts0 k (ts, fr, nx, ret)" and r: "ret \<Longrightarrow> ret'"
    and k: "is_Node (ts ! k) \<Longrightarrow> ret' \<and> 2 \<le> nleaves (ts ! k)"
  shows "pass_inv ts0 (Suc k) (ts, fr, nx, ret')"
proof -
  have passed: "ret' \<and> 2 \<le> nleaves (ts ! j)" if "j < Suc k" "j < 16" "is_Node (ts ! j)" for j
  proof (cases "j = k")
    case True
    with that k show ?thesis by simp
  next
    case False
    then have "ret \<and> 2 \<le> nleaves (ts ! j)"
      using pass_inv_passed [OF inv _ that(2,3)] that(1) by simp
    with r show ?thesis by blast
  qed
  have later: "ts ! j = ts0 ! j" if "j < 16" "Suc k \<le> j" "is_Node (ts0 ! j)" for j
    using pass_inv_later [OF inv that(1) _ that(3)] that(2) by simp
  show ?thesis
    unfolding pass_inv.simps
    using passed later pass_inv_ok [OF inv] pass_inv_leaves [OF inv] pass_inv_node [OF inv]
      pass_inv_leaf [OF inv] by blast
qed

definition bug_child :: "'l tr list \<Rightarrow> tr_err \<Rightarrow> bool" where
  "bug_child ts0 e \<longleftrightarrow> e = TBug Bug_meta \<and> (\<exists>j<ASSOC_ARRAY_FAN_OUT. is_Node (ts0 ! j) \<and>
     \<not> flat (ts0 ! j) \<and> nleaves (ts0 ! j) \<le> ASSOC_ARRAY_FAN_OUT)"

lemma pass_inv_fold:
  assumes inv: "pass_inv ts0 k (ts, fr, nx, ret)" and k: "k < 16" and us: "ts ! k = Node us"
    and ok': "slots_ok (ts', fr', nx')" and f: "filled us (ts[k := Hole]) ts'"
    and l: "leaves (Node ts') = leaves (Node ts)"
  shows "pass_inv ts0 (Suc k) (ts', fr', nx', ret)"
proof -
  have len: "length ts = 16" using pass_inv_ok [OF inv] by simp
  have k0: "ts0 ! k = Node us" using pass_inv_node [OF inv k] us by simp
  have cell: "ts' ! j = ts ! j \<and> j \<noteq> k \<or> j = k \<and> is_Hole (ts' ! j) \<or> is_Leaf (ts' ! j) \<and>
      ts' ! j \<in> set us \<and> (j = k \<or> is_Hole (ts ! j))" if "j < 16" for j
    using f that len unfolding filled_def
    by (cases "j = k") (auto simp: nth_list_update split: if_splits)
  have node: "is_Node (ts' ! j) \<Longrightarrow> j \<noteq> k \<and> ts' ! j = ts ! j" if "j < 16" for j
    using cell [OF that] by (cases "ts' ! j") auto
  have later: "ts' ! j = ts0 ! j" if "j < 16" "Suc k \<le> j" "is_Node (ts0 ! j)" for j
  proof -
    have "ts ! j = ts0 ! j" using pass_inv_later [OF inv that(1)] that by simp
    then show ?thesis using cell [OF that(1)] that by (cases "ts ! j") auto
  qed
  have leafs: "ts' ! j = ts0 ! j \<or> (\<exists>i<16. \<exists>us. ts0 ! i = Node us \<and> ts' ! j \<in> set us)"
    if j: "j < 16" "is_Leaf (ts' ! j)" for j
    using cell [OF j(1)]
  proof (elim disjE conjE)
    assume e: "ts' ! j = ts ! j"
    then have "is_Leaf (ts ! j)" using j by simp
    then have "ts ! j = ts0 ! j \<or> (\<exists>i<16. \<exists>us. ts0 ! i = Node us \<and> ts ! j \<in> set us)"
      using pass_inv_leaf [OF inv j(1)] by blast
    with e show ?thesis by simp
  next
    assume "is_Hole (ts' ! j)"
    then show ?thesis using j(2) by (cases "ts' ! j") auto
  qed (use k0 k in blast)+
  have passed: "ret \<and> 2 \<le> nleaves (ts' ! j)" if "j < Suc k" "j < 16" "is_Node (ts' ! j)" for j
  proof -
    have "j < k" "ts' ! j = ts ! j" "is_Node (ts ! j)" using node [OF that(2,3)] that by auto
    then show ?thesis using pass_inv_passed [OF inv _ that(2)] by simp
  qed
  have nodes: "ts' ! j = ts0 ! j" if "j < 16" "is_Node (ts' ! j)" for j
    using node [OF that] that pass_inv_node [OF inv that(1)] by simp
  have ll: "leaves (Node ts') = leaves (Node ts0)" using l pass_inv_leaves [OF inv] by simp
  show ?thesis
    unfolding pass_inv.simps using ok' ll nodes later passed leafs by blast
qed

lemma fold_at_inv:
  assumes k: "k < ASSOC_ARRAY_FAN_OUT" and inv: "pass_inv ts0 k (ts, fr, nx, ret)"
  shows "case fold_at k (ts, fr, nx, ret) of Inl e \<Rightarrow> bug_child ts0 e
    | Inr s' \<Rightarrow> pass_inv ts0 (Suc k) s'"
proof (cases "ts ! k")
  case (Node us)
  have ok: "slots_ok (ts, fr, nx)" by (rule pass_inv_ok [OF inv])
  have k0: "ts0 ! k = Node us" using pass_inv_node [OF inv k] Node by simp
  consider "fr + 1 < nleaves (Node us)"
    | "nleaves (Node us) \<le> fr + 1" "flat (Node us)"
    | "nleaves (Node us) \<le> fr + 1" "\<not> flat (Node us)" by linarith
  then show ?thesis
  proof cases
    case 1
    have "pass_inv ts0 (Suc k) (ts, fr, nx, True)"
      using 1 Node by (intro pass_inv_Suc [OF inv]) auto
    with 1 show ?thesis by (simp add: fold_at_retain [OF Node])
  next
    case 2
    obtain ts' fr' nx' where t: "fold_at k (ts, fr, nx, ret) = Inr (ts', fr', nx', ret)"
      "slots_ok (ts', fr', nx')" "filled us (ts[k := Hole]) ts'"
      "leaves (Node ts') = leaves (Node ts)"
      using fold_at_fold [OF ok k Node 2] by blast
    with pass_inv_fold [OF inv k Node t(2-4)] show ?thesis by simp
  next
    case 3
    have "fr + 1 \<le> 16" using slots_ok_clear(2) [OF ok k] Node by simp
    then have "bug_child ts0 (TBug Bug_meta)"
      using k k0 3 by (auto simp: bug_child_def)
    then show ?thesis using fold_at_bug [OF ok k Node 3] by simp
  qed
qed (auto simp: fold_at_skip intro!: pass_inv_Suc [OF inv])

lemma pass_inv_start:
  "length ts0 = ASSOC_ARRAY_FAN_OUT \<Longrightarrow> pass_inv ts0 0 (ts0, holes ts0, 0, False)"
  by (simp add: pass_inv.simps)

lemma pass_correct:
  assumes len: "length ts0 = ASSOC_ARRAY_FAN_OUT"
  shows "case pass ts0 of Inl e \<Rightarrow> bug_child ts0 e | Inr s \<Rightarrow> pass_inv ts0 ASSOC_ARRAY_FAN_OUT s"
  unfolding pass_def
proof (rule forE_upto [where P = "pass_inv ts0" and Q = "bug_child ts0"])
  show "pass_inv ts0 0 (ts0, holes ts0, 0, False)" by (rule pass_inv_start [OF len])
next
  fix k s
  assume k: "k < 16" and inv: "pass_inv ts0 k s"
  obtain ts fr nx ret where s: "s = (ts, fr, nx, ret)" by (cases s)
  show "case fold_at k s of Inl e \<Rightarrow> bug_child ts0 e | Inr s' \<Rightarrow> pass_inv ts0 (Suc k) s'"
    using fold_at_inv [OF k inv [unfolded s]] s by simp
qed simp

section \<open>The second pass folds everything\<close>

text \<open>
  When the leaves of the node fit into its slots and every child left has a leaf,
  each child fits: the other children take one slot each and have a leaf each.
\<close>

lemma occupied_le_leaves:
  assumes "\<And>t. t \<in> set ts \<Longrightarrow> is_Node t \<Longrightarrow> 1 \<le> nleaves t"
  shows "length ts \<le> nleaves (Node ts) + holes ts"
  using assms
proof (induction ts)
  case Nil
  then show ?case by simp
next
  case (Cons t ts)
  then have "length ts \<le> nleaves (Node ts) + holes ts" by simp
  moreover have "1 \<le> nleaves t + (if is_Hole t then 1 else 0)"
    using Cons.prems [of t] by (cases t) auto
  ultimately show ?case by (auto simp: holes_def split: if_splits)
qed

lemma child_fits:
  assumes "length ts = 16" and "k < 16" and "is_Node (ts ! k)"
    and "\<And>t. t \<in> set ts \<Longrightarrow> is_Node t \<Longrightarrow> 1 \<le> nleaves t"
    and "nleaves (Node ts) \<le> 16"
  shows "nleaves (ts ! k) \<le> holes ts + 1"
proof -
  let ?ts = "ts[k := Hole]"
  have "\<And>t. t \<in> set ?ts \<Longrightarrow> is_Node t \<Longrightarrow> 1 \<le> nleaves t"
    using assms(4) set_update_subset_insert [of ts k Hole] by auto
  then have "length ?ts \<le> nleaves (Node ?ts) + holes ?ts"
    by (rule occupied_le_leaves)
  moreover have "holes ?ts = holes ts + 1"
    using holes_update [of k ts Hole] assms(1-3) by (cases "ts ! k") auto
  moreover have "nleaves (Node ?ts) + nleaves (ts ! k) = nleaves (Node ts)"
    using sum_list_map_update [of k ts nleaves Hole] assms(1,2) by simp
  ultimately show ?thesis using assms(1,5) by simp
qed

text \<open>The invariant of a pass in which every child is folded.\<close>

fun fold_all_inv :: "nat \<Rightarrow> 'l tr list \<times> nat \<times> nat \<times> bool \<Rightarrow> bool" where
  "fold_all_inv k (ts, fr, nx, ret) \<longleftrightarrow> slots_ok (ts, fr, nx) \<and> \<not> ret \<and>
     nleaves (Node ts) \<le> ASSOC_ARRAY_FAN_OUT \<and>
     (\<forall>j<k. j < ASSOC_ARRAY_FAN_OUT \<longrightarrow> \<not> is_Node (ts ! j)) \<and>
     (\<forall>t\<in>set ts. is_Node t \<longrightarrow> 1 \<le> nleaves t)"

lemma fold_all_step:
  assumes k: "k < 16" and inv: "fold_all_inv k (ts, fr, nx, ret)"
    and f: "fold_at k (ts, fr, nx, ret) = Inr s'"
  shows "fold_all_inv (Suc k) s'"
proof -
  have ok: "slots_ok (ts, fr, nx)" using inv by simp
  then have len: "length ts = 16" by simp
  show ?thesis
  proof (cases "is_Node (ts ! k)")
    case False
    with f have "s' = (ts, fr, nx, ret)" by (simp add: fold_at_skip)
    with inv False show ?thesis by (auto simp: less_Suc_eq)
  next
    case True
    then obtain us where us: "ts ! k = Node us" by (cases "ts ! k") auto
    have le: "nleaves (Node us) \<le> fr + 1"
      using child_fits [OF len k True] inv us by auto
    have fl: "flat (Node us)" using fold_at_bug [OF ok k us le, of ret] f by (cases "flat (Node us)") auto
    obtain ts' fr' nx' where t: "fold_at k (ts, fr, nx, ret) = Inr (ts', fr', nx', ret)"
      "slots_ok (ts', fr', nx')" "filled us (ts[k := Hole]) ts'"
      "leaves (Node ts') = leaves (Node ts)"
      using fold_at_fold [OF ok k us le fl] by blast
    have cell: "ts' ! j = ts ! j \<and> j \<noteq> k \<or> \<not> is_Node (ts' ! j)" if "j < 16" for j
      using t(3) that len unfolding filled_def
      by (cases "j = k"; cases "ts' ! j") (auto simp: nth_list_update split: if_splits)
    have "nleaves (Node ts') = nleaves (Node ts)"
      using t(4) by (simp only: nleaves_eq_size)
    moreover have "\<not> is_Node (ts' ! j)" if "j < Suc k" "j < 16" for j
      using cell [OF that(2)] that inv by (auto simp: less_Suc_eq)
    moreover have "1 \<le> nleaves t" if t': "t \<in> set ts'" "is_Node t" for t
    proof -
      obtain j where j: "j < 16" "t = ts' ! j" using t'(1) t(2) by (auto simp: in_set_conv_nth)
      with cell [OF j(1)] t'(2) have "t = ts ! j" by simp
      then have "t \<in> set ts" using j(1) len by simp
      then show ?thesis using inv t'(2) by auto
    qed
    ultimately show ?thesis using f t inv by auto
  qed
qed

lemma pass_folds_all:
  assumes len: "length ts = ASSOC_ARRAY_FAN_OUT" and "nleaves (Node ts) \<le> ASSOC_ARRAY_FAN_OUT"
    and "\<And>t. t \<in> set ts \<Longrightarrow> is_Node t \<Longrightarrow> 1 \<le> nleaves t"
    and "pass ts = Inr (ts', fr, nx, ret)"
  shows "\<not> ret" and "\<And>j. j < ASSOC_ARRAY_FAN_OUT \<Longrightarrow> \<not> is_Node (ts' ! j)"
proof -
  have "case pass ts of Inl e \<Rightarrow> True | Inr s \<Rightarrow> fold_all_inv 16 s"
    unfolding pass_def
  proof (rule forE_upto [where P = fold_all_inv and Q = "\<lambda>_. True"])
    show "fold_all_inv 0 (ts, holes ts, 0, False)" using assms by simp
  next
    fix k and s :: "'a tr list \<times> nat \<times> nat \<times> bool"
    assume k: "k < 16" and inv: "fold_all_inv k s"
    obtain ts fr nx ret where s: "s = (ts, fr, nx, ret)" by (cases s)
    show "case fold_at k s of Inl e \<Rightarrow> True | Inr s' \<Rightarrow> fold_all_inv (Suc k) s'"
      using fold_all_step [OF k inv [unfolded s]] s by (cases "fold_at k s") simp_all
  qed simp
  with assms(4) have "fold_all_inv 16 (ts', fr, nx, ret)" by simp
  then show "\<not> ret" and "\<And>j. j < ASSOC_ARRAY_FAN_OUT \<Longrightarrow> \<not> is_Node (ts' ! j)" by auto
qed

section \<open>Compression\<close>

text \<open>
  What both versions of the code promise of their jump back to \<open>retry_compress\<close>:
  it happens only when a child was retained and the node's leaves fit into it.
\<close>

locale retry_policy =
  fixes retry :: "bool \<Rightarrow> u64 \<Rightarrow> bool"
  assumes retry_small: "retry r w \<Longrightarrow> r \<and> w \<le> of_nat ASSOC_ARRAY_FAN_OUT"

interpretation rp_never: retry_policy retry_never
  by unfold_locales (simp add: retry_never_def)

interpretation rp_fixed: retry_policy retry_fixed
  by unfold_locales (auto simp: retry_fixed_def)

text \<open>What a compression makes of a node's slots, whether it retries or not.\<close>

definition compressed :: "'l tr list \<Rightarrow> 'l tr list \<Rightarrow> bool" where
  "compressed us vs \<longleftrightarrow> length vs = ASSOC_ARRAY_FAN_OUT \<and>
     leaves (Node vs) = leaves (Node us) \<and>
     (\<forall>j<ASSOC_ARRAY_FAN_OUT. is_Node (vs ! j) \<longrightarrow> vs ! j = us ! j \<and> 2 \<le> nleaves (vs ! j)) \<and>
     (\<forall>j<ASSOC_ARRAY_FAN_OUT. is_Leaf (vs ! j) \<longrightarrow> vs ! j = us ! j \<or>
       (\<exists>i<ASSOC_ARRAY_FAN_OUT. \<exists>ws. us ! i = Node ws \<and> vs ! j \<in> set ws))"

lemma compressedD:
  assumes "compressed us vs"
  shows compressed_length: "length vs = 16"
    and compressed_leaves: "leaves (Node vs) = leaves (Node us)"
    and compressed_node: "\<And>j. j < 16 \<Longrightarrow> is_Node (vs ! j) \<Longrightarrow> us ! j = vs ! j"
    and compressed_size: "\<And>j. j < 16 \<Longrightarrow> is_Node (vs ! j) \<Longrightarrow> 2 \<le> nleaves (vs ! j)"
    and compressed_leaf: "\<And>j x. j < 16 \<Longrightarrow> vs ! j = Leaf x \<Longrightarrow> us ! j = Leaf x \<or>
      (\<exists>i<16. \<exists>ws. us ! i = Node ws \<and> Leaf x \<in> set ws)"
proof -
  show "us ! j = Leaf x \<or> (\<exists>i<16. \<exists>ws. us ! i = Node ws \<and> Leaf x \<in> set ws)"
    if "j < 16" "vs ! j = Leaf x" for j x
  proof -
    have "is_Leaf (vs ! j)" using that by simp
    then have "vs ! j = us ! j \<or> (\<exists>i<16. \<exists>ws. us ! i = Node ws \<and> vs ! j \<in> set ws)"
      using assms that(1) unfolding compressed_def by blast
    with that(2) show ?thesis by metis
  qed
qed (use assms in \<open>auto simp: compressed_def\<close>)

lemma pass_compressed:
  assumes "length us = ASSOC_ARRAY_FAN_OUT" and "pass us = Inr (vs, fr, nx, ret)"
  shows "compressed us vs" and "\<not> ret \<Longrightarrow> j < ASSOC_ARRAY_FAN_OUT \<Longrightarrow> \<not> is_Node (vs ! j)"
proof -
  from pass_correct [OF assms(1)] assms(2)
  have inv: "pass_inv us 16 (vs, fr, nx, ret)" by simp
  show "compressed us vs"
    unfolding compressed_def
    using pass_inv_ok [OF inv] pass_inv_leaves [OF inv] pass_inv_node [OF inv]
      pass_inv_passed [OF inv] pass_inv_leaf [OF inv] by simp
  show "\<not> ret \<Longrightarrow> j < ASSOC_ARRAY_FAN_OUT \<Longrightarrow> \<not> is_Node (vs ! j)"
    using pass_inv_passed [OF inv] by blast
qed

lemma compressed_trans:
  assumes c1: "compressed us vs" and c2: "compressed vs ws"
  shows "compressed us ws"
proof -
  have nodes: "ws ! j = us ! j \<and> 2 \<le> nleaves (ws ! j)" if "j < 16" "is_Node (ws ! j)" for j
    using compressed_node [OF c1 that(1)] compressed_node [OF c2 that]
      compressed_size [OF c2 that] that(2) by simp
  have leafs: "ws ! j = us ! j \<or> (\<exists>i<16. \<exists>xs. us ! i = Node xs \<and> ws ! j \<in> set xs)"
    if j: "j < 16" "is_Leaf (ws ! j)" for j
  proof -
    have "ws ! j = vs ! j \<or> (\<exists>i<16. \<exists>xs. vs ! i = Node xs \<and> ws ! j \<in> set xs)"
      using c2 j by (simp add: compressed_def)
    then show ?thesis
    proof
      assume e: "ws ! j = vs ! j"
      with j have "is_Leaf (vs ! j)" by simp
      with c1 j(1) e show ?thesis by (simp add: compressed_def)
    next
      assume "\<exists>i<16. \<exists>xs. vs ! i = Node xs \<and> ws ! j \<in> set xs"
      then obtain i xs where i: "i < 16" "vs ! i = Node xs" "ws ! j \<in> set xs" by blast
      then have "us ! i = Node xs" using c1 by (metis compressed_def tr.disc(9))
      with i show ?thesis by blast
    qed
  qed
  have "length ws = 16" "leaves (Node ws) = leaves (Node us)"
    using c1 c2 by (simp_all add: compressed_def)
  with nodes leafs show ?thesis unfolding compressed_def by blast
qed

lemma compress_compressed:
  assumes "length us = ASSOC_ARRAY_FAN_OUT" and "compress retry us = Inr vs"
  shows "compressed us vs"
proof -
  from assms(2) obtain ts fr nx ret where t: "pass us = Inr (ts, fr, nx, ret)"
    by (cases "pass us") (auto simp: compress_def)
  have c: "compressed us ts" by (rule pass_compressed(1) [OF assms(1) t])
  then have l: "length ts = 16" by (simp add: compressed_def)
  consider "vs = ts" | fr' nx' ret' where "pass ts = Inr (vs, fr', nx', ret')"
    using assms(2) t by (cases "pass ts") (auto simp: compress_def split: if_splits)
  then show ?thesis
    using c compressed_trans [OF c pass_compressed(1) [OF l]] by cases auto
qed

lemma compress_error:
  assumes "length us = ASSOC_ARRAY_FAN_OUT" and "compress retry us = Inl e"
  shows "bug_child us e"
proof (cases "pass us")
  case (Inl e')
  with assms pass_correct [OF assms(1)] show ?thesis by (simp add: compress_def)
next
  case (Inr s)
  obtain ts fr nx ret where s: "s = (ts, fr, nx, ret)" by (cases s)
  with Inr have c: "compressed us ts" using pass_compressed(1) [OF assms(1)] by simp
  then have l: "length ts = 16" by (simp add: compressed_def)
  have "pass ts = Inl e"
    using assms(2) Inr s by (cases "pass ts") (auto simp: compress_def split: if_splits)
  with pass_correct [OF l] have "bug_child ts e" by simp
  with c show ?thesis by (auto simp: bug_child_def compressed_def)
qed

text \<open>The patch: a node with fewer leaves than slots ends up flat.\<close>

lemma compress_fixed_flat:
  assumes len: "length us = ASSOC_ARRAY_FAN_OUT" and c: "compress retry_fixed us = Inr vs"
    and few: "nleaves (Node us) < ASSOC_ARRAY_FAN_OUT"
  shows "flat (Node vs)"
proof -
  from c obtain ts fr nx ret where t: "pass us = Inr (ts, fr, nx, ret)"
    by (cases "pass us") (auto simp: compress_def)
  have ct: "compressed us ts" by (rule pass_compressed(1) [OF len t])
  then have l: "length ts = 16" and nl: "nleaves (Node ts) < 16"
    using few by (simp_all only: compressed_def nleaves_eq_size)
  have w: "(of_nat (nleaves (Node ts)) :: u64) < of_nat 16"
    using nl by (subst of_nat_word_less_iff) (simp add: take_bit_nat_def)
  have big: "1 \<le> nleaves t" if "t \<in> set ts" "is_Node t" for t
    using that l compressed_size [OF ct] by (force simp: in_set_conv_nth)
  have "\<not> is_Node (vs ! j)" if j: "j < 16" for j
  proof (cases ret)
    case False
    then have "vs = ts" using c t by (simp add: compress_def retry_fixed_def)
    then show ?thesis using pass_compressed(2) [OF len t False j] by simp
  next
    case True
    then obtain fr' nx' ret' where p: "pass ts = Inr (vs, fr', nx', ret')"
      using c t w by (cases "pass ts") (auto simp: compress_def retry_fixed_def)
    show ?thesis using pass_folds_all(2) [OF l _ big p j] nl by simp
  qed
  moreover have "length vs = 16"
    using compress_compressed [OF len c] by (simp add: compressed_def)
  ultimately show ?thesis by (auto simp: flat_def list_all_length)
qed

section \<open>The collection\<close>

lemma compressed_fan_out:
  assumes c: "compressed us vs" and "list_all fan_out us" and "length us = 16"
  shows "fan_out (Node vs)"
proof -
  have "fan_out (vs ! j)" if "j < 16" for j
  proof (cases "is_Node (vs ! j)")
    case True
    with compressed_node [OF c that] assms(2,3) that show ?thesis
      by (metis list_all_length)
  qed (cases "vs ! j"; simp)
  with compressed_length [OF c] show ?thesis by (simp add: list_all_length)
qed

lemma compressed_leaf_at:
  assumes c: "compressed us vs" and len: "length us = 16" and l: "leaf_at (Node vs) x \<pi>'"
  shows "\<exists>\<pi>. leaf_at (Node us) x \<pi> \<and> prefix \<pi>' \<pi>"
proof (cases \<pi>')
  case Nil
  with l obtain i where i: "i < 16" "vs ! i = Leaf x"
    using compressed_length [OF c] by auto
  from compressed_leaf [OF c i] consider "us ! i = Leaf x"
    | k ws where "k < 16" "us ! k = Node ws" "Leaf x \<in> set ws" by blast
  then show ?thesis
  proof cases
    case 1
    then have "leaf_at (Node us) x []" using i(1) len by auto
    with Nil show ?thesis using Nil_prefix by blast
  next
    case 2
    then have "leaf_at (us ! k) x []" by (auto simp: in_set_conv_nth)
    then have "leaf_at (Node us) x [k]" using 2(1) len by simp
    with Nil show ?thesis using Nil_prefix by blast
  qed
next
  case (Cons i \<pi>)
  with l have i: "i < 16" "leaf_at (vs ! i) x \<pi>"
    using compressed_length [OF c] by auto
  then have "is_Node (vs ! i)" by (cases "vs ! i") auto
  then have "leaf_at (Node us) x \<pi>'"
    using compressed_node [OF c i(1)] i len Cons by simp
  then show ?thesis by auto
qed

text \<open>
  The shape of a successful collection: nodes stay nodes, the leaves are those the
  iterator keeps, one allocation is made per node.
\<close>

lemma gct_shape:
  "gct retry keep k t = Inr (t', k') \<Longrightarrow> fan_out t \<Longrightarrow>
    fan_out t' \<and> leaves t' = filter_mset keep (leaves t) \<and> k = k' + nnodes t \<and>
    (is_Node t' \<longleftrightarrow> is_Node t)"
  "gcts retry keep k ts = Inr (ts', k') \<Longrightarrow> list_all fan_out ts \<Longrightarrow>
    length ts' = length ts \<and> list_all fan_out ts' \<and>
    leaves (Node ts') = filter_mset keep (leaves (Node ts)) \<and>
    k = k' + sum_list (map nnodes ts)"
proof (induction retry keep k t and retry keep k ts arbitrary: t' k' and ts' k'
    rule: gct_gcts.induct)
  case (3 retry keep k ts)
  from 3(2) obtain k1 us k2 vs where k: "k = Suc k1" and us: "gcts retry keep k1 ts = Inr (us, k2)"
    and vs: "compress retry us = Inr vs" and r: "t' = Node vs" "k' = k2"
    by (auto simp: bindR_eq_Inr split: nat.splits)
  have ts: "list_all fan_out ts" "length ts = 16" using 3(3) by auto
  have h: "length us = 16" "list_all fan_out us"
    "leaves (Node us) = filter_mset keep (leaves (Node ts))" "k1 = k2 + sum_list (map nnodes ts)"
    using 3(1) [OF k us ts(1)] ts(2) by auto
  have c: "compressed us vs" by (rule compress_compressed [OF h(1) vs])
  show ?case
    using compressed_fan_out [OF c h(2,1)] compressed_leaves [OF c] h k r by simp
next
  case (5 retry keep k t ts)
  then show ?case by (fastforce simp: bindR_eq_Inr)
qed (auto split: if_splits)

lemma gct_leaf_at:
  "gct retry keep k t = Inr (t', k') \<Longrightarrow> fan_out t \<Longrightarrow> leaf_at t' x \<pi>' \<Longrightarrow>
    \<exists>\<pi>. leaf_at t x \<pi> \<and> prefix \<pi>' \<pi>"
  "gcts retry keep k ts = Inr (ts', k') \<Longrightarrow> list_all fan_out ts \<Longrightarrow> i < length ts \<Longrightarrow>
    (ts' ! i = Leaf x \<longrightarrow> ts ! i = Leaf x) \<and>
    (\<forall>\<pi>'. leaf_at (ts' ! i) x \<pi>' \<longrightarrow> (\<exists>\<pi>. leaf_at (ts ! i) x \<pi> \<and> prefix \<pi>' \<pi>))"
proof (induction retry keep k t and retry keep k ts arbitrary: t' k' x \<pi>' and ts' k' x i
    rule: gct_gcts.induct)
  case (3 retry keep k ts)
  from 3(2) obtain k1 us k2 vs where k: "k = Suc k1" and us: "gcts retry keep k1 ts = Inr (us, k2)"
    and vs: "compress retry us = Inr vs" and r: "t' = Node vs"
    by (auto simp: bindR_eq_Inr split: nat.splits)
  have ts: "list_all fan_out ts" "length ts = 16" using 3(3) by auto
  have len: "length us = 16" using gct_shape(2) [OF us ts(1)] ts(2) by simp
  obtain \<pi> where \<pi>: "leaf_at (Node us) x \<pi>" "prefix \<pi>' \<pi>"
    using compressed_leaf_at [OF compress_compressed [OF len vs] len] 3(4) r by blast
  note IH = 3(1) [OF k us ts(1)]
  show ?case
  proof (cases \<pi>)
    case Nil
    with \<pi> obtain i where "i < 16" "us ! i = Leaf x" using len by auto
    then have "leaf_at (Node ts) x []" using IH [of i x] ts(2) by auto
    moreover have "prefix \<pi>' []" using \<pi>(2) Nil by simp
    ultimately show ?thesis by blast
  next
    case (Cons i \<rho>)
    with \<pi> len have i: "i < 16" "leaf_at (us ! i) x \<rho>" by auto
    then obtain \<rho>' where "leaf_at (ts ! i) x \<rho>'" "prefix \<rho> \<rho>'"
      using IH [of i x] ts(2) by auto
    then have "leaf_at (Node ts) x (i # \<rho>')" "prefix \<pi>' (i # \<rho>')"
      using i(1) ts(2) \<pi>(2) Cons by (auto intro: prefix_order.trans)
    then show ?thesis by blast
  qed
next
  case (5 retry keep k t ts)
  from 5(3) obtain u k1 us where u: "gct retry keep k t = Inr (u, k1)"
    and us: "gcts retry keep k1 ts = Inr (us, k')" and r: "ts' = u # us"
    by (auto simp: bindR_eq_Inr)
  have "(u = Leaf x \<longrightarrow> t = Leaf x)"
    using u by (cases t) (auto split: if_splits nat.splits simp: bindR_eq_Inr)
  moreover have "\<exists>\<pi>. leaf_at t x \<pi> \<and> prefix \<pi>' \<pi>" if "leaf_at u x \<pi>'" for \<pi>'
    using 5(1) [OF u] 5(4) that by simp
  moreover have "(us ! j = Leaf x \<longrightarrow> ts ! j = Leaf x) \<and>
    (\<forall>\<pi>'. leaf_at (us ! j) x \<pi>' \<longrightarrow> (\<exists>\<pi>. leaf_at (ts ! j) x \<pi> \<and> prefix \<pi>' \<pi>))"
    if "j < length ts" for j
    using 5(2) [OF us _ that] 5(4) by simp
  ultimately show ?case using 5(5) r by (cases i) auto
qed (auto split: if_splits)

text \<open>The only errors: the \<open>BUG_ON\<close> on a meta pointer, and no memory.\<close>

lemma gct_errors:
  "gct retry keep k t = Inl e \<Longrightarrow> fan_out t \<Longrightarrow> e = TBug Bug_meta \<or> e = TNoMem \<and> k < nnodes t"
  "gcts retry keep k ts = Inl e \<Longrightarrow> list_all fan_out ts \<Longrightarrow>
    e = TBug Bug_meta \<or> e = TNoMem \<and> k < sum_list (map nnodes ts)"
proof (induction retry keep k t and retry keep k ts arbitrary: e and e rule: gct_gcts.induct)
  case (3 retry keep k ts)
  have ts: "list_all fan_out ts" "length ts = 16" using 3(3) by auto
  show ?case
  proof (cases k)
    case 0
    with 3(2) show ?thesis by simp
  next
    case (Suc k1)
    from 3(2) consider "gcts retry keep k1 ts = Inl e"
      | us k2 where "gcts retry keep k1 ts = Inr (us, k2)" "compress retry us = Inl e"
      using Suc by (auto simp: bindR_eq_Inl)
    then show ?thesis
    proof cases
      case 1
      then show ?thesis using 3(1) [OF Suc 1 ts(1)] Suc by auto
    next
      case 2
      have "length us = 16" using gct_shape(2) [OF 2(1) ts(1)] ts(2) by simp
      from compress_error [OF this 2(2)] show ?thesis by (simp add: bug_child_def)
    qed
  qed
next
  case (5 retry keep k t ts)
  from 5(3) consider "gct retry keep k t = Inl e"
    | u k1 where "gct retry keep k t = Inr (u, k1)" "gcts retry keep k1 ts = Inl e"
    by (auto simp: bindR_eq_Inl)
  then show ?case
  proof cases
    case 1
    then show ?thesis using 5(1) [OF 1] 5(4) by auto
  next
    case 2
    then have "k = k1 + nnodes t" using gct_shape(1) [OF 2(1)] 5(4) by simp
    then show ?thesis using 5(2) [OF 2(2)] 5(4) by auto
  qed
qed auto

section \<open>What the patch guarantees\<close>

text \<open>Every node with fewer leaves than slots is flat.\<close>

fun compact :: "'l tr \<Rightarrow> bool" where
  "compact (Node ts) \<longleftrightarrow> (nleaves (Node ts) < ASSOC_ARRAY_FAN_OUT \<longrightarrow> flat (Node ts)) \<and>
     list_all compact ts"
| "compact t \<longleftrightarrow> True"

lemma gct_fixed_compact:
  "gct retry keep k t = Inr (t', k') \<Longrightarrow> retry = retry_fixed \<Longrightarrow> fan_out t \<Longrightarrow> compact t'"
  "gcts retry keep k ts = Inr (ts', k') \<Longrightarrow> retry = retry_fixed \<Longrightarrow> list_all fan_out ts \<Longrightarrow>
    list_all compact ts'"
proof (induction retry keep k t and retry keep k ts arbitrary: t' k' and ts' k'
    rule: gct_gcts.induct)
  case (3 retry keep k ts)
  from 3(2) obtain k1 us k2 vs where k: "k = Suc k1" and us: "gcts retry keep k1 ts = Inr (us, k2)"
    and vs: "compress retry us = Inr vs" and r: "t' = Node vs"
    by (auto simp: bindR_eq_Inr split: nat.splits)
  have ts: "list_all fan_out ts" "length ts = 16" using 3(4) by auto
  have len: "length us = 16" using gct_shape(2) [OF us ts(1)] ts(2) by simp
  have c: "compressed us vs" by (rule compress_compressed [OF len vs])
  have "nleaves (Node vs) = nleaves (Node us)"
    using compressed_leaves [OF c] by (simp only: nleaves_eq_size)
  then have "nleaves (Node vs) < 16 \<longrightarrow> flat (Node vs)"
    using compress_fixed_flat [OF len] vs 3(3) by simp
  moreover have "compact (vs ! j)" if "j < 16" for j
  proof (cases "is_Node (vs ! j)")
    case True
    then show ?thesis
      using compressed_node [OF c that] 3(1) [OF k us 3(3) ts(1)] that len
      by (metis list_all_length)
  qed (cases "vs ! j"; simp)
  ultimately show ?case using r compressed_length [OF c] by (simp add: list_all_length)
next
  case (5 retry keep k t ts)
  then show ?case by (fastforce simp: bindR_eq_Inr)
qed (auto split: if_splits)

text \<open>
  The number of leaves a subtree keeps, and the trees no node of which, below the
  root, keeps exactly as many leaves as a node has slots.
\<close>

definition kept :: "('l \<Rightarrow> bool) \<Rightarrow> 'l tr \<Rightarrow> nat" where
  "kept keep t = size (filter_mset keep (leaves t))"

fun no_full_child :: "('l \<Rightarrow> bool) \<Rightarrow> 'l tr \<Rightarrow> bool" where
  "no_full_child keep (Node ts) \<longleftrightarrow>
     list_all (\<lambda>t. (is_Node t \<longrightarrow> kept keep t \<noteq> ASSOC_ARRAY_FAN_OUT) \<and> no_full_child keep t) ts"
| "no_full_child keep t \<longleftrightarrow> True"

lemma gcts_nth:
  "gcts retry keep k ts = Inr (us, k') \<Longrightarrow> i < length ts \<Longrightarrow>
    \<exists>k1 k2. gct retry keep k1 (ts ! i) = Inr (us ! i, k2)"
proof (induction ts arbitrary: k us i)
  case (Cons t ts)
  then obtain u k1 us' where "gct retry keep k t = Inr (u, k1)"
    "gcts retry keep k1 ts = Inr (us', k')" "us = u # us'"
    by (auto simp: bindR_eq_Inr)
  then show ?case using Cons.IH [of k1 us'] Cons.prems(2) by (cases i) auto
qed simp

lemma gct_fixed_no_bug:
  "gct retry keep k t = Inl e \<Longrightarrow> retry = retry_fixed \<Longrightarrow> fan_out t \<Longrightarrow> no_full_child keep t \<Longrightarrow>
    e = TNoMem"
  "gcts retry keep k ts = Inl e \<Longrightarrow> retry = retry_fixed \<Longrightarrow> list_all fan_out ts \<Longrightarrow>
    list_all (no_full_child keep) ts \<Longrightarrow> e = TNoMem"
proof (induction retry keep k t and retry keep k ts arbitrary: e and e rule: gct_gcts.induct)
  case (3 retry keep k ts)
  have ts: "list_all fan_out ts" "length ts = 16" "list_all (no_full_child keep) ts"
    using 3(4,5) by (auto simp: list_all_iff)
  from 3(2) consider "k = 0" "e = TNoMem" | k1 where "k = Suc k1" "gcts retry keep k1 ts = Inl e"
    | k1 us k2 where "k = Suc k1" "gcts retry keep k1 ts = Inr (us, k2)" "compress retry us = Inl e"
    by (auto simp: bindR_eq_Inl split: nat.splits)
  then show ?case
  proof cases
    case 2
    then show ?thesis using 3(1) 3(3) ts by blast
  next
    case (3 k1 us k2)
    have len: "length us = 16" using gct_shape(2) [OF 3(2) ts(1)] ts(2) by simp
    have "bug_child us e" by (rule compress_error [OF len 3(3)])
    then obtain j where j: "j < 16" "is_Node (us ! j)" "\<not> flat (us ! j)" "nleaves (us ! j) \<le> 16"
      by (auto simp: bug_child_def)
    obtain k3 k4 where g: "gct retry keep k3 (ts ! j) = Inr (us ! j, k4)"
      using gcts_nth [OF 3(2), of j] j(1) ts(2) that by auto
    have tj: "fan_out (ts ! j)" using ts(1,2) j(1) by (simp add: list_all_length)
    have "nleaves (us ! j) = kept keep (ts ! j)" "is_Node (ts ! j)"
      using gct_shape(1) [OF g tj] j(2) by (simp_all add: nleaves_eq_size kept_def)
    then have "nleaves (us ! j) \<noteq> 16"
      using \<open>no_full_child keep (Node ts)\<close> j(1) ts(2) by (simp add: list_all_length)
    moreover have "compact (us ! j)"
      using gct_fixed_compact(1) [OF g] \<open>retry = retry_fixed\<close> tj by blast
    ultimately have "flat (us ! j)" using j(2,4) by (cases "us ! j") auto
    with j(3) show ?thesis by simp
  qed simp
next
  case (5 retry keep k t ts)
  from 5(3) consider "gct retry keep k t = Inl e"
    | u k1 where "gct retry keep k t = Inr (u, k1)" "gcts retry keep k1 ts = Inl e"
    by (auto simp: bindR_eq_Inl)
  then show ?case
    by cases (use 5 in auto)
qed auto

end
