(* ===== verification/AssocRep.thy ===== *)
theory AssocRep
  imports AssocTree
begin

text \<open>
  How a tree lies in the heap: trees whose nodes carry their addresses, their
  representation as a predicate on the heap, and the frame lemmas. The flag
  \<open>chk\<close> asks for correct leaf counts: the collected tree has them, and the
  collector does not read those of the old one.
\<close>

section \<open>Tags\<close>

definition aligned :: "addr \<Rightarrow> bool" where
  "aligned a \<longleftrightarrow> a \<noteq> 0 \<and> a AND 3 = 0"

lemma node_to_ptr_eq: "assoc_array_node_to_ptr a = a OR 1"
  by (simp add: assoc_array_node_to_ptr_def assoc_array_x_to_ptr_def)

lemma is_leaf_0 [simp]: "assoc_array_ptr_is_leaf 0" "\<not> assoc_array_ptr_is_meta 0"
    "\<not> assoc_array_ptr_is_shortcut 0"
  by (simp_all add: assoc_array_ptr_is_leaf_def assoc_array_ptr_is_meta_def
      assoc_array_ptr_is_shortcut_def)

lemma and3_2:
  fixes a :: u64
  assumes "a AND 3 = 0"
  shows "a AND 2 = 0"
proof -
  have "a AND 2 = (a AND 3) AND 2" by (simp add: and.assoc)
  then show ?thesis using assms by simp
qed

lemma node_to_ptr_tags [simp]:
  assumes "aligned a"
  shows "assoc_array_ptr_is_meta (assoc_array_node_to_ptr a)"
    and "\<not> assoc_array_ptr_is_leaf (assoc_array_node_to_ptr a)"
    and "\<not> assoc_array_ptr_is_shortcut (assoc_array_node_to_ptr a)"
    and "assoc_array_ptr_is_node (assoc_array_node_to_ptr a)"
    and "assoc_array_ptr_to_node (assoc_array_node_to_ptr a) = a"
    and "assoc_array_node_to_ptr a \<noteq> 0"
proof -
  have a: "a AND 3 = 0" using assms by (simp add: aligned_def)
  have meta: "(a OR 1) AND 1 \<noteq> 0"
    by (simp add: bit.conj_disj_distrib2)
  show m: "assoc_array_ptr_is_meta (assoc_array_node_to_ptr a)"
    using meta by (simp add: assoc_array_ptr_is_meta_def node_to_ptr_eq)
  then show "\<not> assoc_array_ptr_is_leaf (assoc_array_node_to_ptr a)"
    by (simp add: assoc_array_ptr_is_leaf_def)
  show s: "\<not> assoc_array_ptr_is_shortcut (assoc_array_node_to_ptr a)"
    using and3_2 [OF a]
    by (simp add: assoc_array_ptr_is_shortcut_def node_to_ptr_eq bit.conj_disj_distrib2)
  then show "assoc_array_ptr_is_node (assoc_array_node_to_ptr a)"
    by (simp add: assoc_array_ptr_is_node_def)
  have "a = (a AND 3) OR (a AND NOT 3)"
    by (simp flip: bit.conj_disj_distrib)
  then have "a AND NOT 3 = a" using a by simp
  then show "assoc_array_ptr_to_node (assoc_array_node_to_ptr a) = a"
    by (simp add: assoc_array_ptr_to_node_def assoc_array_ptr_to_meta_def node_to_ptr_eq
        bit.conj_disj_distrib2)
  show "assoc_array_node_to_ptr a \<noteq> 0"
    using m is_leaf_0(2) by metis
qed

section \<open>Trees with addresses\<close>

datatype ct = is_CHole: CHole | is_CLeaf: CLeaf ptr | is_CNode: CNode addr "ct list"

fun erase :: "ct \<Rightarrow> ptr tr" where
  "erase CHole = Hole"
| "erase (CLeaf p) = Leaf p"
| "erase (CNode a ts) = Node (map erase ts)"

fun ptr_of :: "ct \<Rightarrow> ptr" where
  "ptr_of CHole = 0"
| "ptr_of (CLeaf p) = p"
| "ptr_of (CNode a ts) = assoc_array_node_to_ptr a"

fun addrs :: "ct \<Rightarrow> addr list" where
  "addrs (CNode a ts) = a # concat (map addrs ts)"
| "addrs t = []"

fun rep :: "bool \<Rightarrow> (addr \<rightharpoonup> assoc_array_node) \<Rightarrow> ptr \<Rightarrow> nat \<Rightarrow> ct \<Rightarrow> bool"
and reps :: "bool \<Rightarrow> (addr \<rightharpoonup> assoc_array_node) \<Rightarrow> ptr \<Rightarrow> nat \<Rightarrow> ct list \<Rightarrow> bool" where
  "rep chk h bp i CHole = True"
| "rep chk h bp i (CLeaf p) = (p \<noteq> 0 \<and> assoc_array_ptr_is_leaf p)"
| "rep chk h bp i (CNode a ts) = (aligned a \<and> length ts = ASSOC_ARRAY_FAN_OUT \<and>
     (\<exists>n. h a = Some n \<and> back_pointer n = bp \<and> parent_slot n = of_nat i \<and>
        slots n = map ptr_of ts \<and>
        (chk \<longrightarrow> nr_leaves_on_branch n = of_nat (nleaves (erase (CNode a ts))))) \<and>
     reps chk h (assoc_array_node_to_ptr a) 0 ts)"
| "reps chk h bp i [] = True"
| "reps chk h bp i (t # ts) = (rep chk h bp i t \<and> reps chk h bp (Suc i) ts)"

lemma reps_nth: "reps chk h bp i ts \<longleftrightarrow> (\<forall>j<length ts. rep chk h bp (i + j) (ts ! j))"
proof (induction ts arbitrary: i)
  case (Cons t ts)
  show ?case
    by (simp add: Cons.IH All_less_Suc2)
qed simp

text \<open>Only the heap at the tree's own addresses matters.\<close>

lemma rep_cong:
  "(\<And>a. a \<in> set (addrs t) \<Longrightarrow> h' a = h a) \<Longrightarrow> rep chk h' bp i t = rep chk h bp i t"
  "(\<And>a. a \<in> set (concat (map addrs ts)) \<Longrightarrow> h' a = h a) \<Longrightarrow>
    reps chk h' bp i ts = reps chk h bp i ts"
proof (induction chk h bp i t and chk h bp i ts rule: rep_reps.induct)
  case (3 chk h bp i a ts)
  have "h' a = h a" using 3(2) by simp
  moreover have "reps chk h' (assoc_array_node_to_ptr a) 0 ts =
      reps chk h (assoc_array_node_to_ptr a) 0 ts"
    using 3 by simp
  ultimately show ?case by simp
qed auto

lemma reps_upd_other [simp]:
  "b \<notin> set (concat (map addrs ts)) \<Longrightarrow>
    reps chk (h(b := v)) bp i ts = reps chk h bp i ts"
  by (rule rep_cong(2)) auto

lemma rep_upd_other [simp]:
  "b \<notin> set (addrs t) \<Longrightarrow> rep chk (h(b := v)) bp i t = rep chk h bp i t"
  by (rule rep_cong(1)) auto

lemma rep_ptr_of: "rep chk h bp i t \<Longrightarrow> ptr_of t = 0 \<longleftrightarrow> is_Hole (erase t)"
  by (cases t) auto

lemma rep_leaf: "rep chk h bp i t \<Longrightarrow> ptr_of t = 0 \<or> assoc_array_ptr_is_leaf (ptr_of t) \<longleftrightarrow>
    \<not> is_Node (erase t)"
  by (cases t) auto

lemma rep_meta: "rep chk h bp i t \<Longrightarrow> assoc_array_ptr_is_meta (ptr_of t) \<longleftrightarrow> is_Node (erase t)"
  by (cases t) (auto simp: assoc_array_ptr_is_leaf_def)

lemma reps_update:
  assumes "reps chk h bp i ts" and "j < length ts" and "rep chk h bp (i + j) t"
  shows "reps chk h bp i (ts[j := t])"
  using assms by (auto simp: reps_nth nth_list_update)

lemma concat_addrs_update_leaf:
  assumes "j < length ts" and "addrs (ts ! j) = []" and "addrs t = []"
  shows "map addrs (ts[j := t]) = map addrs ts"
  using assms by (metis list_update_id map_update nth_map)

lemma set_concat_update_Nil: "set (concat (xss[k := []])) \<subseteq> set (concat xss)"
proof (induction xss arbitrary: k)
  case (Cons xs xss)
  then show ?case by (cases k) auto
qed simp

lemma distinct_concat_update_Nil: "distinct (concat xss) \<Longrightarrow> distinct (concat (xss[k := []]))"
proof (induction xss arbitrary: k)
  case (Cons xs xss)
  have sub: "set (concat (xss[j := []])) \<subseteq> set (concat xss)" for j
    by (rule set_concat_update_Nil)
  show ?case
  proof (cases k)
    case (Suc j)
    then show ?thesis using Cons sub [of j] by (simp del: set_concat) blast
  qed (use Cons in simp)
qed simp

lemma concat_update_disjoint:
  assumes "distinct (concat xss)" and "k < length xss"
  shows "set (xss ! k) \<inter> set (concat (xss[k := []])) = {}"
  using assms
proof (induction xss arbitrary: k)
  case (Cons xs xss)
  show ?case
  proof (cases k)
    case 0
    then show ?thesis using Cons.prems by auto
  next
    case (Suc j)
    then have "set (xss ! j) \<inter> set (concat (xss[j := []])) = {}"
      using Cons by simp
    moreover have "set xs \<inter> set (xss ! j) = {}"
      using Cons.prems Suc by (force simp: disjoint_iff)
    ultimately show ?thesis using Suc by auto
  qed
qed simp

section \<open>Reading the heap\<close>

lemma get_node_Some [mem_simps]: "nodes m a = Some n \<Longrightarrow> get_node m a = Inr n"
  by (simp add: get_node_def)

lemma read_slot_Some [mem_simps]:
  "nodes m a = Some n \<Longrightarrow> i < length (slots n) \<Longrightarrow> read_slot m a (int i) = Inr (slots n ! i)"
  by (simp add: read_slot_def get_node_def)

lemma write_slot_Some [mem_simps]:
  "nodes m a = Some n \<Longrightarrow> i < length (slots n) \<Longrightarrow>
    write_slot a (int i) p m = Inr (put_node a (n\<lparr>slots := (slots n)[i := p]\<rparr>) m)"
  by (simp add: write_slot_def get_node_def)

lemma kfree_node_Some [mem_simps]:
  "nodes m a = Some n \<Longrightarrow> kfree_node a m = Inr (m\<lparr>nodes := (nodes m)(a := None)\<rparr>)"
  by (simp add: kfree_node_def get_node_def)

lemma put_node_simps [simp]:
  "nodes (put_node a n m) = (nodes m)(a \<mapsto> n)"
  "shorts (put_node a n m) = shorts m"
  "edits (put_node a n m) = edits m"
  "pool (put_node a n m) = pool m"
  by (simp_all add: put_node_def)

end
