(* ===== verification/AssocRefine.thy ===== *)
theory AssocRefine
  imports AssocRep
begin

text \<open>
  The compression of a node in the heap against the one on the lists of
  \<open>AssocTree\<close>: searching a free slot, folding one child, one pass over the slots,
  and the retries, for both versions of the code. \<open>AssocRun\<close> has the whole run.
\<close>

section \<open>Searching a free slot\<close>

lemma find_free_slot_sim:
  assumes "reps chk h bp 0 cts"
  shows "find_free_slot (map ptr_of cts) i =
    (case hole_from (map erase cts) i of Inl e \<Rightarrow> Inl Fault | Inr j \<Rightarrow> Inr j)"
proof (induction "map erase cts" i rule: hole_from.induct)
  case (1 i)
  show ?case
  proof (cases "i < length cts")
    case True
    then have "rep chk h bp i (cts ! i)" using assms by (simp add: reps_nth)
    from rep_ptr_of [OF this] show ?thesis
      using 1 True
      by (cases "is_Hole (erase (cts ! i))")
        (simp_all add: find_free_slot.simps [of _ i] hole_from.simps [of _ i])
  next
    case False
    then show ?thesis by (simp add: find_free_slot.simps hole_from.simps)
  qed
qed

lemma hole_from_sound:
  "hole_from ts i = Inr j \<Longrightarrow> j < length ts \<and> is_Hole (ts ! j)"
  by (induction ts i rule: hole_from.induct)
    (metis hole_from.simps Inl_Inr_False Inr_inject sum.distinct(1))

lemma hole_from_error: "hole_from ts i = Inl e \<Longrightarrow> e = TFault"
  by (induction ts i rule: hole_from.induct)
    (metis hole_from.simps Inl_inject sum.distinct(1))

text \<open>How the abstract errors show in the program.\<close>

fun stop_of :: "tr_err \<Rightarrow> gc_stop" where
  "stop_of (TBug b) = Bug b"
| "stop_of TFault = Fault"
| "stop_of TNoMem = Fault"

section \<open>Folding one child\<close>

text \<open>
  The relation kept while the slots of the child at \<open>child\<close> move into the node at
  \<open>b\<close>: the slots of \<open>b\<close> represent \<open>ts\<close>, and nothing else in the heap has changed.
\<close>

fun fold_rel :: "addr \<Rightarrow> mem \<Rightarrow> assoc_array_node \<Rightarrow> addr list list \<Rightarrow> bool
    \<Rightarrow> fold_state \<Rightarrow> ptr tr list \<times> nat \<times> nat \<Rightarrow> bool" where
  "fold_rel b m n0 as r f (ts, fr, nx) \<longleftrightarrow>
     f_nr_free f = int fr \<and> f_next_slot f = nx \<and> f_retained f = r \<and> slots_ok (ts, fr, nx) \<and>
     (\<exists>cts. map erase cts = ts \<and> map addrs cts = as \<and>
        f_mem f = put_node b (n0\<lparr>slots := map ptr_of cts\<rparr>) m \<and>
        reps True (nodes m) (assoc_array_node_to_ptr b) 0 cts)"

lemma put_node_twice [simp]: "put_node b n' (put_node b n m) = put_node b n' m"
  by (simp add: put_node_def)

lemma move_leaf_sim:
  assumes rel: "fold_rel b m n0 as r f (ts, fr, nx)"
    and c: "nodes m child = Some c" "slots c = map ptr_of cus" "child \<noteq> b"
    and cus: "length cus = 16" "reps True (nodes m) bp 0 cus" and i: "i < 16"
  shows "case place (erase (cus ! i)) (ts, fr, nx) of
      Inl e \<Rightarrow> move_leaf b child i f = Inl (stop_of e)
    | Inr t \<Rightarrow> \<exists>f'. move_leaf b child i f = Inr f' \<and> fold_rel b m n0 as r f' t"
proof -
  obtain cts where ct: "map erase cts = ts" "map addrs cts = as"
    "f_mem f = put_node b (n0\<lparr>slots := map ptr_of cts\<rparr>) m"
    "reps True (nodes m) (assoc_array_node_to_ptr b) 0 cts"
    and f: "f_nr_free f = int fr" "f_next_slot f = nx" and ok: "slots_ok (ts, fr, nx)"
    using rel by auto
  have len: "length cts = 16" "length ts = 16" using ok ct(1) by auto
  have ci: "rep True (nodes m) bp i (cus ! i)" using cus i by (simp add: reps_nth)
  have rd: "read_slot (f_mem f) child (int i) = Inr (ptr_of (cus ! i))"
    using c cus i ct(3) by (simp add: mem_simps)
  show ?thesis
  proof (cases "cus ! i")
    case CHole
    then show ?thesis using rd rel by (simp add: move_leaf_def)
  next
    case (CNode a us)
    then show ?thesis using rd ci by (simp add: move_leaf_def)
  next
    case (CLeaf p)
    with ci have p: "p \<noteq> 0" "\<not> assoc_array_ptr_is_meta p" "assoc_array_ptr_is_leaf p"
      by (auto simp: assoc_array_ptr_is_leaf_def)
    have ff: "find_free_slot (map ptr_of cts) nx =
        (case hole_from ts nx of Inl e \<Rightarrow> Inl Fault | Inr j \<Rightarrow> Inr j)"
      using find_free_slot_sim [OF ct(4)] ct(1) by simp
    show ?thesis
    proof (cases "hole_from ts nx")
      case (Inl e)
      then show ?thesis
        using hole_from_error [OF Inl] rd CLeaf p ff f ct(3)
        by (simp add: move_leaf_def place_def mem_simps)
    next
      case (Inr j)
      then have j: "j < 16" "is_Hole (ts ! j)" using hole_from_sound len by metis+
      have "0 < fr"
        using ok j holes_update [of j ts "Leaf p"] by (auto simp: len)
      then have ok': "slots_ok (ts[j := Leaf p], fr - 1, Suc j)"
        using place_leaf [OF ok, of p] Inr by (auto simp: place_def)
      have "cts ! j = CHole" using j ct(1) len by (cases "cts ! j") auto
      then have ad: "map addrs (cts[j := CLeaf p]) = as"
        using concat_addrs_update_leaf [of j cts "CLeaf p"] j(1) len ct(2) by simp
      have rp: "reps True (nodes m) (assoc_array_node_to_ptr b) 0 (cts[j := CLeaf p])"
        using reps_update [OF ct(4), of j "CLeaf p"] j(1) len p by simp
      have er: "map erase (cts[j := CLeaf p]) = ts[j := Leaf p]"
        using ct(1) by (simp add: map_update)
      have mv: "move_leaf b child i f = Inr (f\<lparr>f_mem := put_node b
            (n0\<lparr>slots := map ptr_of (cts[j := CLeaf p])\<rparr>) m,
          f_next_slot := Suc j, f_nr_free := int fr - 1\<rparr>)"
        using rd CLeaf p ff Inr f j len
        by (simp add: move_leaf_def ct(3) mem_simps map_update)
      show ?thesis
        using mv Inr ok' ad rp er CLeaf rel \<open>0 < fr\<close>
        by (auto simp: place_def of_nat_diff intro!: exI [of _ "cts[j := CLeaf p]"])
    qed
  qed
qed

section \<open>One turn of the folding loop\<close>

text \<open>
  The leaf count of the node after \<open>k\<close> turns: its own leaves, and those of the
  children met so far.
\<close>

definition counted :: "'l tr list \<Rightarrow> nat \<Rightarrow> nat" where
  "counted ts k = length (filter is_Leaf ts) +
     sum_list (map (\<lambda>t. if is_Node t then nleaves t else 0) (take k ts))"

lemma counted_Suc:
  "k < length ts \<Longrightarrow>
    counted ts (Suc k) = counted ts k + (if is_Node (ts ! k) then nleaves (ts ! k) else 0)"
  by (simp add: counted_def take_Suc_conv_app_nth)

lemma counted_all: "counted ts (length ts) = nleaves (Node ts)"
proof (induction ts)
  case (Cons t ts)
  then show ?case by (cases t) (simp_all add: counted_def)
qed (simp add: counted_def)

definition pass_rel :: "addr \<Rightarrow> ptr \<Rightarrow> u8 \<Rightarrow> mem \<Rightarrow> addr set \<Rightarrow> ptr tr list \<Rightarrow> nat
    \<Rightarrow> fold_state \<Rightarrow> ptr tr list \<times> nat \<times> nat \<times> bool \<Rightarrow> bool" where
  "pass_rel b bp ps m0 F ts0 k f = (\<lambda>(ts, fr, nx, ret).
     pass_inv ts0 k (ts, fr, nx, ret) \<and>
     f_nr_free f = int fr \<and> f_next_slot f = nx \<and> f_retained f = ret \<and>
     (\<exists>cts n. map erase cts = ts \<and> nodes (f_mem f) b = Some n \<and> slots n = map ptr_of cts \<and>
        nr_leaves_on_branch n = of_nat (counted ts0 k) \<and> back_pointer n = bp \<and>
        parent_slot n = ps \<and>
        reps True (nodes (f_mem f)) (assoc_array_node_to_ptr b) 0 cts \<and>
        distinct (b # concat (map addrs cts)) \<and> set (concat (map addrs cts)) \<subseteq> F) \<and>
     shorts (f_mem f) = shorts m0 \<and> edits (f_mem f) = edits m0 \<and> pool (f_mem f) = pool m0 \<and>
     (\<forall>x. x \<noteq> b \<and> x \<notin> F \<longrightarrow> nodes (f_mem f) x = nodes m0 x))"

lemma of_nat_le_free:
  assumes "n < 2 ^ 64" and "fr \<le> 16"
  shows "(of_nat n :: u64) \<le> word_of_int (int fr + 1) \<longleftrightarrow> n \<le> fr + 1"
proof -
  have "(word_of_int (int fr + 1) :: u64) = of_nat (fr + 1)" by simp
  moreover have "unat (of_nat n :: u64) = n"
    using assms(1) by (simp add: unat_of_nat)
  moreover have "unat (of_nat (fr + 1) :: u64) = fr + 1"
    using assms(2) by (simp add: unat_of_nat del: of_nat_add of_nat_Suc)
  ultimately show ?thesis by (metis word_le_nat_alt)
qed

lemma nleaves_nth_le: "j < length ts \<Longrightarrow> nleaves (ts ! j) \<le> nleaves (Node ts)"
  by (simp add: member_le_sum_list)

text \<open>The slots of the folded child, moved one after the other.\<close>

lemma move_leaves_sim:
  assumes rel: "fold_rel b m n0 as r f (ts, fr, nx)"
    and c: "nodes m child = Some c" "slots c = map ptr_of cus" "child \<noteq> b"
    and cus: "length cus = 16" "reps True (nodes m) bp 0 cus"
  shows "case forE place (map erase cus) (ts, fr, nx) of
      Inl e \<Rightarrow> forE (move_leaf b child) [0..<16] f = Inl (stop_of e)
    | Inr t \<Rightarrow> \<exists>f'. forE (move_leaf b child) [0..<16] f = Inr f' \<and> fold_rel b m n0 as r f' t"
proof -
  have nth: "forE place (map erase cus) (ts, fr, nx) =
      forE (\<lambda>i. place (map erase cus ! i)) [0..<16] (ts, fr, nx)"
    using forE_nth [of place "map erase cus"] cus(1) by simp
  show ?thesis
    unfolding nth
  proof (rule forE_sim [where R = "fold_rel b m n0 as r", OF rel])
    fix i f t
    assume i: "i \<in> set [0..<16]" and rel': "fold_rel b m n0 as r f t"
    obtain ts fr nx where t: "t = (ts, fr, nx)" by (cases t)
    show "case place (map erase cus ! i) t of Inl e \<Rightarrow> move_leaf b child i f = Inl (stop_of e)
        | Inr t' \<Rightarrow> \<exists>f'. move_leaf b child i f = Inr f' \<and> fold_rel b m n0 as r f' t'"
      using move_leaf_sim [OF rel' [unfolded t] c cus] i cus(1) t by simp
  qed
qed

lemma fold_slot_sim:
  assumes rel: "pass_rel b bp ps m0 F ts0 k f (ts, fr, nx, ret)" and k: "k < 16"
    and small: "nleaves (Node ts0) < 2 ^ 64" and len0: "length ts0 = 16"
  shows "case fold_at k (ts, fr, nx, ret) of
      Inl e \<Rightarrow> fold_slot b k f = Inl (stop_of e)
    | Inr t \<Rightarrow> \<exists>f'. fold_slot b k f = Inr f' \<and> pass_rel b bp ps m0 F ts0 (Suc k) f' t"
proof -
  have inv': "case fold_at k (ts, fr, nx, ret) of Inl e \<Rightarrow> bug_child ts0 e
      | Inr t \<Rightarrow> pass_inv ts0 (Suc k) t"
    using rel by (intro fold_at_inv [OF k]) (simp add: pass_rel_def)
  from rel have inv: "pass_inv ts0 k (ts, fr, nx, ret)"
    and f: "f_nr_free f = int fr" "f_next_slot f = nx" "f_retained f = ret"
    and m: "shorts (f_mem f) = shorts m0" "edits (f_mem f) = edits m0" "pool (f_mem f) = pool m0"
    and frame: "\<And>x. x \<noteq> b \<Longrightarrow> x \<notin> F \<Longrightarrow> nodes (f_mem f) x = nodes m0 x"
    by (auto simp: pass_rel_def)
  from rel obtain cts n where ct: "map erase cts = ts" "nodes (f_mem f) b = Some n"
    "slots n = map ptr_of cts" "nr_leaves_on_branch n = of_nat (counted ts0 k)"
    "back_pointer n = bp" "parent_slot n = ps"
    "reps True (nodes (f_mem f)) (assoc_array_node_to_ptr b) 0 cts"
    "distinct (b # concat (map addrs cts))" "set (concat (map addrs cts)) \<subseteq> F"
    by (auto simp: pass_rel_def)
  have ok: "slots_ok (ts, fr, nx)" by (rule pass_inv_ok [OF inv])
  have len: "length ts = 16" "length cts = 16" using ok ct(1) by auto
  have rd: "read_slot (f_mem f) b (int k) = Inr (ptr_of (cts ! k))"
    using ct(2,3) k len by (simp add: mem_simps)
  have rk: "rep True (nodes (f_mem f)) (assoc_array_node_to_ptr b) k (cts ! k)"
    using ct(7) k len by (simp add: reps_nth)
  have tsk: "ts ! k = erase (cts ! k)" using ct(1) k len by auto
  show ?thesis
  proof (cases "is_CNode (cts ! k)")
    case False
    then have nn: "\<not> is_Node (ts ! k)" using tsk by (cases "cts ! k") auto
    then have n0: "\<not> is_Node (ts0 ! k)" using pass_inv_later [OF inv k] by auto
    have "fold_slot b k f = Inr f"
      using rd rep_leaf [OF rk] nn tsk by (simp add: fold_slot_def)
    moreover have "pass_rel b bp ps m0 F ts0 (Suc k) f (ts, fr, nx, ret)"
      using rel n0 inv' fold_at_skip [OF nn, of fr nx ret] counted_Suc [of k ts0] len0 k
      unfolding pass_rel_def by simp
    ultimately show ?thesis using fold_at_skip [OF nn] by simp
  next
    case True
    then obtain a cus where a: "cts ! k = CNode a cus" by (cases "cts ! k") auto
    let ?us = "map erase cus"
    have us: "ts ! k = Node ?us" using a tsk by simp
    have us0: "ts0 ! k = Node ?us" using pass_inv_node [OF inv k] us by simp
    from rk a obtain c where al: "aligned a" and cus: "length cus = 16"
      and c: "nodes (f_mem f) a = Some c" "slots c = map ptr_of cus"
        "nr_leaves_on_branch c = of_nat (nleaves (Node ?us))"
      and rc: "reps True (nodes (f_mem f)) (assoc_array_node_to_ptr a) 0 cus" by auto
    have "a \<in> set (concat (map addrs cts))" using a k len by (force simp: in_set_conv_nth)
    then have ab: "a \<noteq> b" and aF: "a \<in> F" using ct(8,9) by auto
    define n1 where "n1 = n\<lparr>nr_leaves_on_branch := of_nat (counted ts0 (Suc k))\<rparr>"
    have n1: "n\<lparr>nr_leaves_on_branch := nr_leaves_on_branch n + nr_leaves_on_branch c\<rparr> = n1"
      using counted_Suc [of k ts0] k len0 us0 ct(4) c(3) by (simp add: n1_def)
    have "nleaves (Node ?us) < 2 ^ 64"
      using nleaves_nth_le [of k ts0] k len0 us0 small by simp
    then have le: "nr_leaves_on_branch c \<le> word_of_int (int fr + 1) \<longleftrightarrow> nleaves (Node ?us) \<le> fr + 1"
      using of_nat_le_free ok holes_le_length [of ts] len c(3) by (metis slots_ok.simps)
    have go: "fold_slot b k f =
        (if nleaves (Node ?us) \<le> fr + 1 then
           bindR (write_slot b (int k) 0 (put_node b n1 (f_mem f))) (\<lambda>m2.
           bindR (forE (move_leaf b a) [0..<16] (f\<lparr>f_mem := m2, f_nr_free := int fr + 1,
             f_next_slot := min k nx\<rparr>)) (\<lambda>f'.
           bindR (kfree_node a (f_mem f')) (\<lambda>m3. Inr (f'\<lparr>f_mem := m3\<rparr>))))
         else Inr (f\<lparr>f_mem := put_node b n1 (f_mem f), f_retained := True\<rparr>))"
      using rd a al c(1) ct(2) ab f le n1
      by (simp add: fold_slot_def mem_simps del: upt_Suc nleaves.simps)
    show ?thesis
    proof (cases "nleaves (Node ?us) \<le> fr + 1")
      case False
      then have st: "fold_at k (ts, fr, nx, ret) = Inr (ts, fr, nx, True)"
        using fold_at_retain [OF us] by simp
      have "\<forall>x\<in>set (concat (map addrs cts)).
          (nodes (put_node b n1 (f_mem f))) x = nodes (f_mem f) x"
        using ct(8) by auto
      then have "reps True (nodes (put_node b n1 (f_mem f))) (assoc_array_node_to_ptr b) 0 cts"
        using ct(7) rep_cong(2) by blast
      then have "pass_rel b bp ps m0 F ts0 (Suc k)
          (f\<lparr>f_mem := put_node b n1 (f_mem f), f_retained := True\<rparr>) (ts, fr, nx, True)"
        using inv' st f m frame ct unfolding pass_rel_def
        by (auto simp: n1_def intro!: exI [of _ cts])
      with False st go show ?thesis by simp
    next
      case True
      let ?cts = "cts[k := CHole]" and ?ts = "ts[k := Hole]"
      let ?as = "(map addrs cts)[k := []]"
      let ?f = "f\<lparr>f_mem := put_node b (n1\<lparr>slots := map ptr_of ?cts\<rparr>) (f_mem f),
        f_nr_free := int fr + 1, f_next_slot := min k nx\<rparr>"
      have w: "write_slot b (int k) 0 (put_node b n1 (f_mem f)) =
          Inr (put_node b (n1\<lparr>slots := map ptr_of ?cts\<rparr>) (f_mem f))"
        using ct(3) k len by (simp add: mem_simps n1_def map_update)
      have okc: "slots_ok (?ts, fr + 1, min k nx)"
        using slots_ok_clear(1) [OF ok k] us by simp
      have rr: "reps True (nodes (f_mem f)) (assoc_array_node_to_ptr b) 0 ?cts"
        using reps_update [OF ct(7), of k CHole] k len by simp
      have fr: "fold_rel b (f_mem f) n1 ?as ret ?f (?ts, fr + 1, min k nx)"
        using okc rr ct(1) f(3) by (auto simp: map_update intro!: exI [of _ ?cts])
      note sim = move_leaves_sim [OF fr c(1,2) ab cus rc]
      show ?thesis
      proof (cases "forE place ?us (?ts, fr + 1, min k nx)")
        case (Inl e)
        then show ?thesis using sim go True w us by (simp add: fold_at_def del: upt_Suc)
      next
        case (Inr t')
        obtain ts' fr' nx' where t': "t' = (ts', fr', nx')" by (cases t')
        with Inr sim obtain f' where f': "forE (move_leaf b a) [0..<16] ?f = Inr f'"
          "fold_rel b (f_mem f) n1 ?as ret f' (ts', fr', nx')" by auto
        then obtain cts' where ct': "map erase cts' = ts'" "map addrs cts' = ?as"
          "f_mem f' = put_node b (n1\<lparr>slots := map ptr_of cts'\<rparr>) (f_mem f)"
          "reps True (nodes (f_mem f)) (assoc_array_node_to_ptr b) 0 cts'" by auto
        let ?m = "(f_mem f')\<lparr>nodes := (nodes (f_mem f'))(a := None)\<rparr>"
        have kf: "kfree_node a (f_mem f') = Inr ?m"
          using c(1) ab ct'(3) by (simp add: mem_simps)
        have st: "fold_at k (ts, fr, nx, ret) = Inr (ts', fr', nx', ret)"
          using Inr t' True us by (simp add: fold_at_def)
        have sub: "set (concat ?as) \<subseteq> set (concat (map addrs cts))"
          by (rule set_concat_update_Nil)
        have dis: "distinct (concat ?as)"
          using distinct_concat_update_Nil [of "map addrs cts" k] ct(8) by simp
        have "a \<in> set (map addrs cts ! k)" using a k len by simp
        then have na: "a \<notin> set (concat ?as)"
          using concat_update_disjoint [of "map addrs cts" k] ct(8) k len by auto
        have nb: "b \<notin> set (concat ?as)" using sub ct(8) by auto
        have "nodes ?m x = nodes (f_mem f) x" if "x \<in> set (concat (map addrs cts'))" for x
          using that na nb ct'(2,3) by auto
        then have rm: "reps True (nodes ?m) (assoc_array_node_to_ptr b) 0 cts'"
          using ct'(4) rep_cong(2) by blast
        have "pass_rel b bp ps m0 F ts0 (Suc k) (f'\<lparr>f_mem := ?m\<rparr>) (ts', fr', nx', ret)"
          unfolding pass_rel_def prod.case
        proof (intro conjI exI [of _ cts'] exI [of _ "n1\<lparr>slots := map ptr_of cts'\<rparr>"] allI impI)
          show "pass_inv ts0 (Suc k) (ts', fr', nx', ret)" using inv' st by simp
          show "f_nr_free (f'\<lparr>f_mem := ?m\<rparr>) = int fr'" "f_next_slot (f'\<lparr>f_mem := ?m\<rparr>) = nx'"
            "f_retained (f'\<lparr>f_mem := ?m\<rparr>) = ret" using f'(2) by auto
          show "reps True (nodes (f_mem (f'\<lparr>f_mem := ?m\<rparr>))) (assoc_array_node_to_ptr b) 0 cts'"
            using rm by simp
          show "distinct (b # concat (map addrs cts'))" using dis nb ct'(2) by simp
          show "set (concat (map addrs cts')) \<subseteq> F" using sub ct'(2) ct(9) by simp
          show "nodes (f_mem (f'\<lparr>f_mem := ?m\<rparr>)) x = nodes m0 x" if "x \<noteq> b \<and> x \<notin> F" for x
            using that frame [of x] aF ct'(3) by auto
        qed (use ct' ct ab m in \<open>auto simp: n1_def\<close>)
        then show ?thesis using st go True w f'(1) kf by (simp del: upt_Suc)
      qed
    qed
  qed
qed

section \<open>A pass over the node, and the compression\<close>

lemma count_slots_sim:
  assumes "reps chk h bp i cts"
  shows "count_slots (map ptr_of cts) x y =
    (x + int (holes (map erase cts)), y + of_nat (length (filter is_Leaf (map erase cts))))"
  using assms
proof (induction cts arbitrary: i x y)
  case (Cons t cts)
  then show ?case by (cases t) (auto simp: holes_def)
qed (simp add: holes_def)

text \<open>The node at \<open>b\<close> has the given parent and holds the represented trees \<open>cts\<close>.\<close>

definition at_node :: "mem \<Rightarrow> addr \<Rightarrow> ptr \<Rightarrow> u8 \<Rightarrow> ct list \<Rightarrow> bool" where
  "at_node m b bp ps cts \<longleftrightarrow> (\<exists>n. nodes m b = Some n \<and> slots n = map ptr_of cts \<and>
     back_pointer n = bp \<and> parent_slot n = ps) \<and> length cts = ASSOC_ARRAY_FAN_OUT \<and>
     reps True (nodes m) (assoc_array_node_to_ptr b) 0 cts \<and>
     distinct (b # concat (map addrs cts))"

definition frame :: "mem \<Rightarrow> mem \<Rightarrow> addr set \<Rightarrow> bool" where
  "frame m m' W \<longleftrightarrow> shorts m' = shorts m \<and> edits m' = edits m \<and>
     (\<forall>x. x \<notin> W \<longrightarrow> nodes m' x = nodes m x)"

lemma frame_refl [simp]: "frame m m W"
  by (simp add: frame_def)

lemma frame_trans: "frame m m1 W1 \<Longrightarrow> frame m1 m2 W2 \<Longrightarrow> W1 \<union> W2 \<subseteq> W \<Longrightarrow> frame m m2 W"
  unfolding frame_def by (metis Un_iff subsetD)

lemma frame_put_node: "b \<in> W \<Longrightarrow> frame m (put_node b n m) W"
  by (auto simp: frame_def)

lemma compress_pass_sim:
  assumes at: "at_node m b bp ps cts" and small: "nleaves (Node (map erase cts)) < 2 ^ 64"
  shows "case pass (map erase cts) of
      Inl e \<Rightarrow> compress_pass b m = Inl (stop_of e)
    | Inr t \<Rightarrow> \<exists>f. compress_pass b m = Inr f \<and>
        pass_rel b bp ps m (set (concat (map addrs cts))) (map erase cts) 16 f t"
proof -
  let ?ts = "map erase cts" and ?F = "set (concat (map addrs cts))"
  let ?R = "pass_rel b bp ps m ?F ?ts"
  from at obtain n where n: "nodes m b = Some n" "slots n = map ptr_of cts"
    "back_pointer n = bp" "parent_slot n = ps"
    and len: "length cts = 16" and rp: "reps True (nodes m) (assoc_array_node_to_ptr b) 0 cts"
    and d: "distinct (b # concat (map addrs cts))"
    by (auto simp: at_node_def)
  define n1 where "n1 = n\<lparr>nr_leaves_on_branch := of_nat (counted ?ts 0)\<rparr>"
  let ?f = "\<lparr>f_mem = put_node b n1 m, f_nr_free = int (holes ?ts), f_next_slot = 0,
    f_retained = False\<rparr>"
  have go: "compress_pass b m = forE (fold_slot b) [0..<16] ?f"
    using n count_slots_sim [OF rp, of 0 0]
    by (simp add: compress_pass_def mem_simps counted_def n1_def del: upt_Suc)
  have "reps True (nodes (put_node b n1 m)) (assoc_array_node_to_ptr b) 0 cts"
    using rp d by simp
  then have start: "?R 0 ?f (?ts, holes ?ts, 0, False)"
    using pass_inv_start [of ?ts] len n d unfolding pass_rel_def
    by (auto simp: n1_def intro!: exI [of _ cts])
  have "case forE fold_at [0..<16] (?ts, holes ?ts, 0, False) of
      Inl e \<Rightarrow> forE (fold_slot b) [0..<16] ?f = Inl (stop_of e)
    | Inr t \<Rightarrow> \<exists>f. forE (fold_slot b) [0..<16] ?f = Inr f \<and> ?R 16 f t"
  proof (rule forE_sim_upto [where R = ?R, OF _ start])
    fix k f and t :: "ptr tr list \<times> nat \<times> nat \<times> bool"
    assume k: "k < 16" and r: "?R k f t"
    obtain ts fr nx ret where t: "t = (ts, fr, nx, ret)" by (cases t)
    show "case fold_at k t of Inl e \<Rightarrow> fold_slot b k f = Inl (stop_of e)
        | Inr t' \<Rightarrow> \<exists>f'. fold_slot b k f = Inr f' \<and> ?R (Suc k) f' t'"
      using fold_slot_sim [OF r [unfolded t] k small] len t by simp
  qed simp
  then show ?thesis by (simp only: go pass_def)
qed

text \<open>What a finished pass leaves in the heap.\<close>

lemma pass_rel_done:
  assumes at: "at_node m b bp ps cts"
    and r: "pass_rel b bp ps m (set (concat (map addrs cts))) (map erase cts) 16 f (ts, fr, nx, ret)"
  shows "f_retained f = ret"
    and "\<exists>cvs. map erase cvs = ts \<and> at_node (f_mem f) b bp ps cvs \<and>
      set (concat (map addrs cvs)) \<subseteq> set (concat (map addrs cts)) \<and>
      frame m (f_mem f) (insert b (set (concat (map addrs cts)))) \<and> pool (f_mem f) = pool m \<and>
      (\<exists>n. nodes (f_mem f) b = Some n \<and> nr_leaves_on_branch n = of_nat (nleaves (Node ts)))"
proof -
  let ?ts = "map erase cts"
  from r obtain cvs n where c: "pass_inv ?ts 16 (ts, fr, nx, ret)" "f_retained f = ret"
    "map erase cvs = ts" "nodes (f_mem f) b = Some n"
    "slots n = map ptr_of cvs" "nr_leaves_on_branch n = of_nat (counted ?ts 16)"
    "back_pointer n = bp" "parent_slot n = ps"
    "reps True (nodes (f_mem f)) (assoc_array_node_to_ptr b) 0 cvs"
    "distinct (b # concat (map addrs cvs))"
    "set (concat (map addrs cvs)) \<subseteq> set (concat (map addrs cts))"
    "frame m (f_mem f) (insert b (set (concat (map addrs cts))))" "pool (f_mem f) = pool m"
    unfolding pass_rel_def frame_def by auto
  show "f_retained f = ret" by (rule c(2))
  have "length ?ts = 16" using at by (simp add: at_node_def)
  then have "counted ?ts 16 = nleaves (Node ?ts)" using counted_all [of ?ts] by simp
  also have "\<dots> = nleaves (Node ts)"
    using pass_inv_leaves [OF c(1)] by (simp only: nleaves_eq_size)
  finally have "nr_leaves_on_branch n = of_nat (nleaves (Node ts))" using c(6) by simp
  moreover have "length cvs = 16" using pass_inv_ok [OF c(1)] c(3) by auto
  ultimately show "\<exists>cvs. map erase cvs = ts \<and> at_node (f_mem f) b bp ps cvs \<and>
      set (concat (map addrs cvs)) \<subseteq> set (concat (map addrs cts)) \<and>
      frame m (f_mem f) (insert b (set (concat (map addrs cts)))) \<and> pool (f_mem f) = pool m \<and>
      (\<exists>n. nodes (f_mem f) b = Some n \<and> nr_leaves_on_branch n = of_nat (nleaves (Node ts)))"
    using c unfolding at_node_def by blast
qed

section \<open>Runs of the machine\<close>

definition along :: "gc_state \<Rightarrow> gc_state \<Rightarrow> addr set \<Rightarrow> bool" where
  "along s t W \<longleftrightarrow> g_array t = g_array s \<and> g_edit t = g_edit s \<and> frame (g_mem s) (g_mem t) W"

lemma along_trans: "along s t W1 \<Longrightarrow> along t u W2 \<Longrightarrow> W1 \<union> W2 \<subseteq> W \<Longrightarrow> along s u W"
  unfolding along_def using frame_trans by metis

text \<open>
  The run from \<open>s\<close> does what the abstract result \<open>r\<close> says, writing into \<open>W\<close> only:
  it stops with the error, reaches \<open>enomem\<close>, or reaches a state described by \<open>P\<close>.
\<close>

definition outcome :: "(gc_state \<Rightarrow> gc_stop + gc_state) \<Rightarrow> addr set \<Rightarrow> gc_state \<Rightarrow> tr_err + 'x
    \<Rightarrow> ('x \<Rightarrow> gc_state \<Rightarrow> bool) \<Rightarrow> bool" where
  "outcome step W s r P = (case r of
       Inl e \<Rightarrow>
         if e = TNoMem then \<exists>t. reaches step s t \<and> g_label t = Enomem \<and> along s t W
         else gc_loop step s = Some (stop_of e)
     | Inr x \<Rightarrow> \<exists>t. reaches step s t \<and> along s t W \<and> P x t)"

lemma along_mono: "along s t W' \<Longrightarrow> W' \<subseteq> W \<Longrightarrow> along s t W"
  by (auto simp: along_def frame_def)

lemma outcome_reaches:
  assumes "reaches step s t" and "along s t W" and "outcome step W' t r P" and "W' \<subseteq> W"
  shows "outcome step W s r P"
proof -
  have "along s u W" if "along t u W'" for u
    using along_trans [OF assms(2) that] assms(4) by blast
  moreover have "reaches step s u" if "reaches step t u" for u
    using assms(1) that by (rule rtranclp_trans)
  ultimately show ?thesis
    using assms(3) gc_loop_reaches [OF assms(1)] unfolding outcome_def
    by (cases r) (auto split: if_splits)
qed

lemma outcome_bind:
  assumes "outcome step W1 s r P"
    and "\<And>x t. r = Inr x \<Longrightarrow> P x t \<Longrightarrow> along s t W1 \<Longrightarrow> outcome step W2 t (f x) Q"
    and "W1 \<subseteq> W" and "W2 \<subseteq> W"
  shows "outcome step W s (bindR r f) Q"
proof (cases r)
  case (Inl e)
  have "along s t W1 \<Longrightarrow> along s t W" for t
    using assms(3) by (auto simp: along_def frame_def)
  with Inl assms(1) show ?thesis unfolding outcome_def by (auto split: if_splits)
next
  case (Inr x)
  with assms(1) obtain t where t: "reaches step s t" "along s t W1" "P x t"
    by (auto simp: outcome_def)
  have "outcome step W2 t (f x) Q" using assms(2) Inr t(3,2) .
  moreover have "along s t W" using t(2) assms(3) by (auto simp: along_def frame_def)
  moreover have "along s u W" if "along t u W2" for u
    using along_trans [OF t(2) that] assms(3,4) by blast
  ultimately show ?thesis
    using t(1) Inr gc_loop_reaches [OF t(1)] unfolding outcome_def
    by (cases "f x") (auto intro: rtranclp_trans split: if_splits)
qed

lemma outcome_mono:
  assumes "outcome step W s r P" and "\<And>x t. r = Inr x \<Longrightarrow> P x t \<Longrightarrow> along s t W \<Longrightarrow> Q x t"
  shows "outcome step W s r Q"
  using assms by (cases r) (auto simp: outcome_def)

lemma outcome_intro:
  "reaches step s t \<Longrightarrow> along s t W \<Longrightarrow> P x t \<Longrightarrow> r = Inr x \<Longrightarrow> outcome step W s r P"
  by (auto simp: outcome_def)

lemma outcome_Inr: "P x s \<Longrightarrow> outcome step W s (Inr x) P"
  by (auto simp: outcome_def along_def)

lemma outcome_map:
  assumes "outcome step W s r P" and "\<And>x t. P x t \<Longrightarrow> Q (f x) t"
  shows "outcome step W s (bindR r (\<lambda>x. Inr (f x))) Q"
  using assms by (cases r) (auto simp: outcome_def split: if_splits)

text \<open>Addresses \<open>malloc\<close> has not handed out: fresh, distinct and properly aligned.\<close>

definition fresh_pool :: "mem \<Rightarrow> bool" where
  "fresh_pool m \<longleftrightarrow> distinct (pool m) \<and> (\<forall>x\<in>set (pool m). aligned x \<and> nodes m x = None)"

lemma rep_live:
  "rep chk h bp i t \<Longrightarrow> x \<in> set (addrs t) \<Longrightarrow> h x \<noteq> None"
  "reps chk h bp i ts \<Longrightarrow> x \<in> set (concat (map addrs ts)) \<Longrightarrow> h x \<noteq> None"
  by (induction chk h bp i t and chk h bp i ts rule: rep_reps.induct) auto

lemma rep_frame:
  assumes "rep chk (nodes m) bp i t" and "frame m m' (insert b (set used))"
    and "b \<notin> set (addrs t)" and "\<And>x. x \<in> set used \<Longrightarrow> nodes m x = None"
  shows "rep chk (nodes m') bp i t"
proof -
  have "nodes m' x = nodes m x" if x: "x \<in> set (addrs t)" for x
  proof -
    have "x \<noteq> b" "x \<notin> set used" using rep_live(1) [OF assms(1) x] assms(3,4) x by auto
    with assms(2) show ?thesis by (simp add: frame_def)
  qed
  then show ?thesis using rep_cong(1) assms(1) by blast
qed

lemma reps_frame:
  assumes "reps chk (nodes m) bp i ts" and "frame m m' (insert b (set used))"
    and "b \<notin> set (concat (map addrs ts))" and "\<And>x. x \<in> set used \<Longrightarrow> nodes m x = None"
  shows "reps chk (nodes m') bp i ts"
proof -
  have "nodes m' x = nodes m x" if x: "x \<in> set (concat (map addrs ts))" for x
  proof -
    have "x \<noteq> b" "x \<notin> set used" using rep_live(2) [OF assms(1) x] assms(3,4) x by auto
    with assms(2) show ?thesis by (simp add: frame_def)
  qed
  then show ?thesis using rep_cong(2) assms(1) by blast
qed

lemma reps_append:
  "reps chk h bp i (ts @ us) \<longleftrightarrow> reps chk h bp i ts \<and> reps chk h bp (i + length ts) us"
  by (induction ts arbitrary: i) auto

lemma fresh_pool_frame:
  assumes "fresh_pool m" and "frame m m' (insert b (set used))" and "pool m = used @ pool m'"
    and "nodes m b \<noteq> None"
  shows "fresh_pool m'"
proof -
  have "nodes m' x = None" if "x \<in> set (pool m')" for x
  proof -
    have "nodes m x = None" "x \<notin> set used" using that assms(1,3) by (auto simp: fresh_pool_def)
    moreover then have "x \<noteq> b" using assms(4) by auto
    ultimately show ?thesis using assms(2) by (simp add: frame_def)
  qed
  with assms(1,3) show ?thesis by (auto simp: fresh_pool_def)
qed

section \<open>Compressing in the machine\<close>

text \<open>
  The state \<open>t\<close> has the locals of \<open>s\<close> and its node at \<open>g_new_n s\<close> holds the slots
  \<open>vs\<close>, with nodes among \<open>F\<close> only.
\<close>

definition compressing :: "gc_state \<Rightarrow> ptr \<Rightarrow> u8 \<Rightarrow> addr set \<Rightarrow> ptr tr list \<Rightarrow> gc_state \<Rightarrow> bool" where
  "compressing s bp ps F vs t \<longleftrightarrow> g_node t = g_node s \<and> g_new_n t = g_new_n s \<and>
     g_new_parent t = g_new_parent s \<and> g_new_root t = g_new_root s \<and>
     pool (g_mem t) = pool (g_mem s) \<and>
     (\<exists>cvs. map erase cvs = vs \<and> at_node (g_mem t) (g_new_n s) bp ps cvs \<and>
        set (concat (map addrs cvs)) \<subseteq> F)"

lemma compressing_trans:
  assumes "compressing s bp ps F ts t" and "compressing t bp ps F' vs u" and "F' \<subseteq> F"
  shows "compressing s bp ps F vs u"
proof -
  from assms(2) obtain cvs where c: "map erase cvs = vs" "at_node (g_mem u) (g_new_n t) bp ps cvs"
    "set (concat (map addrs cvs)) \<subseteq> F'" unfolding compressing_def by blast
  have n: "g_new_n t = g_new_n s" using assms(1) unfolding compressing_def by blast
  have "set (concat (map addrs cvs)) \<subseteq> F" using c(3) assms(3) by (rule order_trans)
  with c(1,2) n show ?thesis
    using assms(1,2) unfolding compressing_def by (intro conjI exI [of _ cvs]) simp_all
qed

definition counts_branch :: "ptr tr list \<Rightarrow> gc_state \<Rightarrow> bool" where
  "counts_branch vs t \<longleftrightarrow> g_nr_leaves_on_tree t = of_nat (nleaves (Node vs)) \<and>
     (\<exists>n. nodes (g_mem t) (g_new_n t) = Some n \<and>
        nr_leaves_on_branch n = of_nat (nleaves (Node vs)))"

lemma compress_step:
  assumes at: "at_node (g_mem s) (g_new_n s) bp ps cts" and l: "g_label s = RetryCompress"
    and small: "nleaves (Node (map erase cts)) < 2 ^ 64"
    and p: "pass (map erase cts) = Inr (ts, fr, nx, ret)"
  shows "\<exists>t. gc_step retry it s = Inr t \<and>
    along s t (insert (g_new_n s) (set (concat (map addrs cts)))) \<and>
    compressing s bp ps (set (concat (map addrs cts))) ts t \<and>
    (if retry ret (of_nat (nleaves (Node ts))) then g_label t = RetryCompress
     else g_label t = ExciseNode \<and> counts_branch ts t)"
proof -
  from compress_pass_sim [OF at small] p obtain f where
    f: "compress_pass (g_new_n s) (g_mem s) = Inr f"
      "pass_rel (g_new_n s) bp ps (g_mem s) (set (concat (map addrs cts))) (map erase cts) 16 f
        (ts, fr, nx, ret)"
    by auto
  from pass_rel_done [OF at f(2)] obtain cvs n where c: "f_retained f = ret"
    "map erase cvs = ts" "at_node (f_mem f) (g_new_n s) bp ps cvs"
    "set (concat (map addrs cvs)) \<subseteq> set (concat (map addrs cts))"
    "frame (g_mem s) (f_mem f) (insert (g_new_n s) (set (concat (map addrs cts))))"
    "pool (f_mem f) = pool (g_mem s)"
    "nodes (f_mem f) (g_new_n s) = Some n" "nr_leaves_on_branch n = of_nat (nleaves (Node ts))"
    by blast
  have step: "gc_step retry it s =
      (if retry ret (of_nat (nleaves (Node ts)))
       then Inr (s\<lparr>g_mem := f_mem f, g_label := RetryCompress\<rparr>)
       else Inr (s\<lparr>g_mem := f_mem f, g_nr_free := f_nr_free f,
         g_nr_leaves_on_tree := of_nat (nleaves (Node ts)), g_label := ExciseNode\<rparr>))"
    using f(1) c(1,7,8) l by (simp add: gc_step_def gc_compress_def get_node_Some)
  have "compressing s bp ps (set (concat (map addrs cts))) ts t"
    if "g_mem t = f_mem f" "g_node t = g_node s" "g_new_n t = g_new_n s"
      "g_new_parent t = g_new_parent s" "g_new_root t = g_new_root s" for t
    using that c(2,3,4,6) unfolding compressing_def by metis
  moreover have "along s t (insert (g_new_n s) (set (concat (map addrs cts))))"
    if "g_mem t = f_mem f" "g_array t = g_array s" "g_edit t = g_edit s" for t
    using that c(5) by (simp only: along_def)
  ultimately show ?thesis
    unfolding step by (cases "retry ret (of_nat (nleaves (Node ts)))")
      (simp_all del: nleaves.simps set_concat add: c(7,8) counts_branch_def)
qed

lemma compress_step_error:
  assumes at: "at_node (g_mem s) (g_new_n s) bp ps cts" and l: "g_label s = RetryCompress"
    and small: "nleaves (Node (map erase cts)) < 2 ^ 64" and p: "pass (map erase cts) = Inl e"
  shows "e = TBug Bug_meta" and "gc_loop (gc_step retry it) s = Some (stop_of e)"
proof -
  have "length (map erase cts) = 16" using at by (simp add: at_node_def)
  from pass_correct [OF this] p show e: "e = TBug Bug_meta" by (simp add: bug_child_def)
  have "gc_step retry it s = Inl (stop_of e)"
    using compress_pass_sim [OF at small] p l by (simp add: gc_step_def gc_compress_def)
  then show "gc_loop (gc_step retry it) s = Some (stop_of e)" by (rule gc_loop_stop)
qed

context retry_policy
begin

lemma retry_few: "retry r (of_nat n) \<Longrightarrow> n < 2 ^ 64 \<Longrightarrow> r \<and> n \<le> ASSOC_ARRAY_FAN_OUT"
  using retry_small [of r "of_nat n"] by (auto simp: word_le_nat_alt unat_of_nat)

lemma second_pass_folds:
  assumes c: "compressed us ts" and r: "retry ret (of_nat (nleaves (Node ts)))"
    and small: "nleaves (Node ts) < 2 ^ 64" and p: "pass ts = Inr (vs, fr, nx, ret')"
  shows "\<not> retry ret' w"
proof -
  have len: "length ts = 16" by (rule compressed_length [OF c])
  have big: "1 \<le> nleaves t" if "t \<in> set ts" "is_Node t" for t
    using that len compressed_size [OF c] by (force simp: in_set_conv_nth)
  have "nleaves (Node ts) \<le> 16" using retry_few [OF r small] by simp
  then have "\<not> ret'" using pass_folds_all(1) [OF len _ big p] by blast
  then show ?thesis using retry_small by blast
qed

lemma compress_sim:
  assumes at: "at_node (g_mem s) (g_new_n s) bp ps cts" and l: "g_label s = RetryCompress"
    and small: "nleaves (Node (map erase cts)) < 2 ^ 64"
  shows "outcome (gc_step retry it) (insert (g_new_n s) (set (concat (map addrs cts)))) s
    (compress retry (map erase cts))
    (\<lambda>vs t. g_label t = ExciseNode \<and> counts_branch vs t \<and>
      compressing s bp ps (set (concat (map addrs cts))) vs t)"
    (is "outcome ?step ?W s (compress retry ?ts) ?P")
proof (cases "pass ?ts")
  case (Inl e)
  from compress_step_error [OF at l small Inl] show ?thesis
    using Inl by (simp add: outcome_def compress_def)
next
  case (Inr p)
  obtain ts fr nx ret where p: "p = (ts, fr, nx, ret)" by (cases p)
  note ps = Inr [unfolded p]
  have len: "length ?ts = 16" using at by (simp add: at_node_def)
  have cc: "compressed ?ts ts" by (rule pass_compressed(1) [OF len ps])
  have nl: "nleaves (Node ts) < 2 ^ 64"
    using small compressed_leaves [OF cc] by (simp only: nleaves_eq_size)
  from compress_step [OF at l small ps] obtain t where t: "?step s = Inr t" "along s t ?W"
    "compressing s bp ps (set (concat (map addrs cts))) ts t"
    "if retry ret (of_nat (nleaves (Node ts))) then g_label t = RetryCompress
     else g_label t = ExciseNode \<and> counts_branch ts t" by blast
  have rt: "reaches ?step s t" using t(1) by (rule r_into_rtranclp)
  show ?thesis
  proof (cases "retry ret (of_nat (nleaves (Node ts)))")
    case False
    then have e: "compress retry ?ts = Inr ts" using ps by (simp add: compress_def)
    have "?P ts t" using t(3,4) False by presburger
    from outcome_intro [where P = ?P, OF rt t(2) this e] show ?thesis .
  next
    case True
    from t(3) obtain cvs where cv: "map erase cvs = ts" "at_node (g_mem t) (g_new_n s) bp ps cvs"
      "set (concat (map addrs cvs)) \<subseteq> set (concat (map addrs cts))" and n: "g_new_n t = g_new_n s"
      unfolding compressing_def by blast
    have at1: "at_node (g_mem t) (g_new_n t) bp ps cvs" using cv(2) n by simp
    have l1: "g_label t = RetryCompress" using t(4) True by simp
    have nl1: "nleaves (Node (map erase cvs)) < 2 ^ 64" using nl cv(1) by (simp only:)
    have "outcome ?step (insert (g_new_n t) (set (concat (map addrs cvs)))) t
        (bindR (pass ts) (\<lambda>(ts2, _, _, _). Inr ts2)) ?P"
    proof (cases "pass ts")
      case (Inl e)
      from compress_step_error [OF at1 l1 nl1 Inl [folded cv(1)]] show ?thesis
        using Inl by (simp add: outcome_def)
    next
      case (Inr q)
      obtain vs fr2 nx2 ret2 where q: "q = (vs, fr2, nx2, ret2)" by (cases q)
      note ps2 = Inr [unfolded q]
      from compress_step [OF at1 l1 nl1 ps2 [folded cv(1)], of retry it] obtain u where
        u: "?step t = Inr u" "along t u (insert (g_new_n t) (set (concat (map addrs cvs))))"
          "compressing t bp ps (set (concat (map addrs cvs))) vs u"
          "if retry ret2 (of_nat (nleaves (Node vs))) then g_label u = RetryCompress
           else g_label u = ExciseNode \<and> counts_branch vs u" by blast
      have "compressing s bp ps (set (concat (map addrs cts))) vs u"
        by (rule compressing_trans [OF t(3) u(3) cv(3)])
      with u(4) second_pass_folds [OF cc True nl ps2] have P: "?P vs u" by presburger
      have ru: "reaches ?step t u" using u(1) by (rule r_into_rtranclp)
      from outcome_intro [where P = ?P, OF ru u(2) P refl] show ?thesis
        by (simp only: ps2 bindR_simps prod.case)
    qed
    note out = this
    have e: "compress retry ?ts = bindR (pass ts) (\<lambda>(ts2, _, _, _). Inr ts2)"
      using ps True by (simp add: compress_def)
    have "insert (g_new_n t) (set (concat (map addrs cvs))) \<subseteq> ?W"
      using insert_mono [OF cv(3)] n by (simp only:)
    from outcome_reaches [OF rt t(2) out this] show ?thesis by (simp only: e)
  qed
qed

end

end
