(* ===== verification/AssocRun.thy ===== *)
theory AssocRun
  imports AssocRefine
begin

text \<open>
  The whole run: the goto machine of \<open>AssocGC\<close> walks a shortcut-free array slot
  by slot and node by node, and does what the recursive \<open>gct\<close> of \<open>AssocTree\<close>
  says. The lemmas are proved once, in \<open>retry_policy\<close>, for both versions of the
  code.
\<close>

lemma reaches1: "step s = Inr t \<Longrightarrow> reaches step s t"
  by (rule r_into_rtranclp)

lemma outcome_weaken: "outcome step W' s r P \<Longrightarrow> W' \<subseteq> W \<Longrightarrow> outcome step W s r P"
  using along_mono unfolding outcome_def by (cases r) (auto split: if_splits)

lemma outcome_steps:
  assumes "outcome step W s r P"
    and "\<And>x t. P x t \<Longrightarrow> \<exists>u. reaches step t u \<and> g_mem u = g_mem t \<and> g_array u = g_array t \<and>
      g_edit u = g_edit t \<and> Q x u"
  shows "outcome step W s r Q"
proof (cases r)
  case (Inr x)
  with assms(1) obtain t where t: "reaches step s t" "along s t W" "P x t"
    by (auto simp: outcome_def)
  from assms(2) [OF t(3)] obtain u where u: "reaches step t u" "g_mem u = g_mem t"
    "g_array u = g_array t" "g_edit u = g_edit t" "Q x u" by blast
  have "reaches step s u" using t(1) u(1) by (rule rtranclp_trans)
  moreover have "along s u W" using t(2) u(2-4) by (simp add: along_def)
  ultimately show ?thesis using u(5) Inr by (auto simp: outcome_def)
qed (use assms(1) in \<open>simp add: outcome_def\<close>)

lemma rep_fan_out:
  "rep chk h bp i t \<Longrightarrow> fan_out (erase t)"
  "reps chk h bp i ts \<Longrightarrow> list_all fan_out (map erase ts)"
  by (induction chk h bp i t and chk h bp i ts rule: rep_reps.induct) auto

section \<open>Between the compression and the way up\<close>

lemma first_ptr_in: "first_ptr ps = 0 \<or> first_ptr ps \<in> set ps"
  by (induction ps) (auto simp: first_ptr_def)

text \<open>A node without shortcuts among its slots is never excised.\<close>

lemma excise_node_skip:
  assumes at: "at_node (g_mem s) (g_new_n s) bp ps cts" and l: "g_label s = ExciseNode"
  shows "gc_step retry it s = Inr (s\<lparr>g_label := ExciseShortcut\<rparr>)"
proof -
  from at obtain n where n: "nodes (g_mem s) (g_new_n s) = Some n" "slots n = map ptr_of cts"
    and r: "reps True (nodes (g_mem s)) (assoc_array_node_to_ptr (g_new_n s)) 0 cts"
    by (auto simp: at_node_def)
  let ?p = "first_ptr (slots n)"
  have "\<not> (assoc_array_ptr_is_meta ?p \<and> assoc_array_ptr_is_shortcut ?p)"
  proof (cases "?p = 0")
    case False
    then obtain j where j: "j < length cts" "?p = ptr_of (cts ! j)"
      using first_ptr_in [of "slots n"] n(2) by (auto simp: in_set_conv_nth)
    then have "rep True (nodes (g_mem s)) (assoc_array_node_to_ptr (g_new_n s)) j (cts ! j)"
      using r by (simp add: reps_nth)
    with j(2) False show ?thesis
      by (cases "cts ! j") (auto simp: assoc_array_ptr_is_leaf_def)
  qed simp
  then show ?thesis
    using l n(1) by (auto simp: gc_step_def gc_excise_node_def get_node_Some Let_def)
qed

section \<open>The loop over the slots of a node\<close>

text \<open>
  The machine is about to look at the slot after \<open>done\<close>: the new node holds the
  collected \<open>done\<close> and is empty behind, the old one still holds \<open>rest\<close>.
\<close>

definition loop_at :: "gc_state \<Rightarrow> ptr \<Rightarrow> u8 \<Rightarrow> ct list \<Rightarrow> ct list \<Rightarrow> bool" where
  "loop_at s bp ps ds rest \<longleftrightarrow> g_label s = ContinueNode \<and> g_slot s = int (length ds) \<and>
     length ds + length rest = ASSOC_ARRAY_FAN_OUT \<and>
     g_new_parent s = assoc_array_node_to_ptr (g_new_n s) \<and>
     aligned (g_new_n s) \<and> aligned (g_node s) \<and> g_new_n s \<noteq> g_node s \<and>
     at_node (g_mem s) (g_new_n s) bp ps (ds @ replicate (length rest) CHole) \<and>
     (\<exists>n. nodes (g_mem s) (g_node s) = Some n \<and> length (slots n) = ASSOC_ARRAY_FAN_OUT \<and>
        drop (length ds) (slots n) = map ptr_of rest) \<and>
     reps False (nodes (g_mem s)) (assoc_array_node_to_ptr (g_node s)) (length ds) rest \<and>
     g_new_n s \<notin> set (concat (map addrs rest)) \<and> fresh_pool (g_mem s)"

text \<open>
  \<open>t\<close> is \<open>s\<close> one slot on, which now holds the collected tree \<open>cu\<close>; the nodes of
  \<open>cu\<close> are among the addresses \<open>used\<close> since.
\<close>

definition slot_done :: "gc_state \<Rightarrow> nat \<Rightarrow> ct \<Rightarrow> addr list \<Rightarrow> gc_state \<Rightarrow> bool" where
  "slot_done s i cu used t \<longleftrightarrow> g_label t = ContinueNode \<and> g_slot t = int (Suc i) \<and>
     g_node t = g_node s \<and> g_new_n t = g_new_n s \<and> g_new_parent t = g_new_parent s \<and>
     g_new_root t = g_new_root s \<and>
     (\<exists>n. nodes (g_mem s) (g_new_n s) = Some n \<and>
        nodes (g_mem t) (g_new_n s) = Some (n\<lparr>slots := (slots n)[i := ptr_of cu]\<rparr>)) \<and>
     rep True (nodes (g_mem t)) (assoc_array_node_to_ptr (g_new_n s)) i cu \<and>
     distinct (addrs cu) \<and> set (addrs cu) \<subseteq> set used \<and>
     pool (g_mem s) = used @ pool (g_mem t) \<and> along s t (insert (g_new_n s) (set used))"

lemma fresh_not_live:
  "fresh_pool m \<Longrightarrow> pool m = used @ p \<Longrightarrow> x \<in> set used \<Longrightarrow> nodes m x = None"
  by (simp add: fresh_pool_def)

lemma loop_at_next:
  assumes l: "loop_at s bp ps ds (t # rest)" and d: "slot_done s (length ds) cu used s'"
  shows "loop_at s' bp ps (ds @ [cu]) rest"
proof -
  let ?b = "g_new_n s" and ?a = "g_node s" and ?m = "g_mem s" and ?m' = "g_mem s'"
  let ?old = "ds @ CHole # replicate (length rest) CHole"
  from l have at: "at_node ?m ?b bp ps ?old" by (simp add: loop_at_def)
  from d obtain n where n: "nodes ?m ?b = Some n"
    "nodes ?m' ?b = Some (n\<lparr>slots := (slots n)[length ds := ptr_of cu]\<rparr>)"
    by (auto simp: slot_done_def)
  have sl: "slots n = map ptr_of ?old" "back_pointer n = bp" "parent_slot n = ps"
    and dist: "distinct (?b # concat (map addrs ds))"
    and rds: "reps True (nodes ?m) (assoc_array_node_to_ptr ?b) 0 ds"
    using at n(1) by (auto simp: at_node_def reps_append)
  from d have fr: "frame ?m ?m' (insert ?b (set used))" and pl: "pool ?m = used @ pool ?m'"
    and cu: "rep True (nodes ?m') (assoc_array_node_to_ptr ?b) (length ds) cu"
      "distinct (addrs cu)" "set (addrs cu) \<subseteq> set used"
    by (auto simp: slot_done_def along_def)
  from l have fp: "fresh_pool ?m" by (simp add: loop_at_def)
  note dead = fresh_not_live [OF fp pl]
  have rds': "reps True (nodes ?m') (assoc_array_node_to_ptr ?b) 0 ds"
    by (rule reps_frame [OF rds fr]) (use dist dead in auto)
  have bu: "?b \<notin> set used" using dead n(1) by force
  have disj: "set (concat (map addrs ds)) \<inter> set used = {}"
    using rep_live(2) [OF rds] dead by blast
  have holes: "reps True h p j (replicate k CHole)" for h p j k
    by (simp add: reps_nth)
  have at': "at_node ?m' ?b bp ps ((ds @ [cu]) @ replicate (length rest) CHole)"
    unfolding at_node_def
  proof (intro conjI exI)
    show "nodes ?m' ?b = Some (n\<lparr>slots := (slots n)[length ds := ptr_of cu]\<rparr>)" by (rule n(2))
    show "reps True (nodes ?m') (assoc_array_node_to_ptr ?b) 0
        ((ds @ [cu]) @ replicate (length rest) CHole)"
      using rds' cu(1) holes by (simp add: reps_append)
    show "distinct (?b # concat (map addrs ((ds @ [cu]) @ replicate (length rest) CHole)))"
      using dist disj cu(2,3) bu by auto
  qed (use sl l in \<open>auto simp: loop_at_def\<close>)
  from l obtain q where o: "nodes ?m ?a = Some q" "length (slots q) = 16"
    "drop (length ds) (slots q) = ptr_of t # map ptr_of rest" "?a \<noteq> ?b"
    by (auto simp: loop_at_def)
  have "drop (Suc (length ds)) (slots q) = tl (drop (length ds) (slots q))"
    by (simp add: drop_Suc tl_drop)
  then have o': "drop (length (ds @ [cu])) (slots q) = map ptr_of rest" using o(3) by simp
  have ao: "nodes ?m' ?a = Some q"
    using fr o(1,4) dead [of ?a] by (auto simp: frame_def)
  have rr: "reps False (nodes ?m') (assoc_array_node_to_ptr ?a) (Suc (length ds)) rest"
    by (rule reps_frame [OF _ fr]) (use l dead in \<open>auto simp: loop_at_def\<close>)
  have "fresh_pool ?m'" using fresh_pool_frame [OF fp fr pl] n(1) by simp
  with at' ao o(2) o' rr d l show ?thesis
    unfolding loop_at_def slot_done_def by auto
qed

section \<open>One turn of the loop\<close>

lemma loop_at_read:
  assumes "loop_at s bp ps ds (t # rest)"
  shows "read_slot (g_mem s) (g_node s) (g_slot s) = Inr (ptr_of t)"
    and "g_slot s < int ASSOC_ARRAY_FAN_OUT"
proof -
  from assms obtain n where n: "nodes (g_mem s) (g_node s) = Some n" "length (slots n) = 16"
    "drop (length ds) (slots n) = ptr_of t # map ptr_of rest" "g_slot s = int (length ds)"
    and len: "length ds < 16"
    by (auto simp: loop_at_def)
  then have "slots n ! length ds = ptr_of t"
    by (metis hd_drop_conv_nth list.sel(1))
  with n len show "read_slot (g_mem s) (g_node s) (g_slot s) = Inr (ptr_of t)"
    by (simp add: read_slot_Some)
  show "g_slot s < int ASSOC_ARRAY_FAN_OUT" using n(4) len by simp
qed

text \<open>The slot a collection may still have to fill is empty.\<close>

lemma loop_at_new:
  assumes "loop_at s bp ps ds (t # rest)"
  shows "\<exists>n. nodes (g_mem s) (g_new_n s) = Some n \<and> length (slots n) = ASSOC_ARRAY_FAN_OUT \<and>
    slots n ! length ds = 0 \<and> length ds < ASSOC_ARRAY_FAN_OUT"
  using assms by (auto simp: loop_at_def at_node_def)

text \<open>An empty slot, or a leaf that goes, and a leaf that stays.\<close>

lemma slot_done_skip:
  assumes l: "loop_at s bp ps ds (t # rest)"
  shows "slot_done s (length ds) CHole [] (s\<lparr>g_slot := g_slot s + 1\<rparr>)"
proof -
  from loop_at_new [OF l] obtain n where n: "nodes (g_mem s) (g_new_n s) = Some n"
    "slots n ! length ds = 0" by blast
  have "(slots n)[length ds := 0] = slots n" using n(2) by (metis list_update_id)
  with n(1) l show ?thesis by (simp add: slot_done_def along_def loop_at_def)
qed

lemma slot_done_leaf:
  assumes l: "loop_at s bp ps ds (CLeaf p # rest)"
  shows "\<exists>m. write_slot (g_new_n s) (g_slot s) p (g_mem s) = Inr m \<and>
    slot_done s (length ds) (CLeaf p) [] (s\<lparr>g_mem := m, g_slot := g_slot s + 1\<rparr>)"
proof -
  from loop_at_new [OF l] obtain n where n: "nodes (g_mem s) (g_new_n s) = Some n"
    "length (slots n) = 16" "length ds < 16" by blast
  have p: "p \<noteq> 0" "assoc_array_ptr_is_leaf p" using l by (auto simp: loop_at_def)
  have sl: "g_slot s = int (length ds)" using l by (simp add: loop_at_def)
  show ?thesis
    using n p l by (simp add: sl write_slot_Some slot_done_def along_def loop_at_def frame_put_node)
qed

text \<open>
  What the induction assumes of a child \<open>t\<close> in slot \<open>i\<close>: from \<open>descend\<close> on, the
  machine collects it into slot \<open>i\<close> of the new node and comes back.
\<close>

definition child_pre :: "gc_state \<Rightarrow> nat \<Rightarrow> ct \<Rightarrow> bool" where
  "child_pre s i t \<longleftrightarrow> g_label s = Descend \<and> g_cursor s = ptr_of t \<and> i < ASSOC_ARRAY_FAN_OUT \<and>
     g_new_ptr_pp s = SlotRef (g_new_n s) (int i) \<and>
     g_new_parent s = assoc_array_node_to_ptr (g_new_n s) \<and>
     aligned (g_new_n s) \<and> aligned (g_node s) \<and> g_new_n s \<notin> set (addrs t) \<and>
     rep False (nodes (g_mem s)) (assoc_array_node_to_ptr (g_node s)) i t \<and>
     (\<exists>nb. nodes (g_mem s) (g_new_n s) = Some nb \<and> length (slots nb) = ASSOC_ARRAY_FAN_OUT) \<and>
     nodes (g_mem s) (g_node s) \<noteq> None \<and> g_new_n s \<noteq> g_node s \<and> fresh_pool (g_mem s)"

definition child_sim :: "(bool \<Rightarrow> u64 \<Rightarrow> bool) \<Rightarrow> (addr \<Rightarrow> bool) \<Rightarrow> ct \<Rightarrow> bool" where
  "child_sim retry it t \<longleftrightarrow> (\<forall>s i. child_pre s i t \<and> nleaves (erase t) < 2 ^ 64 \<longrightarrow>
     outcome (gc_step retry it) (insert (g_new_n s) (set (pool (g_mem s)))) s
       (gct retry (\<lambda>p. it (assoc_array_ptr_to_leaf p)) (length (pool (g_mem s))) (erase t))
       (\<lambda>(u, k) s'. k = length (pool (g_mem s')) \<and>
          (\<exists>cu used. erase cu = u \<and> slot_done s i cu used s')))"

lemma turn_sim:
  assumes l: "loop_at s bp ps ds (t # rest)" and small: "nleaves (erase t) < 2 ^ 64"
    and IH: "is_CNode t \<Longrightarrow> child_sim retry it t"
  shows "outcome (gc_step retry it) (insert (g_new_n s) (set (pool (g_mem s)))) s
    (gct retry (\<lambda>p. it (assoc_array_ptr_to_leaf p)) (length (pool (g_mem s))) (erase t))
    (\<lambda>(u, k) s'. k = length (pool (g_mem s')) \<and>
       (\<exists>cu used. erase cu = u \<and> slot_done s (length ds) cu used s'))"
    (is "outcome ?step ?W s ?r ?P")
proof -
  have step: "?step s = bindR (Inr (ptr_of t)) (\<lambda>ptr.
      if ptr = 0 then Inr (s\<lparr>g_slot := g_slot s + 1\<rparr>)
      else if assoc_array_ptr_is_leaf ptr then
        (if it (assoc_array_ptr_to_leaf ptr) then
           bindR (write_slot (g_new_n s) (g_slot s) ptr (g_mem s)) (\<lambda>m.
             Inr (s\<lparr>g_mem := m, g_slot := g_slot s + 1\<rparr>))
         else Inr (s\<lparr>g_slot := g_slot s + 1\<rparr>))
      else Inr (s\<lparr>g_new_ptr_pp := SlotRef (g_new_n s) (g_slot s), g_cursor := ptr,
                 g_label := Descend\<rparr>))"
    using l loop_at_read [OF l] by (simp add: gc_step_def gc_continue_node_def loop_at_def)
  have one: "outcome ?step ?W s (Inr (u, k)) ?P"
    if "?step s = Inr s'" "slot_done s (length ds) cu [] s'" "erase cu = u"
      "k = length (pool (g_mem s'))" for s' cu u k
  proof (rule outcome_intro [where P = ?P, OF _ _ _ refl])
    show "reaches ?step s s'" using that(1) by (rule reaches1)
    show "along s s' ?W"
      using that(2) by (auto simp: slot_done_def intro: along_mono)
  qed (use that in auto)
  note skip = slot_done_skip [OF l]
  show ?thesis
  proof (cases t)
    case CHole
    then show ?thesis using one [OF _ skip] step by simp
  next
    case (CLeaf p)
    then have p: "p \<noteq> 0" "assoc_array_ptr_is_leaf p" using l by (auto simp: loop_at_def)
    show ?thesis
    proof (cases "it (assoc_array_ptr_to_leaf p)")
      case True
      from slot_done_leaf [OF l [unfolded CLeaf]] obtain m where
        m: "write_slot (g_new_n s) (g_slot s) p (g_mem s) = Inr m"
        "slot_done s (length ds) (CLeaf p) [] (s\<lparr>g_mem := m, g_slot := g_slot s + 1\<rparr>)" by blast
      then have "pool m = pool (g_mem s)" by (simp add: slot_done_def)
      then show ?thesis using one [OF _ m(2)] step CLeaf p True m(1) by simp
    next
      case False
      then show ?thesis using one [OF _ skip] step CLeaf p by simp
    qed
  next
    case (CNode a ts)
    then have a: "aligned a" using l by (simp add: loop_at_def)
    let ?s = "s\<lparr>g_new_ptr_pp := SlotRef (g_new_n s) (g_slot s), g_cursor := ptr_of t,
      g_label := Descend\<rparr>"
    have st: "?step s = Inr ?s" using step CNode a by simp
    from loop_at_new [OF l] obtain nb where nb: "nodes (g_mem s) (g_new_n s) = Some nb"
      "length (slots nb) = 16" "length ds < 16" by blast
    have "child_sim retry it t" using IH CNode by simp
    from this [unfolded child_sim_def, rule_format, of ?s "length ds"]
    have "outcome ?step ?W ?s ?r (\<lambda>(u, k) s'. k = length (pool (g_mem s')) \<and>
       (\<exists>cu used. erase cu = u \<and> slot_done ?s (length ds) cu used s'))"
      using l nb small by (auto simp: loop_at_def child_pre_def)
    moreover have "slot_done ?s (length ds) cu used s' = slot_done s (length ds) cu used s'"
      for cu used s' by (simp add: slot_done_def along_def)
    ultimately have out: "outcome ?step ?W ?s ?r ?P" by simp
    have rs: "reaches ?step s ?s" using st by (rule reaches1)
    have al: "along s ?s ?W" by (simp add: along_def)
    from outcome_reaches [where P = ?P, OF rs al out order_refl] show ?thesis .
  qed
qed

section \<open>All the slots\<close>

definition slots_done :: "gc_state \<Rightarrow> ptr \<Rightarrow> u8 \<Rightarrow> ct list \<Rightarrow> ptr tr list \<times> nat \<Rightarrow> gc_state \<Rightarrow> bool" where
  "slots_done s bp ps ds = (\<lambda>(us, k) t. k = length (pool (g_mem t)) \<and>
     g_node t = g_node s \<and> g_new_n t = g_new_n s \<and> g_new_root t = g_new_root s \<and>
     (\<exists>cus used. map erase cus = us \<and> loop_at t bp ps (ds @ cus) [] \<and>
        set (concat (map addrs cus)) \<subseteq> set used \<and> pool (g_mem s) = used @ pool (g_mem t) \<and>
        along s t (insert (g_new_n s) (set used))))"

lemma slots_done_Nil:
  "loop_at s bp ps ds [] \<Longrightarrow> slots_done s bp ps ds ([], length (pool (g_mem s))) s"
  by (auto simp: slots_done_def along_def intro!: exI [of _ "[]"])

lemma slots_done_Cons:
  assumes d: "slot_done s i cu used t" and r: "slots_done t bp ps (ds @ [cu]) (us, k) v"
  shows "slots_done s bp ps ds (erase cu # us, k) v"
proof -
  from r obtain cus used' where c: "map erase cus = us" "loop_at v bp ps ((ds @ [cu]) @ cus) []"
    "set (concat (map addrs cus)) \<subseteq> set used'" "pool (g_mem t) = used' @ pool (g_mem v)"
    "along t v (insert (g_new_n t) (set used'))"
    by (auto simp: slots_done_def)
  have al: "along s v (insert (g_new_n s) (set (used @ used')))"
    by (rule along_trans [OF _ c(5)]) (use d in \<open>auto simp: slot_done_def\<close>)
  have ad: "set (concat (map addrs (cu # cus))) \<subseteq> set (used @ used')"
    using d c(3) by (auto simp: slot_done_def)
  have "map erase (cu # cus) = erase cu # us" using c(1) by simp
  moreover have "loop_at v bp ps (ds @ cu # cus) []" using c(2) by simp
  moreover have "pool (g_mem s) = (used @ used') @ pool (g_mem v)"
    using c(4) d by (simp add: slot_done_def)
  ultimately have "\<exists>cus used. map erase cus = erase cu # us \<and> loop_at v bp ps (ds @ cus) [] \<and>
      set (concat (map addrs cus)) \<subseteq> set used \<and> pool (g_mem s) = used @ pool (g_mem v) \<and>
      along s v (insert (g_new_n s) (set used))"
    using al ad by (intro exI [of _ "cu # cus"] exI [of _ "used @ used'"] conjI)
  then show ?thesis using d r by (simp add: slots_done_def slot_done_def)
qed

lemma slots_sim:
  assumes "loop_at s bp ps ds rest" and "nleaves (Node (map erase rest)) < 2 ^ 64"
    and "\<And>t. t \<in> set rest \<Longrightarrow> is_CNode t \<Longrightarrow> child_sim retry it t"
  shows "outcome (gc_step retry it) (insert (g_new_n s) (set (pool (g_mem s)))) s
    (gcts retry (\<lambda>p. it (assoc_array_ptr_to_leaf p)) (length (pool (g_mem s))) (map erase rest))
    (slots_done s bp ps ds)"
  using assms
proof (induction rest arbitrary: s ds)
  case Nil
  then show ?case using slots_done_Nil by (simp add: outcome_Inr)
next
  case (Cons t rest)
  let ?step = "gc_step retry it" and ?W = "insert (g_new_n s) (set (pool (g_mem s)))"
  let ?keep = "\<lambda>p. it (assoc_array_ptr_to_leaf p)"
  let ?P = "\<lambda>(u, k) s'. k = length (pool (g_mem s')) \<and>
    (\<exists>cu used. erase cu = u \<and> slot_done s (length ds) cu used s')"
  have turn: "outcome ?step ?W s (gct retry ?keep (length (pool (g_mem s))) (erase t)) ?P"
    by (rule turn_sim [OF Cons.prems(1)]) (use Cons.prems(2,3) in auto)
  have rest: "outcome ?step ?W s'
      (case x of (u, k') \<Rightarrow> bindR (gcts retry ?keep k' (map erase rest))
        (\<lambda>(us, k''). Inr (u # us, k''))) (slots_done s bp ps ds)"
    if "?P x s'" for x s'
  proof -
    obtain u k' where x: "x = (u, k')" by (cases x)
    with that obtain cu used where k: "k' = length (pool (g_mem s'))" and u: "erase cu = u"
      and d: "slot_done s (length ds) cu used s'" by auto
    have l: "loop_at s' bp ps (ds @ [cu]) rest" by (rule loop_at_next [OF Cons.prems(1) d])
    have small: "nleaves (Node (map erase rest)) < 2 ^ 64" using Cons.prems(2) by simp
    have "outcome ?step (insert (g_new_n s') (set (pool (g_mem s')))) s'
        (gcts retry ?keep k' (map erase rest)) (slots_done s' bp ps (ds @ [cu]))"
      unfolding k by (rule Cons.IH [OF l small]) (use Cons.prems(3) in simp)
    moreover have "insert (g_new_n s') (set (pool (g_mem s'))) \<subseteq> ?W"
      using d by (auto simp: slot_done_def)
    ultimately have "outcome ?step ?W s' (gcts retry ?keep k' (map erase rest))
        (slots_done s' bp ps (ds @ [cu]))"
      using outcome_weaken by blast
    then have "outcome ?step ?W s' (bindR (gcts retry ?keep k' (map erase rest))
        (\<lambda>y. Inr (case y of (us, k'') \<Rightarrow> (u # us, k'')))) (slots_done s bp ps ds)"
      by (rule outcome_map) (use slots_done_Cons [OF d] u in auto)
    then show ?thesis by (simp add: x case_prod_unfold)
  qed
  have "outcome ?step ?W s (bindR (gct retry ?keep (length (pool (g_mem s))) (erase t))
      (\<lambda>x. case x of (u, k') \<Rightarrow> bindR (gcts retry ?keep k' (map erase rest))
        (\<lambda>(us, k''). Inr (u # us, k'')))) (slots_done s bp ps ds)"
    by (rule outcome_bind [where P = ?P, OF turn rest order_refl order_refl])
  then show ?case by simp
qed

section \<open>A node: its slots, the compression, and nothing to excise\<close>

definition node_done :: "gc_state \<Rightarrow> ptr \<Rightarrow> u8 \<Rightarrow> ptr tr list \<times> nat \<Rightarrow> gc_state \<Rightarrow> bool" where
  "node_done s bp ps = (\<lambda>(vs, k) t. k = length (pool (g_mem t)) \<and>
     g_node t = g_node s \<and> g_new_n t = g_new_n s \<and> g_new_root t = g_new_root s \<and>
     counts_branch vs t \<and>
     (\<exists>cvs used. map erase cvs = vs \<and> at_node (g_mem t) (g_new_n s) bp ps cvs \<and>
        set (concat (map addrs cvs)) \<subseteq> set used \<and> pool (g_mem s) = used @ pool (g_mem t) \<and>
        along s t (insert (g_new_n s) (set used))))"

lemma node_doneI:
  assumes d: "slots_done s bp ps [] (us, k) t" and t': "along t t' {}"
      "g_node t' = g_node t" "g_new_n t' = g_new_n t" "g_new_root t' = g_new_root t"
      "pool (g_mem t') = pool (g_mem t)"
    and cu: "map erase cus = us" "loop_at t bp ps cus []" "set (concat (map addrs cus)) \<subseteq> set used"
      "pool (g_mem s) = used @ pool (g_mem t)" "along s t (insert (g_new_n s) (set used))"
    and c: "compressing t' bp ps (set (concat (map addrs cus))) vs v" "counts_branch vs v"
      "along t' v (insert (g_new_n t') (set (concat (map addrs cus))))"
  shows "node_done s bp ps (vs, k) v"
proof -
  from c(1) obtain cvs where v: "map erase cvs = vs" "at_node (g_mem v) (g_new_n t') bp ps cvs"
    "set (concat (map addrs cvs)) \<subseteq> set (concat (map addrs cus))"
    unfolding compressing_def by blast
  have n: "g_new_n t' = g_new_n s" "g_node t' = g_node s" "g_new_root t' = g_new_root s"
    and k: "k = length (pool (g_mem t))"
    using d t' by (simp_all add: slots_done_def)
  have w: "insert (g_new_n t') (set (concat (map addrs cus))) \<subseteq> insert (g_new_n s) (set used)"
    unfolding n(1) by (rule insert_mono [OF cu(3)])
  have "along t v (insert (g_new_n s) (set used))"
    by (rule along_trans [OF t'(1) along_mono [OF c(3) w]]) simp
  then have a: "along s v (insert (g_new_n s) (set used))"
    by (rule along_trans [OF cu(5)]) simp
  have "set (concat (map addrs cvs)) \<subseteq> set used" by (rule order_trans [OF v(3) cu(3)])
  moreover have "g_node v = g_node t'" "g_new_n v = g_new_n t'" "g_new_root v = g_new_root t'"
    "pool (g_mem v) = pool (g_mem t')"
    using c(1) unfolding compressing_def by blast+
  ultimately show ?thesis
    unfolding node_done_def prod.case
    using v(1,2) n k c(2) cu(4) t'(5) a by (intro conjI exI [of _ cvs] exI [of _ used]) simp_all
qed

context retry_policy
begin

lemma node_sim:
  assumes l: "loop_at s bp ps [] ts" and small: "nleaves (Node (map erase ts)) < 2 ^ 64"
    and IH: "\<And>t. t \<in> set ts \<Longrightarrow> is_CNode t \<Longrightarrow> child_sim retry it t"
  shows "outcome (gc_step retry it) (insert (g_new_n s) (set (pool (g_mem s)))) s
    (bindR (gcts retry (\<lambda>p. it (assoc_array_ptr_to_leaf p)) (length (pool (g_mem s)))
       (map erase ts)) (\<lambda>(us, k). bindR (compress retry us) (\<lambda>vs. Inr (vs, k))))
    (\<lambda>x t. g_label t = ExciseShortcut \<and> node_done s bp ps x t)"
proof -
  let ?step = "gc_step retry it" and ?W = "insert (g_new_n s) (set (pool (g_mem s)))"
  let ?r = "gcts retry (\<lambda>p. it (assoc_array_ptr_to_leaf p)) (length (pool (g_mem s))) (map erase ts)"
  let ?Q = "\<lambda>x t. g_label t = ExciseNode \<and> node_done s bp ps x t"
  have slots: "outcome ?step ?W s ?r (slots_done s bp ps [])"
    by (rule slots_sim [OF l small IH])
  have comp: "outcome ?step ?W t (case x of (us, k) \<Rightarrow> bindR (compress retry us)
      (\<lambda>vs. Inr (vs, k))) ?Q"
    if r: "?r = Inr x" and d: "slots_done s bp ps [] x t" for x t
  proof -
    obtain us k where x: "x = (us, k)" by (cases x)
    from d x obtain cus used where cu: "map erase cus = us" "loop_at t bp ps cus []"
      "set (concat (map addrs cus)) \<subseteq> set used" "pool (g_mem s) = used @ pool (g_mem t)"
      "along s t (insert (g_new_n s) (set used))" and n: "g_new_n t = g_new_n s"
      unfolding slots_done_def by auto
    let ?t = "t\<lparr>g_label := RetryCompress\<rparr>"
    have st: "?step t = Inr ?t"
      using cu(2) by (simp add: loop_at_def gc_step_def gc_continue_node_def)
    have at: "at_node (g_mem ?t) (g_new_n ?t) bp ps cus" using cu(2) by (simp add: loop_at_def)
    have "list_all fan_out (map erase ts)"
      using l rep_fan_out(2) unfolding loop_at_def by blast
    from gct_shape(2) [OF r [unfolded x] this]
    have "nleaves (Node us) \<le> nleaves (Node (map erase ts))"
      by (simp only: nleaves_eq_size) (metis size_filter_mset_lesseq)
    then have sm: "nleaves (Node (map erase cus)) < 2 ^ 64"
      unfolding cu(1) using small by (rule le_less_trans)
    note c = compress_sim [OF at _ sm, of it]
    have "outcome ?step (insert (g_new_n ?t) (set (concat (map addrs cus)))) ?t
        (compress retry us) (\<lambda>vs v. ?Q (vs, k) v)"
    proof (rule outcome_mono)
      show "outcome ?step (insert (g_new_n ?t) (set (concat (map addrs cus)))) ?t (compress retry us)
        (\<lambda>vs v. g_label v = ExciseNode \<and> counts_branch vs v \<and>
          compressing ?t bp ps (set (concat (map addrs cus))) vs v)"
        using c cu(1) by simp
    next
      fix vs v
      assume a: "along ?t v (insert (g_new_n ?t) (set (concat (map addrs cus))))"
        and p: "g_label v = ExciseNode \<and> counts_branch vs v \<and>
          compressing ?t bp ps (set (concat (map addrs cus))) vs v"
      have "node_done s bp ps (vs, k) v"
        by (rule node_doneI [OF d [unfolded x] _ _ _ _ _ cu _ _ a])
          (use p in \<open>simp_all add: along_def\<close>)
      then show "?Q (vs, k) v" using p by blast
    qed
    then have "outcome ?step (insert (g_new_n ?t) (set (concat (map addrs cus)))) ?t
        (bindR (compress retry us) (\<lambda>vs. Inr (vs, k))) ?Q"
      by (rule outcome_map)
    moreover have "insert (g_new_n ?t) (set (concat (map addrs cus))) \<subseteq> ?W"
      using cu(3,4) n by auto
    ultimately have out: "outcome ?step ?W ?t
        (case x of (us, k) \<Rightarrow> bindR (compress retry us) (\<lambda>vs. Inr (vs, k))) ?Q"
      unfolding x prod.case by (rule outcome_weaken)
    have rs: "reaches ?step t ?t" using st by (rule reaches1)
    have al: "along t ?t ?W" by (simp add: along_def)
    from outcome_reaches [where P = ?Q, OF rs al out order_refl] show ?thesis .
  qed
  have out: "outcome ?step ?W s
      (bindR ?r (\<lambda>(us, k). bindR (compress retry us) (\<lambda>vs. Inr (vs, k)))) ?Q"
    by (rule outcome_bind [where P = "slots_done s bp ps []", OF slots comp order_refl order_refl])
  show ?thesis
  proof (rule outcome_steps [where P = ?Q, OF out])
    fix x t
    assume q: "?Q x t"
    then obtain cvs where at: "at_node (g_mem t) (g_new_n t) bp ps cvs"
      unfolding node_done_def by (auto split: prod.splits)
    have st: "?step t = Inr (t\<lparr>g_label := ExciseShortcut\<rparr>)"
      by (rule excise_node_skip [OF at]) (use q in blast)
    have "node_done s bp ps x (t\<lparr>g_label := ExciseShortcut\<rparr>) = node_done s bp ps x t"
      by (simp add: node_done_def counts_branch_def along_def split: prod.splits)
    then show "\<exists>u. reaches ?step t u \<and> g_mem u = g_mem t \<and> g_array u = g_array t \<and>
        g_edit u = g_edit t \<and> g_label u = ExciseShortcut \<and> node_done s bp ps x u"
      using reaches1 [of ?step, OF st] q by (intro exI [of _ "t\<lparr>g_label := ExciseShortcut\<rparr>"]) simp
  qed
qed

end

section \<open>Down to a child, and back\<close>

lemma at_node_rep:
  assumes "at_node m x bp (of_nat i) cvs" and "aligned x"
    and "\<exists>n. nodes m x = Some n \<and> nr_leaves_on_branch n = of_nat (nleaves (Node (map erase cvs)))"
  shows "rep True (nodes m) bp i (CNode x cvs)" and "distinct (addrs (CNode x cvs))"
  using assms by (auto simp: at_node_def)

lemma at_node_empty:
  assumes "h = nodes m" and "h x = Some n" and "slots n = replicate ASSOC_ARRAY_FAN_OUT 0"
  shows "at_node m x (back_pointer n) (parent_slot n) (replicate ASSOC_ARRAY_FAN_OUT CHole)"
  using assms by (auto simp: at_node_def reps_nth)

lemma descend_dup:
  assumes "g_label s = Descend" and "g_cursor s = assoc_array_node_to_ptr a" and "aligned a"
  shows "reaches (gc_step retry it) s (s\<lparr>g_label := DupNode\<rparr>)"
  by (rule reaches1) (use assms in \<open>simp add: gc_step_def gc_descend_def\<close>)

lemma dup_oom:
  assumes "g_label s = Descend" and "g_cursor s = assoc_array_node_to_ptr a" and "aligned a"
    and "pool (g_mem s) = []"
  shows "reaches (gc_step retry it) s (s\<lparr>g_label := Enomem\<rparr>)"
  by (rule rtranclp_trans [OF descend_dup [OF assms(1-3)] reaches1])
    (use assms(4) in \<open>simp add: gc_step_def gc_dup_node_def malloc_def\<close>)

text \<open>\<open>t\<close> is at the first slot of the child's copy, at \<open>x\<close>, that \<open>s\<close> went down to make.\<close>

definition child_down :: "gc_state \<Rightarrow> nat \<Rightarrow> addr \<Rightarrow> ct list \<Rightarrow> addr \<Rightarrow> assoc_array_node \<Rightarrow> gc_state \<Rightarrow> bool" where
  "child_down s i a ts x nb t \<longleftrightarrow> g_node t = a \<and> g_new_n t = x \<and>
     g_new_root t = g_new_root s \<and> pool (g_mem s) = x # pool (g_mem t) \<and>
     along s t {x, g_new_n s} \<and>
     loop_at t (assoc_array_node_to_ptr (g_new_n s)) (of_nat i) [] ts \<and>
     nodes (g_mem s) (g_new_n s) = Some nb \<and> nodes (g_mem t) (g_new_n s) =
       Some (nb\<lparr>slots := (slots nb)[i := assoc_array_node_to_ptr x]\<rparr>)"

lemma child_start:
  assumes p: "child_pre s i (CNode a ts)" and x: "pool (g_mem s) = x # xs"
    and nb: "nodes (g_mem s) (g_new_n s) = Some nb"
  shows "\<exists>t. reaches (gc_step retry it) s t \<and> child_down s i a ts x nb t"
proof -
  let ?b = "g_new_n s" and ?m = "g_mem s" and ?p = "assoc_array_node_to_ptr x"
  from p obtain n where a: "aligned a" "length ts = 16" and n: "nodes ?m a = Some n"
    "parent_slot n = of_nat i" "slots n = map ptr_of ts"
    and r: "reps False (nodes ?m) (assoc_array_node_to_ptr a) 0 ts"
    and b: "?b \<notin> set (addrs (CNode a ts))" and len: "length (slots nb) = 16" "i < 16"
    by (auto simp: child_pre_def nb)
  from p x have fp: "distinct xs" "x \<notin> set xs" "aligned x" "nodes ?m x = None"
    "\<And>y. y \<in> set xs \<Longrightarrow> aligned y \<and> nodes ?m y = None"
    by (auto simp: child_pre_def fresh_pool_def)
  then have xb: "x \<noteq> ?b" "x \<noteq> a" using nb n(1) by auto
  define nx where "nx = zero_node\<lparr>back_pointer := assoc_array_node_to_ptr ?b, parent_slot := of_nat i\<rparr>"
  let ?nb = "nb\<lparr>slots := (slots nb)[i := ?p]\<rparr>"
  let ?m' = "put_node ?b ?nb (put_node x nx (?m\<lparr>pool := xs\<rparr>))"
  let ?t = "s\<lparr>g_mem := ?m', g_label := ContinueNode, g_node := a, g_new_n := x, g_new_parent := ?p,
    g_new_ptr_pp := NullRef, g_slot := 0\<rparr>"
  have "x \<noteq> 0" using fp(3) by (simp add: aligned_def)
  then have st: "gc_step retry it (s\<lparr>g_label := DupNode\<rparr>) = Inr ?t"
    using p a x nb n xb len
    by (simp add: child_pre_def gc_step_def gc_dup_node_def malloc_def store_ref_def mem_simps
        nx_def Let_def)
  have "g_label s = Descend" "g_cursor s = assoc_array_node_to_ptr a"
    using p by (simp_all add: child_pre_def)
  from rtranclp_trans [OF descend_dup [OF this a(1)] reaches1]
  have rs: "reaches (gc_step retry it) s ?t" using st by blast
  have nx: "nodes ?m' x = Some nx" "slots nx = replicate 16 0" using xb
    by (simp_all add: nx_def zero_node_def)
  from at_node_empty [OF refl nx] have at: "at_node ?m' x (assoc_array_node_to_ptr ?b) (of_nat i)
      ([] @ replicate (length ts) CHole)"
    using a(2) by (simp add: nx_def)
  have xt: "x \<notin> set (concat (map addrs ts))" using rep_live(2) [OF r] fp(4) by blast
  have r': "reps False (nodes ?m') (assoc_array_node_to_ptr a) 0 ts"
    using r xt b by simp
  have "fresh_pool ?m'" using fp nb by (auto simp: fresh_pool_def)
  then have "loop_at ?t (assoc_array_node_to_ptr ?b) (of_nat i) [] ts"
    using at r' xt a fp(3) xb n b by (auto simp: loop_at_def)
  moreover have "along s ?t {x, ?b}" by (auto simp: along_def frame_def)
  ultimately show ?thesis using rs x nb by (intro exI [of _ ?t]) (simp add: child_down_def)
qed

lemma child_back_steps:
  assumes l: "g_label v = ExciseShortcut" and b: "aligned b" "aligned a'"
    and x: "nodes (g_mem v) (g_new_n v) = Some n" "back_pointer n = assoc_array_node_to_ptr b"
    and o: "nodes (g_mem v) (g_node v) = Some q" "back_pointer q = assoc_array_node_to_ptr a'"
      "parent_slot q = of_nat i" "i < ASSOC_ARRAY_FAN_OUT"
  shows "reaches (gc_step retry it) v (v\<lparr>g_new_n := b, g_new_parent := assoc_array_node_to_ptr b,
    g_cursor := assoc_array_node_to_ptr a', g_node := a', g_slot := int (Suc i),
    g_label := ContinueNode\<rparr>)"
proof -
  let ?v = "v\<lparr>g_new_n := b, g_new_parent := assoc_array_node_to_ptr b, g_label := AscendOldTree\<rparr>"
  have 1: "gc_step retry it v = Inr ?v"
    using l b x by (simp add: gc_step_def gc_excise_shortcut_def mem_simps)
  have "uint (of_nat i :: u8) = int i" using o(4) by (simp add: unsigned_of_nat take_bit_nat_eq_self)
  then have 2: "gc_step retry it ?v = Inr (?v\<lparr>g_cursor := assoc_array_node_to_ptr a',
      g_node := a', g_slot := int (Suc i), g_label := ContinueNode\<rparr>)"
    using b o by (simp add: gc_step_def gc_ascend_old_tree_def mem_simps)
  show ?thesis
    using rtranclp_trans [OF reaches1 [of "gc_step retry it", OF 1]
        reaches1 [of "gc_step retry it", OF 2]] by simp
qed

lemma child_back:
  assumes p: "child_pre s i (CNode a ts)" and c: "child_down s i a ts x nb t"
    and d: "node_done t (assoc_array_node_to_ptr (g_new_n s)) (of_nat i) (vs, k) v"
    and l: "g_label v = ExciseShortcut"
  shows "\<exists>u. reaches (gc_step retry it) v u \<and> g_mem u = g_mem v \<and> g_array u = g_array v \<and>
    g_edit u = g_edit v \<and> k = length (pool (g_mem u)) \<and>
    (\<exists>cu used. erase cu = Node vs \<and> slot_done s i cu used u)"
proof -
  let ?b = "g_new_n s" and ?m = "g_mem s" and ?bp = "assoc_array_node_to_ptr (g_new_n s)"
  from c have t: "g_node t = a" "g_new_n t = x" "g_new_root t = g_new_root s"
    "pool ?m = x # pool (g_mem t)" "along s t {x, ?b}" "loop_at t ?bp (of_nat i) [] ts"
    "nodes ?m ?b = Some nb"
    "nodes (g_mem t) ?b = Some (nb\<lparr>slots := (slots nb)[i := assoc_array_node_to_ptr x]\<rparr>)"
    by (simp_all add: child_down_def)
  from d obtain cvs used where v: "map erase cvs = vs" "at_node (g_mem v) x ?bp (of_nat i) cvs"
    "set (concat (map addrs cvs)) \<subseteq> set used" "pool (g_mem t) = used @ pool (g_mem v)"
    "along t v (insert x (set used))" and k: "k = length (pool (g_mem v))"
    and g: "g_node v = a" "g_new_n v = x" "g_new_root v = g_new_root s"
    and cb: "counts_branch vs v"
    unfolding node_done_def by (auto simp: t)
  from p obtain q where q: "nodes ?m a = Some q" "back_pointer q = assoc_array_node_to_ptr (g_node s)"
    "parent_slot q = of_nat i" "i < 16" "aligned ?b" "aligned (g_node s)" "a \<noteq> ?b"
    and fp: "fresh_pool ?m"
    by (auto simp: child_pre_def)
  have dead: "nodes ?m y = None" if "y = x \<or> y \<in> set used" for y
    using that fp t(4) v(4) by (auto simp: fresh_pool_def)
  have not: "a \<noteq> x" "a \<notin> set used" "?b \<noteq> x" "?b \<notin> set used"
    using dead [of a] dead [of ?b] q(1) t(7) by auto
  have va: "nodes (g_mem v) a = Some q"
    using q(1,7) not t(5) v(5) by (simp add: along_def frame_def)
  have vb: "nodes (g_mem v) ?b = Some (nb\<lparr>slots := (slots nb)[i := assoc_array_node_to_ptr x]\<rparr>)"
    using t(8) not v(5) by (simp add: along_def frame_def)
  obtain n where n: "nodes (g_mem v) x = Some n" "back_pointer n = ?bp"
    using v(2) by (auto simp: at_node_def)
  define u where "u = v\<lparr>g_new_n := ?b, g_new_parent := ?bp,
    g_cursor := assoc_array_node_to_ptr (g_node s), g_node := g_node s, g_slot := int (Suc i),
    g_label := ContinueNode\<rparr>"
  have r: "reaches (gc_step retry it) v u"
    unfolding u_def by (rule child_back_steps [OF l q(5,6)]) (use n va g q in auto)
  have "aligned x" using t(6) by (simp add: loop_at_def t(2))
  from at_node_rep [OF v(2) this] cb g(2) v(1)
  have rx: "rep True (nodes (g_mem v)) ?bp i (CNode x cvs)" "distinct (addrs (CNode x cvs))"
    by (simp_all add: counts_branch_def)
  have "along s v (insert ?b (set (x # used)))"
    by (rule along_trans [OF t(5) v(5)]) auto
  then have "along s u (insert ?b (set (x # used)))" by (simp add: u_def along_def)
  moreover have "set (addrs (CNode x cvs)) \<subseteq> set (x # used)" using v(3) by auto
  moreover have "g_new_parent s = ?bp" using p by (simp add: child_pre_def)
  ultimately have "slot_done s i (CNode x cvs) (x # used) u"
    using rx vb t(4,7) v(4) g(3) unfolding slot_done_def
    by (simp add: u_def del: addrs.simps rep.simps)
  moreover have "erase (CNode x cvs) = Node vs" using v(1) by simp
  moreover have "g_mem u = g_mem v" "g_array u = g_array v" "g_edit u = g_edit v"
    by (simp_all add: u_def)
  ultimately show ?thesis using r k by metis
qed

section \<open>The induction\<close>

context retry_policy
begin

lemma child_sim_node:
  assumes IH: "\<And>t. t \<in> set ts \<Longrightarrow> is_CNode t \<Longrightarrow> child_sim retry it t"
  shows "child_sim retry it (CNode a ts)"
  unfolding child_sim_def
proof (intro allI impI, elim conjE)
  fix s i
  assume p: "child_pre s i (CNode a ts)" and small: "nleaves (erase (CNode a ts)) < 2 ^ 64"
  let ?step = "gc_step retry it" and ?W = "insert (g_new_n s) (set (pool (g_mem s)))"
  let ?keep = "\<lambda>p. it (assoc_array_ptr_to_leaf p)"
  let ?P = "\<lambda>(u, k) s'. k = length (pool (g_mem s')) \<and>
    (\<exists>cu used. erase cu = u \<and> slot_done s i cu used s')"
  show "outcome ?step ?W s (gct retry ?keep (length (pool (g_mem s))) (erase (CNode a ts))) ?P"
  proof (cases "pool (g_mem s)")
    case Nil
    have "g_label s = Descend" "g_cursor s = assoc_array_node_to_ptr a" "aligned a"
      using p by (auto simp: child_pre_def)
    from dup_oom [OF this Nil] have "reaches ?step s (s\<lparr>g_label := Enomem\<rparr>)" .
    then show ?thesis using Nil by (auto simp: outcome_def along_def)
  next
    case (Cons x xs)
    from p obtain nb where nb: "nodes (g_mem s) (g_new_n s) = Some nb"
      by (auto simp: child_pre_def)
    from child_start [OF p Cons nb] obtain t where t: "reaches ?step s t"
      "child_down s i a ts x nb t" by blast
    then have c: "pool (g_mem t) = xs" "g_new_n t = x" "along s t {x, g_new_n s}"
      "loop_at t (assoc_array_node_to_ptr (g_new_n s)) (of_nat i) [] ts"
      using Cons by (simp_all add: child_down_def)
    let ?r = "bindR (gcts retry ?keep (length xs) (map erase ts))
      (\<lambda>(us, k). bindR (compress retry us) (\<lambda>vs. Inr (vs, k)))"
    have sm: "nleaves (Node (map erase ts)) < 2 ^ 64" using small by simp
    have "outcome ?step (insert x (set xs)) t ?r (\<lambda>x v. g_label v = ExciseShortcut \<and>
        node_done t (assoc_array_node_to_ptr (g_new_n s)) (of_nat i) x v)"
      using node_sim [OF c(4) sm IH] c(1,2) by simp
    then have "outcome ?step (insert x (set xs)) t ?r (\<lambda>(vs, k) v. ?P (Node vs, k) v)"
    proof (rule outcome_steps)
      fix y v
      assume y: "g_label v = ExciseShortcut \<and>
        node_done t (assoc_array_node_to_ptr (g_new_n s)) (of_nat i) y v"
      obtain vs k where yk: "y = (vs, k)" by (cases y)
      show "\<exists>u. reaches ?step v u \<and> g_mem u = g_mem v \<and> g_array u = g_array v \<and>
          g_edit u = g_edit v \<and> (case y of (vs, k) \<Rightarrow> \<lambda>v. ?P (Node vs, k) v) u"
        using child_back [OF p t(2), of vs k v retry it] y yk by simp
    qed
    then have "outcome ?step (insert x (set xs)) t
        (bindR ?r (\<lambda>y. Inr (case y of (vs, k) \<Rightarrow> (Node vs, k)))) ?P"
      by (rule outcome_map) auto
    then have out: "outcome ?step (insert x (set xs)) t
        (gct retry ?keep (length (pool (g_mem s))) (erase (CNode a ts))) ?P"
      by (simp add: Cons bindR_assoc case_prod_unfold)
    have al: "along s t ?W" using c(3) by (rule along_mono) (simp add: Cons)
    have W: "insert x (set xs) \<subseteq> ?W" using Cons by auto
    from outcome_reaches [where P = ?P, OF t(1) al out W] show ?thesis .
  qed
qed

lemma child_sim_all: "is_CNode t \<Longrightarrow> child_sim retry it t"
proof (induction t)
  case (CNode a ts)
  then show ?case by (intro child_sim_node) auto
qed auto

end

section \<open>The root\<close>

text \<open>
  An array whose root is a node that represents \<open>t\<close> in the heap, with the
  allocator's pool fresh. The leaf counts of the old nodes may be anything.
\<close>

definition wf_array :: "mem \<Rightarrow> assoc_array \<Rightarrow> ct \<Rightarrow> bool" where
  "wf_array m array t \<longleftrightarrow> is_CNode t \<and> root array = ptr_of t \<and> rep False (nodes m) 0 0 t \<and>
     fresh_pool m \<and> nleaves (erase t) < 2 ^ 64"

lemma root_start:
  assumes l: "g_label s = Descend" "g_cursor s = assoc_array_node_to_ptr a"
      "g_new_ptr_pp s = RootRef" "g_new_parent s = 0"
    and r: "rep False (nodes (g_mem s)) 0 0 (CNode a ts)" and f: "fresh_pool (g_mem s)"
    and x: "pool (g_mem s) = x # xs"
  shows "\<exists>t. reaches (gc_step retry it) s t \<and> g_new_n t = x \<and>
    g_new_root t = assoc_array_node_to_ptr x \<and> pool (g_mem t) = xs \<and> along s t {x} \<and>
    loop_at t 0 0 [] ts"
proof -
  let ?m = "g_mem s" and ?p = "assoc_array_node_to_ptr x"
  from r obtain n where a: "aligned a" "length ts = 16" and n: "nodes ?m a = Some n"
    "parent_slot n = 0" "slots n = map ptr_of ts"
    and rs: "reps False (nodes ?m) (assoc_array_node_to_ptr a) 0 ts" by auto
  from f x have fp: "distinct xs" "x \<notin> set xs" "aligned x" "nodes ?m x = None"
    "\<And>y. y \<in> set xs \<Longrightarrow> aligned y \<and> nodes ?m y = None"
    by (auto simp: fresh_pool_def)
  then have xa: "x \<noteq> a" "x \<noteq> 0" using n(1) by (auto simp: aligned_def)
  let ?m' = "put_node x zero_node (?m\<lparr>pool := xs\<rparr>)"
  let ?t = "s\<lparr>g_mem := ?m', g_label := ContinueNode, g_node := a, g_new_n := x, g_new_parent := ?p,
    g_new_root := ?p, g_new_ptr_pp := NullRef, g_slot := 0\<rparr>"
  have z: "zero_node\<lparr>back_pointer := 0, parent_slot := 0\<rparr> = zero_node" by (simp add: zero_node_def)
  have st: "gc_step retry it (s\<lparr>g_label := DupNode\<rparr>) = Inr ?t"
    using l a x n xa
    by (simp add: gc_step_def gc_dup_node_def malloc_def store_ref_def mem_simps Let_def z)
  have rc: "reaches (gc_step retry it) s ?t"
    using rtranclp_trans [OF descend_dup [OF l(1,2) a(1)] reaches1] st by blast
  have "nodes ?m' x = Some zero_node" "slots zero_node = replicate 16 0"
    by (simp_all add: zero_node_def)
  from at_node_empty [OF refl this] have at: "at_node ?m' x 0 0 ([] @ replicate (length ts) CHole)"
    using a(2) by (simp add: zero_node_def)
  have xt: "x \<notin> set (concat (map addrs ts))" using rep_live(2) [OF rs] fp(4) by blast
  have r': "reps False (nodes ?m') (assoc_array_node_to_ptr a) 0 ts" using rs xt by simp
  have "fresh_pool ?m'" using fp by (auto simp: fresh_pool_def)
  then have "loop_at ?t 0 0 [] ts"
    using at r' xt a fp(3) xa n by (auto simp: loop_at_def)
  moreover have "along s ?t {x}" by (auto simp: along_def frame_def)
  ultimately show ?thesis using rc by (intro exI [of _ ?t]) simp
qed

text \<open>
  What the specification's result \<open>r\<close> means for the end of a run on \<open>m\<close> and
  \<open>array\<close>. Only addresses of the pool are ever written: the old tree stays.
\<close>

definition old_kept :: "mem \<Rightarrow> mem \<Rightarrow> bool" where
  "old_kept m m' \<longleftrightarrow> shorts m' = shorts m \<and>
     (\<forall>x. x \<notin> set (pool m) \<longrightarrow> nodes m' x = nodes m x \<and> edits m' x = edits m x)"

definition gc_result :: "mem \<Rightarrow> assoc_array \<Rightarrow> tr_err + ptr tr \<times> nat \<Rightarrow> gc_stop \<Rightarrow> bool" where
  "gc_result m array r stop = (case r of
       Inl TNoMem \<Rightarrow> (\<exists>m'. stop = Returned (- ENOMEM) m' array \<and> old_kept m m')
     | Inl (TBug b) \<Rightarrow> stop = Bug b
     | Inl TFault \<Rightarrow> stop = Fault
     | Inr (u, k) \<Rightarrow> (\<exists>m' array' t'. stop = Returned 0 m' array' \<and> old_kept m m' \<and>
         erase t' = u \<and> root array' = ptr_of t' \<and> rep True (nodes m') 0 0 t' \<and>
         distinct (addrs t') \<and> set (addrs t') \<subseteq> set (pool m) \<and>
         nr_leaves_on_tree array' = of_nat (nleaves u) \<and> length (pool m') = k))"

lemma root_finish:
  assumes d: "node_done t 0 0 (vs, k) v" and l: "g_label v = ExciseShortcut"
    and t: "g_new_root t = assoc_array_node_to_ptr (g_new_n t)" "aligned (g_new_n t)"
    and e: "edits (g_mem v) (g_edit v) = Some q"
  shows "\<exists>m' array' t'. gc_loop (gc_step retry it) v = Some (Returned 0 m' array') \<and>
    nodes m' = nodes (g_mem v) \<and> shorts m' = shorts (g_mem v) \<and> pool m' = pool (g_mem v) \<and>
    (\<forall>x. x \<noteq> g_edit v \<longrightarrow> edits m' x = edits (g_mem v) x) \<and>
    erase t' = Node vs \<and> root array' = ptr_of t' \<and> rep True (nodes m') 0 0 t' \<and>
    distinct (addrs t') \<and> set (addrs t') \<subseteq> insert (g_new_n t) (set (pool (g_mem t))) \<and>
    nr_leaves_on_tree array' = of_nat (nleaves (Node vs)) \<and> length (pool m') = k"
proof -
  from d obtain cvs used where v: "map erase cvs = vs" "at_node (g_mem v) (g_new_n t) 0 0 cvs"
    "set (concat (map addrs cvs)) \<subseteq> set used" "pool (g_mem t) = used @ pool (g_mem v)"
    and g: "g_new_n v = g_new_n t" "g_new_root v = g_new_root t" "k = length (pool (g_mem v))"
    and cb: "counts_branch vs v"
    by (auto simp: node_done_def)
  have at: "at_node (g_mem v) (g_new_n t) 0 (of_nat 0) cvs" using v(2) by simp
  from at_node_rep [OF at t(2)] cb g(1) v(1)
  have rx: "rep True (nodes (g_mem v)) 0 0 (CNode (g_new_n t) cvs)"
    "distinct (addrs (CNode (g_new_n t) cvs))"
    by (simp_all add: counts_branch_def)
  have nv: "g_nr_leaves_on_tree v = of_nat (nleaves (Node vs))"
    using cb by (simp add: counts_branch_def)
  obtain n where n: "nodes (g_mem v) (g_new_n t) = Some n" "back_pointer n = 0"
    using v(2) by (auto simp: at_node_def)
  let ?v = "v\<lparr>g_label := GcComplete\<rparr>"
  have 1: "gc_step retry it v = Inr ?v"
    using l n g(1) by (simp add: gc_step_def gc_excise_shortcut_def mem_simps)
  have 2: "gc_step retry it ?v = Inl (gc_complete ?v)" by (simp add: gc_step_def)
  have run: "gc_loop (gc_step retry it) v = Some (gc_complete ?v)"
    using gc_loop_reaches [OF reaches1 [of "gc_step retry it", OF 1]] gc_loop_stop [of "gc_step retry it", OF 2] by simp
  let ?m' = "(g_mem v)\<lparr>edits := (edits (g_mem v))(g_edit v \<mapsto> q\<lparr>set0_to := g_new_root v\<rparr>)\<rparr>"
  let ?a' = "(g_array v)\<lparr>root := g_new_root v, nr_leaves_on_tree := g_nr_leaves_on_tree v\<rparr>"
  have "gc_complete ?v = Returned 0 ?m' ?a'"
    using e by (simp add: gc_complete_def assoc_array_apply_edit_def)
  moreover have "set (addrs (CNode (g_new_n t) cvs)) \<subseteq> insert (g_new_n t) (set (pool (g_mem t)))"
    using v(3,4) by auto
  ultimately show ?thesis
    using run rx nv g v(1) t(1)
    by (intro exI [of _ ?m'] exI [of _ ?a'] exI [of _ "CNode (g_new_n t) cvs"])
      (simp del: rep.simps addrs.simps nleaves.simps)
qed

lemma run_enomem:
  assumes "reaches (gc_step retry it) s t" and "g_label t = Enomem"
  shows "gc_loop (gc_step retry it) s = Some (gc_enomem t)"
proof -
  have "gc_step retry it t = Inl (gc_enomem t)" using assms(2) by (simp add: gc_step_def)
  then have "gc_loop (gc_step retry it) t = Some (gc_enomem t)" by (rule gc_loop_stop)
  then show ?thesis by (simp only: gc_loop_reaches [OF assms(1)])
qed

lemma enomem_result:
  assumes m: "pool m = e # ps" and a: "along (gc_start (m\<lparr>pool := ps\<rparr>) array e) t (set ps)"
  shows "gc_result m array (Inl TNoMem) (gc_enomem t)"
  using a m by (auto simp: gc_result_def gc_enomem_def assoc_array_destroy_subtree_def
      old_kept_def along_def frame_def gc_start_def)

lemma complete_result:
  assumes m: "pool m = e # ps"
    and a: "along (gc_start (m\<lparr>pool := ps\<rparr>) array e) v (set ps)"
    and r: "nodes m' = nodes (g_mem v)" "shorts m' = shorts (g_mem v)"
      "\<forall>x. x \<noteq> g_edit v \<longrightarrow> edits m' x = edits (g_mem v) x"
  shows "old_kept m m'"
  using a m r by (auto simp: old_kept_def along_def frame_def gc_start_def)

context retry_policy
begin

lemma root_sim:
  fixes m array e ps it
  defines "s \<equiv> gc_start (m\<lparr>pool := ps\<rparr>) array e"
  assumes w: "wf_array m array (CNode a ts)" and m: "pool m = e # ps"
  shows "\<exists>stop. gc_loop (gc_step retry it) s = Some stop \<and> gc_result m array
    (gct retry (\<lambda>p. it (assoc_array_ptr_to_leaf p)) (length ps) (erase (CNode a ts))) stop"
proof (cases ps)
  let ?step = "gc_step retry it" and ?keep = "\<lambda>p. it (assoc_array_ptr_to_leaf p)"
  have s: "g_label s = Descend" "g_cursor s = assoc_array_node_to_ptr a"
    "g_new_ptr_pp s = RootRef" "g_new_parent s = 0" "pool (g_mem s) = ps"
    "nodes (g_mem s) = nodes m" "g_edit s = e" "edits (g_mem s) e \<noteq> None"
    using w by (simp_all add: s_def gc_start_def wf_array_def)
  have al: "aligned a" using w by (simp add: wf_array_def)
  {
    case Nil
    then have "reaches ?step s (s\<lparr>g_label := Enomem\<rparr>)" using dup_oom [OF s(1,2) al] s(5) by simp
    then have "gc_loop ?step s = Some (gc_enomem (s\<lparr>g_label := Enomem\<rparr>))"
      by (rule run_enomem) simp
    moreover have "along s (s\<lparr>g_label := Enomem\<rparr>) (set ps)" by (simp add: along_def)
    ultimately show ?thesis using enomem_result [OF m, of array] Nil by (simp add: s_def)
  next
    case (Cons x xs)
    have f: "fresh_pool (g_mem s)" and r: "rep False (nodes (g_mem s)) 0 0 (CNode a ts)"
      and sm: "nleaves (Node (map erase ts)) < 2 ^ 64"
      using w m s(5,6) by (auto simp: wf_array_def fresh_pool_def)
    from root_start [OF s(1-4) r f, of x xs retry it] s(5) Cons obtain t where t:
      "reaches ?step s t" "g_new_n t = x" "g_new_root t = assoc_array_node_to_ptr x"
      "pool (g_mem t) = xs" "along s t {x}" "loop_at t 0 0 [] ts" by auto
    let ?r = "bindR (gcts retry ?keep (length xs) (map erase ts))
      (\<lambda>(us, k). bindR (compress retry us) (\<lambda>vs. Inr (vs, k)))"
    let ?P = "\<lambda>x v. g_label v = ExciseShortcut \<and> node_done t 0 0 x v"
    have IH: "child_sim retry it u" if "is_CNode u" for u using child_sim_all that .
    have out: "outcome ?step (insert x (set xs)) t ?r ?P"
      using node_sim [OF t(6) sm IH] t(2,4) by simp
    have al: "along s t (set ps)" using t(5) by (rule along_mono) (simp add: Cons)
    have W: "insert x (set xs) \<subseteq> set ps" using Cons by auto
    from outcome_reaches [where P = ?P, OF t(1) al out W]
    have out: "outcome ?step (set ps) s ?r ?P" .
    have g: "gct retry ?keep (length ps) (erase (CNode a ts)) =
        bindR ?r (\<lambda>y. Inr (Node (fst y), snd y))"
      by (simp add: Cons bindR_assoc case_prod_unfold)
    show ?thesis
    proof (cases ?r)
      case (Inl err)
      show ?thesis
      proof (cases "err = TNoMem")
        case True
        with out Inl obtain v where v: "reaches ?step s v" "g_label v = Enomem" "along s v (set ps)"
          by (auto simp: outcome_def)
        from enomem_result [OF m v(3) [unfolded s_def]] run_enomem [OF v(1,2)] show ?thesis
          unfolding g Inl True by simp
      next
        case False
        then have "gc_loop ?step s = Some (stop_of err)" using out Inl by (simp add: outcome_def)
        then show ?thesis
          unfolding g Inl using False by (cases err) (simp_all add: gc_result_def)
      qed
    next
      case (Inr y)
      obtain vs k where y: "y = (vs, k)" by (cases y)
      from out Inr y obtain v where v: "reaches ?step s v" "along s v (set ps)"
        "g_label v = ExciseShortcut" "node_done t 0 0 (vs, k) v" by (auto simp: outcome_def)
      have ge: "g_edit v = e" using v(2) s(7) by (simp add: along_def)
      obtain q where q: "edits (g_mem v) (g_edit v) = Some q"
        using v(2) s(8) ge by (auto simp: along_def frame_def)
      have ax: "aligned (g_new_n t)" using t(6) by (simp add: loop_at_def)
      from root_finish [OF v(4,3) _ ax q, of retry it] t(2,3) obtain m' array' t' where
        run: "gc_loop ?step v = Some (Returned 0 m' array')"
        and mm: "nodes m' = nodes (g_mem v)" "shorts m' = shorts (g_mem v)"
          "\<forall>x. x \<noteq> g_edit v \<longrightarrow> edits m' x = edits (g_mem v) x"
        and res: "erase t' = Node vs" "root array' = ptr_of t'" "rep True (nodes m') 0 0 t'"
          "distinct (addrs t')" "set (addrs t') \<subseteq> insert (g_new_n t) (set (pool (g_mem t)))"
          "nr_leaves_on_tree array' = of_nat (nleaves (Node vs))" "length (pool m') = k"
        by auto
      have "old_kept m m'" by (rule complete_result [OF m v(2) [unfolded s_def] mm])
      moreover have "set (addrs t') \<subseteq> set (pool m)"
        using res(5) t(2,4) m Cons by auto
      ultimately have "gc_result m array (Inr (Node vs, k)) (Returned 0 m' array')"
        using res(1-4,6,7) unfolding gc_result_def by auto
      moreover have "gc_loop ?step s = Some (Returned 0 m' array')"
        using run gc_loop_reaches [OF v(1)] by simp
      ultimately show ?thesis unfolding g Inr y by simp
    qed
  }
qed

lemma gc_run_result:
  assumes w: "wf_array m array t"
  shows "\<exists>stop. gc_run retry it m array = Some stop \<and> gc_result m array
    (case pool m of [] \<Rightarrow> Inl TNoMem
     | _ # ps \<Rightarrow> gct retry (\<lambda>p. it (assoc_array_ptr_to_leaf p)) (length ps) (erase t)) stop"
proof -
  from w obtain a ts where t: "t = CNode a ts" by (cases t) (auto simp: wf_array_def)
  have r: "root array \<noteq> 0" using w by (auto simp: t wf_array_def)
  show ?thesis
  proof (cases "pool m")
    case Nil
    then show ?thesis
      using r by (simp add: gc_run_def malloc_def gc_result_def old_kept_def)
  next
    case (Cons e ps)
    then have "e \<noteq> 0" using w by (auto simp: wf_array_def fresh_pool_def aligned_def)
    then show ?thesis
      using r root_sim [OF w [unfolded t] Cons, of it] Cons t by (simp add: gc_run_def malloc_def)
  qed
qed

end

end
