(* ===== verification/AssocProps.thy ===== *)
theory AssocProps
  imports AssocRun
begin

text \<open>
  The properties of \<open>assoc_array_gc\<close>, of the original (\<open>repro.c\<close>) and of the
  patched version (\<open>repro_fixed.c\<close>), and a small array on which they are
  instantiated.
\<close>

section \<open>The specification of a run\<close>

text \<open>The first allocation is the edit script's.\<close>

definition gc_spec :: "(bool \<Rightarrow> u64 \<Rightarrow> bool) \<Rightarrow> (addr \<Rightarrow> bool) \<Rightarrow> mem \<Rightarrow> ct
    \<Rightarrow> tr_err + ptr tr \<times> nat" where
  "gc_spec retry it m t = (case pool m of
       [] \<Rightarrow> Inl TNoMem
     | _ # ps \<Rightarrow> gct retry (\<lambda>p. it (assoc_array_ptr_to_leaf p)) (length ps) (erase t))"

abbreviation keeps :: "(addr \<Rightarrow> bool) \<Rightarrow> ptr \<Rightarrow> bool" where
  "keeps it \<equiv> (\<lambda>p. it (assoc_array_ptr_to_leaf p))"

lemma wf_fan_out: "wf_array m array t \<Longrightarrow> fan_out (erase t)"
  unfolding wf_array_def using rep_fan_out(1) by blast

lemma gc_spec_errors:
  "fan_out (erase t) \<Longrightarrow> gc_spec retry it m t = Inl e \<Longrightarrow>
    e = TBug Bug_meta \<or> e = TNoMem \<and> length (pool m) \<le> nnodes (erase t)"
  by (cases "pool m") (auto simp: gc_spec_def dest!: gct_errors(1))

lemma gc_spec_result:
  assumes "fan_out (erase t)" and "gc_spec retry it m t = Inr (u, k)"
  shows "leaves u = filter_mset (keeps it) (leaves (erase t))"
    and "length (pool m) = Suc (k + nnodes (erase t))"
    and "leaf_at u x \<pi>' \<Longrightarrow> \<exists>\<pi>. leaf_at (erase t) x \<pi> \<and> prefix \<pi>' \<pi>"
    and "retry = retry_fixed \<Longrightarrow> compact u"
proof -
  from assms(2) obtain e ps where p: "pool m = e # ps"
    and g: "gct retry (keeps it) (length ps) (erase t) = Inr (u, k)"
    by (auto simp: gc_spec_def split: list.splits)
  show "leaves u = filter_mset (keeps it) (leaves (erase t))"
    "length (pool m) = Suc (k + nnodes (erase t))"
    using gct_shape(1) [OF g assms(1)] p by simp_all
  show "\<exists>\<pi>. leaf_at (erase t) x \<pi> \<and> prefix \<pi>' \<pi>" if "leaf_at u x \<pi>'"
    by (rule gct_leaf_at(1) [OF g assms(1) that])
  show "compact u" if "retry = retry_fixed"
    by (rule gct_fixed_compact(1) [OF g that assms(1)])
qed

lemma gc_spec_no_bug:
  assumes "fan_out (erase t)" and "gc_spec retry_fixed it m t = Inl e"
    and "no_full_child (keeps it) (erase t)"
  shows "e = TNoMem"
proof (cases "pool m")
  case (Cons e' ps)
  then show ?thesis
    using gct_fixed_no_bug(1) [of retry_fixed "keeps it" "length ps" "erase t" e] assms
    by (simp add: gc_spec_def)
qed (use assms(2) in \<open>simp add: gc_spec_def\<close>)

lemma kept_le: "kept keep t \<le> nleaves t"
  by (simp add: kept_def nleaves_eq_size size_filter_mset_lesseq)

text \<open>The two versions, from one lemma of the policy locale.\<close>

lemma original_run:
  "wf_array m array t \<Longrightarrow> \<exists>stop. assoc_array_gc it m array = Some stop \<and>
    gc_result m array (gc_spec retry_never it m t) stop"
  unfolding assoc_array_gc_def gc_spec_def by (rule rp_never.gc_run_result)

lemma fixed_run:
  "wf_array m array t \<Longrightarrow> \<exists>stop. assoc_array_gc_fixed it m array = Some stop \<and>
    gc_result m array (gc_spec retry_fixed it m t) stop"
  unfolding assoc_array_gc_fixed_def gc_spec_def by (rule rp_fixed.gc_run_result)

text \<open>What a successful run leaves behind, for whichever version it was.\<close>

lemma returned_result:
  assumes w: "wf_array m array t"
    and r: "gc_result m array (gc_spec retry it m t) (Returned 0 m' array')"
  shows "\<exists>t'. root array' = ptr_of t' \<and> rep True (nodes m') 0 0 t' \<and> distinct (addrs t') \<and>
    leaves (erase t') = filter_mset (keeps it) (leaves (erase t)) \<and>
    nr_leaves_on_tree array' = of_nat (kept (keeps it) (erase t)) \<and>
    (\<forall>x \<pi>'. leaf_at (erase t') x \<pi>' \<longrightarrow> (\<exists>\<pi>. leaf_at (erase t) x \<pi> \<and> prefix \<pi>' \<pi>)) \<and>
    (retry = retry_fixed \<longrightarrow> compact (erase t')) \<and>
    length (pool m) = Suc (length (pool m') + nnodes (erase t)) \<and> old_kept m m'"
proof (cases "gc_spec retry it m t")
  case (Inl e)
  then show ?thesis
    using gc_spec_errors [OF wf_fan_out [OF w] Inl] r by (auto simp: gc_result_def ENOMEM_def)
next
  case (Inr p)
  obtain u k where p: "p = (u, k)" by (cases p)
  note s = gc_spec_result [OF wf_fan_out [OF w] Inr [unfolded p]]
  from r Inr p obtain t' where t': "erase t' = u" "root array' = ptr_of t'"
    "rep True (nodes m') 0 0 t'" "distinct (addrs t')" "nr_leaves_on_tree array' = of_nat (nleaves u)"
    "length (pool m') = k" "old_kept m m'"
    by (auto simp: gc_result_def)
  have "nleaves u = kept (keeps it) (erase t)" by (simp add: nleaves_eq_size s(1) kept_def)
  then show ?thesis using t' s by (intro exI [of _ t']) simp
qed

section \<open>A small array\<close>

text \<open>
  A root at \<open>0x100\<close> with the leaf \<open>0x8\<close> and a child node at \<open>0x200\<close> that holds
  \<open>0x10\<close> and \<open>0x18\<close>; four objects can still be allocated.
\<close>

definition ex_node :: "ptr \<Rightarrow> u8 \<Rightarrow> ptr list \<Rightarrow> assoc_array_node" where
  "ex_node bp ps ptrs = \<lparr>back_pointer = bp, parent_slot = ps,
     slots = ptrs @ replicate (ASSOC_ARRAY_FAN_OUT - length ptrs) 0, nr_leaves_on_branch = 0\<rparr>"

definition ex_mem :: mem where
  "ex_mem = \<lparr>nodes = [0x100 \<mapsto> ex_node 0 0 [0x8, 0x201], 0x200 \<mapsto> ex_node 0x101 1 [0x10, 0x18]],
     shorts = Map.empty, edits = Map.empty, pool = [0x300, 0x400, 0x500, 0x600]\<rparr>"

definition ex_array :: assoc_array where
  "ex_array = \<lparr>root = 0x101, nr_leaves_on_tree = 3\<rparr>"

definition ex_tree :: ct where
  "ex_tree = CNode 0x100 ([CLeaf 0x8, CNode 0x200 ([CLeaf 0x10, CLeaf 0x18] @ replicate 14 CHole)]
     @ replicate 14 CHole)"

lemma reps_holes: "reps chk h bp i (replicate n CHole)"
  by (simp add: reps_nth)

lemma ex_wf: "wf_array ex_mem ex_array ex_tree"
  by (simp add: wf_array_def ex_mem_def ex_array_def ex_tree_def ex_node_def fresh_pool_def
      aligned_def node_to_ptr_eq assoc_array_ptr_is_leaf_def assoc_array_ptr_is_meta_def
      reps_append reps_holes sum_list_replicate)

section \<open>Properties\<close>

text \<open>
  C2: The original \<open>assoc_array_gc\<close>, run on a well-formed array without
  shortcuts, ends, and ends the way the recursive specification says: it returns 0
  with the specified tree in place, returns \<open>-ENOMEM\<close> with the array as it was, or
  hits the specified \<open>BUG_ON\<close>.
\<close>

theorem assoc_array_gc_refines:
  assumes "wf_array m array t"
  shows "\<exists>stop. assoc_array_gc it m array = Some stop \<and>
    gc_result m array (gc_spec retry_never it m t) stop"
  by (rule original_run [OF assms])

theorem assoc_array_gc_refines_witness:
  "\<exists>stop. assoc_array_gc (\<lambda>a. a \<noteq> 0x18) ex_mem ex_array = Some stop \<and>
    gc_result ex_mem ex_array (gc_spec retry_never (\<lambda>a. a \<noteq> 0x18) ex_mem ex_tree) stop"
  by (rule assoc_array_gc_refines [OF ex_wf])

text \<open>
  C3: The patched \<open>assoc_array_gc\<close>, with its jump back to \<open>retry_compress\<close>, ends as
  its specification says, too: the retry cannot loop.
\<close>

theorem assoc_array_gc_fixed_refines:
  assumes "wf_array m array t"
  shows "\<exists>stop. assoc_array_gc_fixed it m array = Some stop \<and>
    gc_result m array (gc_spec retry_fixed it m t) stop"
  by (rule fixed_run [OF assms])

theorem assoc_array_gc_fixed_refines_witness:
  "\<exists>stop. assoc_array_gc_fixed (\<lambda>a. a \<noteq> 0x18) ex_mem ex_array = Some stop \<and>
    gc_result ex_mem ex_array (gc_spec retry_fixed (\<lambda>a. a \<noteq> 0x18) ex_mem ex_tree) stop"
  by (rule assoc_array_gc_fixed_refines [OF ex_wf])

text \<open>
  C1: When no node below the root keeps exactly sixteen leaves and enough objects
  can be allocated, the patched collector returns 0. The new tree holds exactly
  the leaves the iterator kept, its stored leaf counts are right, a node with
  fewer leaves than slots has no child nodes, and the old tree is untouched.
\<close>

theorem assoc_array_gc_fixed_collects:
  assumes w: "wf_array m array t" and n: "no_full_child (keeps it) (erase t)"
    and p: "nnodes (erase t) < length (pool m)"
  shows "\<exists>m' array' t'. assoc_array_gc_fixed it m array = Some (Returned 0 m' array') \<and>
    root array' = ptr_of t' \<and> rep True (nodes m') 0 0 t' \<and>
    leaves (erase t') = filter_mset (keeps it) (leaves (erase t)) \<and>
    nr_leaves_on_tree array' = of_nat (kept (keeps it) (erase t)) \<and>
    compact (erase t') \<and> old_kept m m'"
proof -
  from fixed_run [OF w, of it] obtain stop where run: "assoc_array_gc_fixed it m array = Some stop"
    and r: "gc_result m array (gc_spec retry_fixed it m t) stop" by blast
  obtain y where y: "gc_spec retry_fixed it m t = Inr y"
    using gc_spec_no_bug [OF wf_fan_out [OF w] _ n] gc_spec_errors [OF wf_fan_out [OF w]] p
    by (cases "gc_spec retry_fixed it m t") fastforce+
  then obtain m' array' where "stop = Returned 0 m' array'"
    using r by (cases y) (auto simp: gc_result_def)
  with returned_result [OF w] run r show ?thesis by blast
qed

theorem assoc_array_gc_fixed_collects_witness:
  "\<exists>m' array' t'. assoc_array_gc_fixed (\<lambda>a. a \<noteq> 0x18) ex_mem ex_array =
      Some (Returned 0 m' array') \<and>
    root array' = ptr_of t' \<and> rep True (nodes m') 0 0 t' \<and>
    leaves (erase t') = filter_mset (keeps (\<lambda>a. a \<noteq> 0x18)) (leaves (erase ex_tree)) \<and>
    nr_leaves_on_tree array' = of_nat (kept (keeps (\<lambda>a. a \<noteq> 0x18)) (erase ex_tree)) \<and>
    compact (erase t') \<and> old_kept ex_mem m'"
proof (rule assoc_array_gc_fixed_collects [OF ex_wf])
  have "kept (keeps (\<lambda>a. a \<noteq> 0x18)) (Node ([Leaf 0x10, Leaf 0x18] @ replicate 14 Hole)) \<noteq> 16"
    using kept_le [of "keeps (\<lambda>a. a \<noteq> 0x18)" "Node ([Leaf 0x10, Leaf 0x18] @ replicate 14 Hole)"]
    by (simp add: sum_list_replicate)
  then show "no_full_child (keeps (\<lambda>a. a \<noteq> 0x18)) (erase ex_tree)"
    by (simp add: ex_tree_def list_all_iff)
  show "nnodes (erase ex_tree) < length (pool ex_mem)"
    by (simp add: ex_tree_def ex_mem_def sum_list_replicate)
qed

text \<open>
  C5: What a successful run of the original returns is right although it may leave
  the tree uncompacted: exactly the kept leaves, their number, and every leaf on a
  prefix of its old path, where a search for its key still finds it; one object is
  allocated per old node and one for the edit script.
\<close>

theorem assoc_array_gc_correct_when_0:
  assumes w: "wf_array m array t"
    and r: "assoc_array_gc it m array = Some (Returned 0 m' array')"
  shows "\<exists>t'. root array' = ptr_of t' \<and> rep True (nodes m') 0 0 t' \<and>
    leaves (erase t') = filter_mset (keeps it) (leaves (erase t)) \<and>
    nr_leaves_on_tree array' = of_nat (kept (keeps it) (erase t)) \<and>
    (\<forall>x \<pi>'. leaf_at (erase t') x \<pi>' \<longrightarrow> (\<exists>\<pi>. leaf_at (erase t) x \<pi> \<and> prefix \<pi>' \<pi>)) \<and>
    length (pool m) = Suc (length (pool m') + nnodes (erase t)) \<and> old_kept m m'"
  using original_run [OF w, of it] returned_result [OF w, of retry_never it m' array'] r by auto

lemma ex_spec:
  "case gc_spec retry_never (\<lambda>a. a \<noteq> 0x18) ex_mem ex_tree of Inl _ \<Rightarrow> False | Inr _ \<Rightarrow> True"
  by code_simp

lemma ex_run: "\<exists>m' array'. assoc_array_gc (\<lambda>a. a \<noteq> 0x18) ex_mem ex_array =
    Some (Returned 0 m' array')"
  using original_run [OF ex_wf, of "\<lambda>a. a \<noteq> 0x18"] ex_spec
  by (auto simp: gc_result_def split: sum.split_asm)

theorem assoc_array_gc_correct_when_0_witness:
  "\<exists>m' array' t'. assoc_array_gc (\<lambda>a. a \<noteq> 0x18) ex_mem ex_array =
      Some (Returned 0 m' array') \<and>
    root array' = ptr_of t' \<and> rep True (nodes m') 0 0 t' \<and>
    leaves (erase t') = filter_mset (keeps (\<lambda>a. a \<noteq> 0x18)) (leaves (erase ex_tree)) \<and>
    length (pool ex_mem) = Suc (length (pool m') + nnodes (erase ex_tree))"
proof -
  obtain m' array' where r: "assoc_array_gc (\<lambda>a. a \<noteq> 0x18) ex_mem ex_array =
    Some (Returned 0 m' array')" using ex_run by blast
  from assoc_array_gc_correct_when_0 [OF ex_wf r] r show ?thesis by blast
qed

text \<open>
  C4: Memory safety, for both versions, on a well-formed array without shortcuts:
  whatever the iterator keeps and however
  little memory there is, a run never dereferences a bad pointer, never leaves a
  node's slots and never frees twice, it ends, and of its \<open>BUG_ON\<close>s only the one on a
  meta pointer among a folded child's slots can fire.
\<close>

theorem assoc_array_gc_safe:
  assumes w: "wf_array m array t" and g: "gc \<in> {assoc_array_gc, assoc_array_gc_fixed}"
  shows "(\<exists>m' array'. gc it m array = Some (Returned 0 m' array')) \<or>
    (\<exists>m'. gc it m array = Some (Returned (- ENOMEM) m' array)) \<or>
    gc it m array = Some (Bug Bug_meta)"
proof -
  obtain retry stop where "gc it m array = Some stop"
    and r: "gc_result m array (gc_spec retry it m t) stop"
    using g original_run [OF w, of it] fixed_run [OF w, of it] by blast
  then show ?thesis
    using gc_spec_errors [OF wf_fan_out [OF w], of retry it m]
    by (cases "gc_spec retry it m t") (fastforce simp: gc_result_def)+
qed

theorem assoc_array_gc_safe_witness:
  "(\<exists>m' array'. assoc_array_gc_fixed (\<lambda>a. True) ex_mem ex_array = Some (Returned 0 m' array')) \<or>
    (\<exists>m'. assoc_array_gc_fixed (\<lambda>a. True) ex_mem ex_array =
       Some (Returned (- ENOMEM) m' ex_array)) \<or>
    assoc_array_gc_fixed (\<lambda>a. True) ex_mem ex_array = Some (Bug Bug_meta)"
  by (rule assoc_array_gc_safe [where gc = assoc_array_gc_fixed, OF ex_wf]) simp

text \<open>
  C7: Out of memory: when no node keeps exactly sixteen leaves (\<open>no_full_child\<close>; with
  such a node a \<open>BUG_ON\<close> can come first) and there are no more objects than old nodes,
  the patched collector returns \<open>-ENOMEM\<close>, and the array and the old tree are as they
  were.
\<close>

theorem assoc_array_gc_fixed_enomem:
  assumes w: "wf_array m array t" and n: "no_full_child (keeps it) (erase t)"
    and p: "length (pool m) \<le> nnodes (erase t)"
  shows "\<exists>m'. assoc_array_gc_fixed it m array = Some (Returned (- ENOMEM) m' array) \<and> old_kept m m'"
proof -
  from fixed_run [OF w, of it] obtain stop where run: "assoc_array_gc_fixed it m array = Some stop"
    and r: "gc_result m array (gc_spec retry_fixed it m t) stop" by blast
  have "gc_spec retry_fixed it m t = Inl TNoMem"
  proof (cases "gc_spec retry_fixed it m t")
    case (Inl e)
    then show ?thesis using gc_spec_no_bug [OF wf_fan_out [OF w] Inl n] by simp
  next
    case (Inr y)
    then show ?thesis
      using gc_spec_result(2) [OF wf_fan_out [OF w]] p by (cases y) fastforce
  qed
  with run r show ?thesis by (auto simp: gc_result_def)
qed

definition ex_low_mem :: mem where
  "ex_low_mem = ex_mem\<lparr>pool := [0x300, 0x400]\<rparr>"

theorem assoc_array_gc_fixed_enomem_witness:
  "\<exists>m'. assoc_array_gc_fixed (\<lambda>a. True) ex_low_mem ex_array =
    Some (Returned (- ENOMEM) m' ex_array) \<and> old_kept ex_low_mem m'"
proof (rule assoc_array_gc_fixed_enomem)
  show "wf_array ex_low_mem ex_array ex_tree"
    using ex_wf by (auto simp: wf_array_def ex_low_mem_def ex_mem_def fresh_pool_def)
  have "kept (\<lambda>a. True) (Node ([Leaf (0x10 :: ptr), Leaf 0x18] @ replicate 14 Hole)) \<noteq> 16"
    using kept_le [of "\<lambda>a. True" "Node ([Leaf (0x10 :: ptr), Leaf 0x18] @ replicate 14 Hole)"]
    by (simp add: sum_list_replicate)
  then show "no_full_child (keeps (\<lambda>a. True)) (erase ex_tree)"
    by (simp add: ex_tree_def list_all_iff)
  show "length (pool ex_low_mem) \<le> nnodes (erase ex_tree)"
    by (simp add: ex_tree_def ex_low_mem_def ex_mem_def sum_list_replicate)
qed

section \<open>A node with exactly sixteen leaves\<close>

text \<open>
  The root's child at \<open>0x1100\<close> has sixteen leaves, twelve in its own slots and four
  below the children in its slots 0 and 2. On the way the child in slot 0 does not
  fit, then those in slots 2 and 3 are folded; the condition of the retry asks for
  less than sixteen leaves, so the child in slot 0 stays. The root then folds the
  child, whose sixteen leaves fit, and meets the node that stayed.
\<close>

definition full_leaves :: "ptr list" where
  "full_leaves = [0x18, 0x20, 0x28, 0x30, 0x38, 0x40, 0x48, 0x50, 0x58, 0x60, 0x68, 0x70]"

definition full_mem :: mem where
  "full_mem = \<lparr>nodes = [0x1000 \<mapsto> ex_node 0 0 [0x1101],
       0x1100 \<mapsto> ex_node 0x1001 0 ([0x1201, 0, 0x1301, 0x1401] @ full_leaves),
       0x1200 \<mapsto> ex_node 0x1101 0 [0x80, 0x88, 0x90],
       0x1300 \<mapsto> ex_node 0x1101 2 [0x98], 0x1400 \<mapsto> ex_node 0x1101 3 []],
     shorts = Map.empty, edits = Map.empty,
     pool = [0x2000, 0x2100, 0x2200, 0x2300, 0x2400, 0x2500]\<rparr>"

definition full_tree :: ct where
  "full_tree = CNode 0x1000 ([CNode 0x1100
     ([CNode 0x1200 (map CLeaf [0x80, 0x88, 0x90] @ replicate 13 CHole), CHole,
       CNode 0x1300 ([CLeaf 0x98] @ replicate 15 CHole), CNode 0x1400 (replicate 16 CHole)]
      @ map CLeaf full_leaves)] @ replicate 15 CHole)"

lemma full_wf: "wf_array full_mem \<lparr>root = 0x1001, nr_leaves_on_tree = 16\<rparr> full_tree"
  by (simp add: wf_array_def full_mem_def full_tree_def full_leaves_def ex_node_def fresh_pool_def
      aligned_def node_to_ptr_eq assoc_array_ptr_is_leaf_def assoc_array_ptr_is_meta_def
      reps_append reps_holes sum_list_replicate)

lemma full_spec:
  "(case gc_spec retry_fixed (\<lambda>a. True) full_mem full_tree of
      Inl e \<Rightarrow> stop_of e | Inr _ \<Rightarrow> Fault) = Bug Bug_meta"
  by code_simp

text \<open>
  C6: The patched collector still hits a \<open>BUG_ON\<close>, on an array that is well formed,
  keeps all its leaves and has memory enough: the retry misses a node that keeps
  exactly \<open>ASSOC_ARRAY_FAN_OUT\<close> leaves.
\<close>

theorem assoc_array_gc_fixed_full_node_bug:
  "wf_array full_mem \<lparr>root = 0x1001, nr_leaves_on_tree = 16\<rparr> full_tree \<and>
   nnodes (erase full_tree) < length (pool full_mem) \<and>
   assoc_array_gc_fixed (\<lambda>a. True) full_mem \<lparr>root = 0x1001, nr_leaves_on_tree = 16\<rparr> =
     Some (Bug Bug_meta)"
proof (intro conjI)
  show "wf_array full_mem \<lparr>root = 0x1001, nr_leaves_on_tree = 16\<rparr> full_tree" by (rule full_wf)
  show "nnodes (erase full_tree) < length (pool full_mem)"
    by (simp add: full_tree_def full_mem_def full_leaves_def sum_list_replicate)
  obtain e where e: "gc_spec retry_fixed (\<lambda>a. True) full_mem full_tree = Inl e"
    "stop_of e = Bug Bug_meta"
    using full_spec by (auto split: sum.split_asm)
  then have "e = TBug Bug_meta" by (cases e) auto
  then show "assoc_array_gc_fixed (\<lambda>a. True) full_mem \<lparr>root = 0x1001, nr_leaves_on_tree = 16\<rparr> =
      Some (Bug Bug_meta)"
    using fixed_run [OF full_wf, of "\<lambda>a. True"] e(1) by (auto simp: gc_result_def)
qed

end
