(* ===== verification/AssocConstruct.thy ===== *)
theory AssocConstruct
  imports AssocProps
begin

text \<open>
  The arrays the test program builds: the creation helpers of
  \<open>src/assoc_array_gc/repro.c\<close> (lines 498 to 536), the C statements of
  \<open>construct_array.c\<close> as data with an interpreter, and \<open>construct_node\<close> of
  \<open>assoc_array_constructor.py\<close>, which generated them. Running what the generator
  writes for a tree builds that tree.
\<close>

section \<open>The creation helpers\<close>

text \<open>\<open>mknode\<close> returns NULL, unchecked, when the memory is exhausted.\<close>

definition mknode :: "mem \<Rightarrow> addr \<times> mem" where
  "mknode m = (let (a, m') = malloc m
     in (a, if a = 0 then m' else put_node a zero_node m'))"

definition set_data :: "addr \<Rightarrow> u8 \<Rightarrow> u64 \<Rightarrow> mem \<Rightarrow> gc_stop + mem" where
  "set_data node slot nr m = bindR (get_node m node) (\<lambda>n.
     Inr (put_node node (n\<lparr>parent_slot := slot, nr_leaves_on_branch := nr\<rparr>) m))"

definition set_node :: "addr \<Rightarrow> int \<Rightarrow> mem \<Rightarrow> gc_stop + mem" where
  "set_node parent index m = (let (child, m1) = mknode m in
     bindR (write_slot parent index (assoc_array_node_to_ptr child) m1) (\<lambda>m2.
     bindR (get_node m2 child) (\<lambda>c.
       Inr (put_node child (c\<lparr>back_pointer := assoc_array_node_to_ptr parent\<rparr>) m2))))"

definition set_leaf :: "addr \<Rightarrow> int \<Rightarrow> u64 \<Rightarrow> mem \<Rightarrow> gc_stop + mem" where
  "set_leaf parent index data m = write_slot parent index data m"

definition as_node :: "ptr \<Rightarrow> gc_stop + addr" where
  "as_node p = (if assoc_array_ptr_is_node p then Inr (assoc_array_ptr_to_node p)
     else Inl (Bug Bug_not_node))"

definition get_child :: "addr \<Rightarrow> int \<Rightarrow> mem \<Rightarrow> gc_stop + addr" where
  "get_child parent index m = bindR (read_slot m parent index) as_node"

definition get_parent :: "addr \<Rightarrow> mem \<Rightarrow> gc_stop + addr" where
  "get_parent node m = bindR (get_node m node) (\<lambda>n. as_node (back_pointer n))"

section \<open>The generated statements\<close>

datatype stmt = SetNrLeaves u64 | Mknode | SetRoot | SetData u8 u64 | SetNode int
  | SetLeaf int u64 | GetNode int | GetParent

record build =
  b_mem :: mem
  b_array :: assoc_array
  b_node :: addr

fun exec :: "stmt \<Rightarrow> build \<Rightarrow> gc_stop + build" where
  "exec (SetNrLeaves w) b = Inr (b\<lparr>b_array := (b_array b)\<lparr>nr_leaves_on_tree := w\<rparr>\<rparr>)"
| "exec Mknode b = (let (a, m) = mknode (b_mem b) in Inr (b\<lparr>b_mem := m, b_node := a\<rparr>))"
| "exec SetRoot b = Inr (b\<lparr>b_array := (b_array b)\<lparr>root := assoc_array_node_to_ptr (b_node b)\<rparr>\<rparr>)"
| "exec (SetData s nr) b =
     bindR (set_data (b_node b) s nr (b_mem b)) (\<lambda>m. Inr (b\<lparr>b_mem := m\<rparr>))"
| "exec (SetNode i) b = bindR (set_node (b_node b) i (b_mem b)) (\<lambda>m. Inr (b\<lparr>b_mem := m\<rparr>))"
| "exec (SetLeaf i p) b = bindR (set_leaf (b_node b) i p (b_mem b)) (\<lambda>m. Inr (b\<lparr>b_mem := m\<rparr>))"
| "exec (GetNode i) b = bindR (get_child (b_node b) i (b_mem b)) (\<lambda>a. Inr (b\<lparr>b_node := a\<rparr>))"
| "exec GetParent b = bindR (get_parent (b_node b) (b_mem b)) (\<lambda>a. Inr (b\<lparr>b_node := a\<rparr>))"

section \<open>The generator\<close>

text \<open>A node as the script reads it from a core: parent slot, leaf count, slots.\<close>

datatype dump = DHole | DLeaf u64 | DNode u8 u64 "dump list"

fun construct_node :: "dump \<Rightarrow> stmt list" and construct_slots :: "nat \<Rightarrow> dump list \<Rightarrow> stmt list" where
  "construct_node (DNode s nr ds) = SetData s nr # construct_slots 0 ds"
| "construct_node DHole = []"
| "construct_node (DLeaf p) = []"
| "construct_slots i [] = []"
| "construct_slots i (d # ds) = (case d of
      DHole \<Rightarrow> []
    | DLeaf p \<Rightarrow> [SetLeaf (int i) p]
    | DNode s nr us \<Rightarrow> [SetNode (int i), GetNode (int i)] @ construct_node d @ [GetParent])
   @ construct_slots (Suc i) ds"

definition construct_stmts :: "u64 \<Rightarrow> dump \<Rightarrow> stmt list" where
  "construct_stmts nr d = [SetNrLeaves nr, Mknode, SetRoot] @ construct_node d"

fun tree_of :: "dump \<Rightarrow> ptr tr" where
  "tree_of DHole = Hole"
| "tree_of (DLeaf p) = Leaf p"
| "tree_of (DNode s nr ds) = Node (map tree_of ds)"

fun dump_ok :: "nat \<Rightarrow> dump \<Rightarrow> bool" and dumps_ok :: "nat \<Rightarrow> dump list \<Rightarrow> bool" where
  "dump_ok i DHole = True"
| "dump_ok i (DLeaf p) = (p \<noteq> 0 \<and> assoc_array_ptr_is_leaf p)"
| "dump_ok i (DNode s nr ds) = (s = of_nat i \<and> length ds = ASSOC_ARRAY_FAN_OUT \<and> dumps_ok 0 ds)"
| "dumps_ok i [] = True"
| "dumps_ok i (d # ds) = (dump_ok i d \<and> dumps_ok (Suc i) ds)"

section \<open>Running the statements builds the tree\<close>

text \<open>The node under construction at \<open>a\<close>: its slots so far, and everything behind empty.\<close>

definition building :: "mem \<Rightarrow> addr \<Rightarrow> assoc_array_node \<Rightarrow> ct list \<Rightarrow> nat \<Rightarrow> bool" where
  "building m a n cts k \<longleftrightarrow> aligned a \<and> length cts + k = ASSOC_ARRAY_FAN_OUT \<and>
     nodes m a = Some (n\<lparr>slots := map ptr_of cts @ replicate k 0\<rparr>) \<and>
     reps False (nodes m) (assoc_array_node_to_ptr a) 0 cts \<and>
     a \<notin> set (concat (map addrs cts)) \<and> fresh_pool m"

definition built :: "build \<Rightarrow> addr list \<Rightarrow> build \<Rightarrow> bool" where
  "built b used b' \<longleftrightarrow> b_node b' = b_node b \<and> b_array b' = b_array b \<and>
     pool (b_mem b) = used @ pool (b_mem b') \<and>
     frame (b_mem b) (b_mem b') (insert (b_node b) (set used))"

lemma built_trans: "built b used b' \<Longrightarrow> built b' used' b'' \<Longrightarrow> built b (used @ used') b''"
  unfolding built_def using frame_trans [of "b_mem b" "b_mem b'" "insert (b_node b) (set used)"
      "b_mem b''" "insert (b_node b) (set used')" "insert (b_node b) (set (used @ used'))"]
  by auto

text \<open>What the construction of one node does, from its zeroed object on.\<close>

definition builds :: "dump \<Rightarrow> bool" where
  "builds d \<longleftrightarrow> (\<forall>i b n. dump_ok i d \<and> building (b_mem b) (b_node b) n [] ASSOC_ARRAY_FAN_OUT \<and>
     nnodes (tree_of d) \<le> Suc (length (pool (b_mem b))) \<longrightarrow>
     (\<exists>b' cts used. forE exec (construct_node d) b = Inr b' \<and> built b used b' \<and>
        erase (CNode (b_node b) cts) = tree_of d \<and>
        rep False (nodes (b_mem b')) (back_pointer n) i (CNode (b_node b) cts) \<and>
        set (concat (map addrs cts)) \<subseteq> set used \<and>
        Suc (length used) = nnodes (tree_of d)))"

text \<open>One slot on: the tree \<open>cu\<close> is in place, its nodes among \<open>used\<close>.\<close>

lemma building_next:
  assumes b: "building m a n cts (Suc k)" and fr: "frame m m' (insert a (set used))"
    and p: "pool m = used @ pool m'"
    and a: "nodes m' a = Some (n\<lparr>slots := map ptr_of cts @ ptr_of cu # replicate k 0\<rparr>)"
    and r: "rep False (nodes m') (assoc_array_node_to_ptr a) (length cts) cu"
    and u: "set (addrs cu) \<subseteq> set used"
  shows "building m' a n (cts @ [cu]) k"
proof -
  from b have al: "aligned a" "length cts + Suc k = 16" and fp: "fresh_pool m"
    and ac: "a \<notin> set (concat (map addrs cts))"
    and na: "nodes m a = Some (n\<lparr>slots := map ptr_of cts @ replicate (Suc k) 0\<rparr>)"
    and rc: "reps False (nodes m) (assoc_array_node_to_ptr a) 0 cts"
    by (simp_all add: building_def)
  note dead = fresh_not_live [OF fp p]
  have au: "a \<notin> set used" using dead na by force
  have "reps False (nodes m') (assoc_array_node_to_ptr a) 0 cts"
    by (rule reps_frame [OF rc fr ac dead])
  moreover have "fresh_pool m'" using fresh_pool_frame [OF fp fr p] na by simp
  ultimately show ?thesis
    using al a r u ac au by (auto simp: building_def reps_append)
qed

lemma building_hole:
  assumes "building m a n cts (Suc k)"
  shows "building m a n (cts @ [CHole]) k"
  by (rule building_next [OF assms frame_refl, where used = "[]"])
    (use assms in \<open>simp_all add: building_def\<close>)

lemma building_write:
  assumes b: "building m a n cts (Suc k)"
  shows "write_slot a (int (length cts)) p m =
    Inr (put_node a (n\<lparr>slots := map ptr_of cts @ p # replicate k 0\<rparr>) m)"
  using b by (simp add: building_def write_slot_Some)

text \<open>The statements of a child node, before and after its own construction.\<close>

lemma enter_child:
  assumes b: "building (b_mem b) (b_node b) n cts (Suc k)" and x: "pool (b_mem b) = x # xs"
  shows "\<exists>c. forE exec [SetNode (int (length cts)), GetNode (int (length cts))] b = Inr c \<and>
    b_node c = x \<and> b_array c = b_array b \<and> pool (b_mem c) = xs \<and>
    frame (b_mem b) (b_mem c) {b_node b, x} \<and>
    building (b_mem c) x (zero_node\<lparr>back_pointer := assoc_array_node_to_ptr (b_node b)\<rparr>) []
      ASSOC_ARRAY_FAN_OUT \<and>
    nodes (b_mem c) (b_node b) = Some (n\<lparr>slots :=
      map ptr_of cts @ assoc_array_node_to_ptr x # replicate k 0\<rparr>)"
proof -
  let ?a = "b_node b" and ?m = "b_mem b" and ?p = "assoc_array_node_to_ptr x"
  let ?nx = "zero_node\<lparr>back_pointer := assoc_array_node_to_ptr ?a\<rparr>"
  let ?na = "n\<lparr>slots := map ptr_of cts @ ?p # replicate k 0\<rparr>"
  from b x have fp: "aligned x" "nodes ?m x = None" "x \<notin> set xs" "distinct xs"
    "\<And>y. y \<in> set xs \<Longrightarrow> aligned y \<and> nodes ?m y = None"
    by (auto simp: building_def fresh_pool_def)
  from b have na: "nodes ?m ?a = Some (n\<lparr>slots := map ptr_of cts @ replicate (Suc k) 0\<rparr>)"
    and len: "length cts + Suc k = 16" by (simp_all add: building_def)
  have xa: "x \<noteq> ?a" "x \<noteq> 0" using fp(1,2) na by (auto simp: aligned_def)
  let ?m1 = "put_node x zero_node (?m\<lparr>pool := xs\<rparr>)"
  let ?m2 = "put_node x ?nx (put_node ?a ?na ?m1)"
  have mk: "mknode ?m = (x, ?m1)" using x xa by (simp add: mknode_def malloc_def)
  have w: "write_slot ?a (int (length cts)) ?p ?m1 = Inr (put_node ?a ?na ?m1)"
    using na xa by (simp add: write_slot_Some)
  have sn: "set_node ?a (int (length cts)) ?m = Inr ?m2"
    using w xa by (simp add: set_node_def mk get_node_Some)
  have gn: "get_child ?a (int (length cts)) ?m2 = Inr x"
    using fp(1) xa by (simp add: get_child_def read_slot_Some as_node_def)
  define c where "c = b\<lparr>b_mem := ?m2, b_node := x\<rparr>"
  have run: "forE exec [SetNode (int (length cts)), GetNode (int (length cts))] b = Inr c"
    using sn gn by (simp add: c_def)
  have "fresh_pool ?m2" using fp na by (auto simp: fresh_pool_def)
  then have bd: "building ?m2 x ?nx [] 16" using fp(1) by (simp add: building_def zero_node_def)
  have fr: "frame ?m ?m2 {?a, x}" by (auto simp: frame_def)
  show ?thesis
    by (rule exI [of _ c], intro conjI run) (use bd fr xa in \<open>simp_all add: c_def\<close>)
qed

lemma leave_child:
  assumes "nodes (b_mem b) (b_node b) = Some n" and "back_pointer n = assoc_array_node_to_ptr a"
    and "aligned a"
  shows "exec GetParent b = Inr (b\<lparr>b_node := a\<rparr>)"
  using assms by (simp add: get_parent_def get_node_Some as_node_def)

lemma child_built:
  assumes d: "d = DNode s nr us" and ok: "dump_ok (length cts) d" and IH: "builds d"
    and b: "building (b_mem b) (b_node b) n cts (Suc k)"
    and p: "nnodes (tree_of d) \<le> length (pool (b_mem b))"
  shows "\<exists>b' cu used. forE exec ([SetNode (int (length cts)), GetNode (int (length cts))] @
      construct_node d @ [GetParent]) b = Inr b' \<and> built b used b' \<and> erase cu = tree_of d \<and>
    building (b_mem b') (b_node b) n (cts @ [cu]) k \<and> set (addrs cu) \<subseteq> set used \<and>
    length used = nnodes (tree_of d)"
proof -
  let ?a = "b_node b"
  obtain x xs where x: "pool (b_mem b) = x # xs" using p d by (cases "pool (b_mem b)") auto
  let ?nx = "zero_node\<lparr>back_pointer := assoc_array_node_to_ptr ?a\<rparr>"
  from enter_child [OF b x] obtain c where c:
    "forE exec [SetNode (int (length cts)), GetNode (int (length cts))] b = Inr c"
    "b_node c = x" "b_array c = b_array b" "pool (b_mem c) = xs"
    "frame (b_mem b) (b_mem c) {?a, x}" "building (b_mem c) x ?nx [] 16"
    "nodes (b_mem c) ?a =
      Some (n\<lparr>slots := map ptr_of cts @ assoc_array_node_to_ptr x # replicate k 0\<rparr>)" by blast
  have "nnodes (tree_of d) \<le> Suc (length (pool (b_mem c)))" using p x c(4) by simp
  with IH [unfolded builds_def, rule_format, of "length cts" c ?nx] ok c(2,6) obtain v vts used where
    v: "forE exec (construct_node d) c = Inr v" "built c used v" "erase (CNode x vts) = tree_of d"
    "rep False (nodes (b_mem v)) (assoc_array_node_to_ptr ?a) (length cts) (CNode x vts)"
    "set (concat (map addrs vts)) \<subseteq> set used" "Suc (length used) = nnodes (tree_of d)"
    by auto
  from v(4) obtain nv where nv: "nodes (b_mem v) x = Some nv"
    "back_pointer nv = assoc_array_node_to_ptr ?a" by auto
  have al: "aligned ?a" using b by (simp add: building_def)
  let ?v = "v\<lparr>b_node := ?a\<rparr>"
  have bx: "b_node v = x" using v(2) c(2) by (simp add: built_def)
  have pv: "exec GetParent v = Inr ?v"
    by (rule leave_child) (use nv bx al in auto)
  have run: "forE exec ([SetNode (int (length cts)), GetNode (int (length cts))] @
      construct_node d @ [GetParent]) b = Inr ?v"
    unfolding forE_append c(1) using v(1) pv by (simp add: forE_append)
  have fv: "frame (b_mem b) (b_mem v) (insert ?a (set (x # used)))"
    using c(2,5) v(2) by (auto simp: built_def intro: frame_trans)
  have pl: "pool (b_mem b) = (x # used) @ pool (b_mem v)"
    using x c(4) v(2) by (simp add: built_def)
  have "?a \<notin> insert x (set used)"
  proof -
    have "fresh_pool (b_mem b)" and na: "nodes (b_mem b) ?a \<noteq> None"
      using b by (auto simp: building_def)
    with fresh_not_live [of "b_mem b" "x # used", OF _ pl, of ?a] show ?thesis by auto
  qed
  then have va: "nodes (b_mem v) ?a =
      Some (n\<lparr>slots := map ptr_of cts @ ptr_of (CNode x vts) # replicate k 0\<rparr>)"
    using c(2,7) v(2) by (simp add: built_def frame_def)
  have sub: "set (addrs (CNode x vts)) \<subseteq> set (x # used)" using v(5) by auto
  have "building (b_mem v) ?a n (cts @ [CNode x vts]) k"
    by (rule building_next [OF b fv pl va v(4) sub])
  moreover have "built b (x # used) ?v"
    using fv pl c(3) v(2) by (simp add: built_def)
  ultimately show ?thesis
    using run v(3,6) sub by (intro exI [of _ ?v] exI [of _ "CNode x vts"] exI [of _ "x # used"]) simp
qed

lemma slots_built:
  assumes "dumps_ok (length cts) ds" and "building (b_mem b) (b_node b) n cts (length ds)"
    and "sum_list (map (nnodes \<circ> tree_of) ds) \<le> length (pool (b_mem b))"
    and "\<And>d. d \<in> set ds \<Longrightarrow> is_Node (tree_of d) \<Longrightarrow> builds d"
  shows "\<exists>b' cus used. forE exec (construct_slots (length cts) ds) b = Inr b' \<and> built b used b' \<and>
    map erase cus = map tree_of ds \<and> building (b_mem b') (b_node b) n (cts @ cus) 0 \<and>
    set (concat (map addrs cus)) \<subseteq> set used \<and> length used = sum_list (map (nnodes \<circ> tree_of) ds)"
  using assms
proof (induction ds arbitrary: b cts)
  case Nil
  then show ?case by (intro exI [of _ b] exI [of _ "[]"]) (simp add: built_def)
next
  case (Cons d ds)
  let ?pre = "case d of DHole \<Rightarrow> [] | DLeaf p \<Rightarrow> [SetLeaf (int (length cts)) p]
    | DNode s nr us \<Rightarrow> [SetNode (int (length cts)), GetNode (int (length cts))] @
        construct_node d @ [GetParent]"
  note bd = Cons.prems(2) [simplified length_Cons]
  have "\<exists>b' cu used. forE exec ?pre b = Inr b' \<and> built b used b' \<and> erase cu = tree_of d \<and>
      building (b_mem b') (b_node b) n (cts @ [cu]) (length ds) \<and> set (addrs cu) \<subseteq> set used \<and>
      length used = nnodes (tree_of d)"
  proof (cases d)
    case DHole
    then show ?thesis
      using building_hole [OF bd]
      by (intro exI [of _ b] exI [of _ CHole] exI [of _ "[]"]) (simp add: built_def)
  next
    case (DLeaf p)
    let ?m = "put_node (b_node b) (n\<lparr>slots := map ptr_of cts @ p # replicate (length ds) 0\<rparr>) (b_mem b)"
    have fr: "frame (b_mem b) ?m (insert (b_node b) (set []))" by (simp add: frame_put_node)
    have "building ?m (b_node b) n (cts @ [CLeaf p]) (length ds)"
      by (rule building_next [OF bd fr]) (use Cons.prems(1) DLeaf in simp_all)
    moreover have "forE exec ?pre b = Inr (b\<lparr>b_mem := ?m\<rparr>)"
      using building_write [OF bd] DLeaf by (simp add: set_leaf_def)
    moreover have "built b [] (b\<lparr>b_mem := ?m\<rparr>)" using fr by (simp add: built_def)
    ultimately show ?thesis
      using DLeaf by (intro exI [of _ "b\<lparr>b_mem := ?m\<rparr>"] exI [of _ "CLeaf p"] exI [of _ "[]"]) simp
  next
    case (DNode s nr us)
    have "dump_ok (length cts) d" "builds d" "nnodes (tree_of d) \<le> length (pool (b_mem b))"
      using Cons.prems(1,3) Cons.prems(4) [of d] DNode by simp_all
    from child_built [OF DNode this(1,2) bd this(3)] show ?thesis using DNode by simp
  qed
  then obtain b1 cu used1 where 1: "forE exec ?pre b = Inr b1" "built b used1 b1"
    "erase cu = tree_of d" "building (b_mem b1) (b_node b) n (cts @ [cu]) (length ds)"
    "set (addrs cu) \<subseteq> set used1" "length used1 = nnodes (tree_of d)" by blast
  have nb: "b_node b1 = b_node b" and pb: "length (pool (b_mem b)) =
      nnodes (tree_of d) + length (pool (b_mem b1))"
    using 1(2,6) by (simp_all add: built_def)
  have "\<exists>b' cus used. forE exec (construct_slots (length (cts @ [cu])) ds) b1 = Inr b' \<and>
      built b1 used b' \<and> map erase cus = map tree_of ds \<and>
      building (b_mem b') (b_node b1) n ((cts @ [cu]) @ cus) 0 \<and>
      set (concat (map addrs cus)) \<subseteq> set used \<and> length used = sum_list (map (nnodes \<circ> tree_of) ds)"
    by (rule Cons.IH) (use Cons.prems(1,3,4) 1(4) nb pb in auto)
  then obtain b2 cus used2 where 2:
    "forE exec (construct_slots (Suc (length cts)) ds) b1 = Inr b2" "built b1 used2 b2"
    "map erase cus = map tree_of ds" "building (b_mem b2) (b_node b) n (cts @ cu # cus) 0"
    "set (concat (map addrs cus)) \<subseteq> set used2"
    "length used2 = sum_list (map (nnodes \<circ> tree_of) ds)"
    using nb by auto
  have "forE exec (construct_slots (length cts) (d # ds)) b = Inr b2"
    using 1(1) 2(1) by (simp add: forE_append del: construct_node.simps)
  then show ?case
    using built_trans [OF 1(2) 2(2)] 1(3,5,6) 2(3-6)
    by (intro exI [of _ b2] exI [of _ "cu # cus"] exI [of _ "used1 @ used2"])
      (auto simp: comp_def)
qed

lemma builds_all: "is_Node (tree_of d) \<Longrightarrow> builds d"
proof (induction d)
  case (DNode s nr ds)
  show ?case
    unfolding builds_def
  proof (intro allI impI, elim conjE)
    fix i and b :: build and n
    assume ok: "dump_ok i (DNode s nr ds)"
      and bd: "building (b_mem b) (b_node b) n [] 16"
      and p: "nnodes (tree_of (DNode s nr ds)) \<le> Suc (length (pool (b_mem b)))"
    let ?n = "n\<lparr>slots := replicate 16 0\<rparr>"
    let ?m = "put_node (b_node b) (?n\<lparr>parent_slot := s, nr_leaves_on_branch := nr\<rparr>) (b_mem b)"
    let ?b = "b\<lparr>b_mem := ?m\<rparr>"
    have na: "nodes (b_mem b) (b_node b) = Some ?n" using bd by (simp add: building_def)
    have st: "exec (SetData s nr) b = Inr ?b" using na by (simp add: set_data_def get_node_Some)
    have bb: "building (b_mem ?b) (b_node ?b) (n\<lparr>parent_slot := s, nr_leaves_on_branch := nr\<rparr>) []
        (length ds)"
      using bd ok na by (auto simp: building_def fresh_pool_def)
    have "dumps_ok (length []) ds" using ok by simp
    moreover have "sum_list (map (nnodes \<circ> tree_of) ds) \<le> length (pool (b_mem ?b))"
      using p by (simp add: comp_def)
    ultimately obtain b' cus used where r: "forE exec (construct_slots 0 ds) ?b = Inr b'"
      "built ?b used b'" "map erase cus = map tree_of ds"
      "building (b_mem b') (b_node b) (n\<lparr>parent_slot := s, nr_leaves_on_branch := nr\<rparr>) cus 0"
      "set (concat (map addrs cus)) \<subseteq> set used" "length used = sum_list (map (nnodes \<circ> tree_of) ds)"
      using slots_built [of "[]" ds ?b, OF _ bb] DNode.IH by auto
    have "built b used b'"
      using r(2) by (auto simp: built_def frame_def)
    moreover have "forE exec (construct_node (DNode s nr ds)) b = Inr b'"
      using st r(1) by simp
    moreover have "rep False (nodes (b_mem b')) (back_pointer n) i (CNode (b_node b) cus)"
      using r(4) ok by (simp add: building_def)
    moreover have "erase (CNode (b_node b) cus) = tree_of (DNode s nr ds)" using r(3) by simp
    ultimately show "\<exists>b' cts used. forE exec (construct_node (DNode s nr ds)) b = Inr b' \<and>
        built b used b' \<and> erase (CNode (b_node b) cts) = tree_of (DNode s nr ds) \<and>
        rep False (nodes (b_mem b')) (back_pointer n) i (CNode (b_node b) cts) \<and>
        set (concat (map addrs cts)) \<subseteq> set used \<and>
        Suc (length used) = nnodes (tree_of (DNode s nr ds))"
      using r(5,6)
      by (intro exI [of _ b'] exI [of _ cus] exI [of _ used]) (simp add: comp_def del: construct_node.simps)
  qed
qed auto

text \<open>\<open>make_array\<close>: the zeroed array, and the statements run on it.\<close>

definition make_array :: "stmt list \<Rightarrow> mem \<Rightarrow> gc_stop + build" where
  "make_array stmts m =
     forE exec stmts \<lparr>b_mem = m, b_array = \<lparr>root = 0, nr_leaves_on_tree = 0\<rparr>, b_node = 0\<rparr>"

lemma make_array_builds:
  assumes d: "d = DNode s w ds" and ok: "dump_ok 0 d" and f: "fresh_pool m"
    and p: "nnodes (tree_of d) \<le> length (pool m)" and l: "nleaves (tree_of d) < 2 ^ 64"
  shows "\<exists>b t. make_array (construct_stmts nr d) m = Inr b \<and> erase t = tree_of d \<and>
    wf_array (b_mem b) (b_array b) t \<and> nr_leaves_on_tree (b_array b) = nr \<and>
    length (pool m) = nnodes (tree_of d) + length (pool (b_mem b))"
proof -
  obtain x xs where x: "pool m = x # xs" using p d by (cases "pool m") auto
  have ax: "aligned x" "x \<noteq> 0" using f x by (auto simp: fresh_pool_def aligned_def)
  let ?m = "put_node x zero_node (m\<lparr>pool := xs\<rparr>)"
  let ?b = "\<lparr>b_mem = ?m, b_array = \<lparr>root = assoc_array_node_to_ptr x, nr_leaves_on_tree = nr\<rparr>,
    b_node = x\<rparr>"
  have start: "make_array (construct_stmts nr d) m = forE exec (construct_node d) ?b"
    using x ax by (simp add: make_array_def construct_stmts_def mknode_def malloc_def)
  have "fresh_pool ?m" using f x by (auto simp: fresh_pool_def)
  then have bd: "building (b_mem ?b) (b_node ?b) zero_node [] 16"
    using ax by (simp add: building_def zero_node_def)
  have bu: "builds d" using builds_all d by simp
  have pn: "nnodes (tree_of d) \<le> Suc (length (pool (b_mem ?b)))" using p x by simp
  from bu [unfolded builds_def, rule_format, OF conjI [OF ok conjI [OF bd pn]]]
  obtain b' cts used where r: "forE exec (construct_node d) ?b = Inr b'" "built ?b used b'"
    "erase (CNode x cts) = tree_of d" "rep False (nodes (b_mem b')) 0 0 (CNode x cts)"
    "Suc (length used) = nnodes (tree_of d)"
    by (auto simp: zero_node_def)
  have "fresh_pool (b_mem b')"
    by (rule fresh_pool_frame [OF \<open>fresh_pool ?m\<close>, of _ x used]) (use r(2) in \<open>auto simp: built_def\<close>)
  then have "wf_array (b_mem b') (b_array b') (CNode x cts)"
    using r(2-4) l by (simp add: wf_array_def built_def)
  moreover have "length (pool m) = nnodes (tree_of d) + length (pool (b_mem b'))"
    using r(2,5) x by (simp add: built_def)
  moreover have "nr_leaves_on_tree (b_array b') = nr" using r(2) by (simp add: built_def)
  ultimately show ?thesis using start r(1,3) by (intro exI [of _ b'] exI [of _ "CNode x cts"]) simp
qed

end
