(* ===== verification/AssocPrune.thy ===== *)
theory AssocPrune
  imports AssocTree
begin

text \<open>
  Evaluating the collection of \<open>AssocTree\<close> on a large tree: the leaves that go can
  be dropped first, memory that is left over does not matter, and a tree without
  leaves collapses to an empty node.
\<close>

section \<open>Dropping the leaves that go\<close>

fun filter_tree :: "('l \<Rightarrow> bool) \<Rightarrow> 'l tr \<Rightarrow> 'l tr" where
  "filter_tree keep Hole = Hole"
| "filter_tree keep (Leaf x) = (if keep x then Leaf x else Hole)"
| "filter_tree keep (Node ts) = Node (map (filter_tree keep) ts)"

lemma gct_filter:
  "gct retry keep k t = gct retry (\<lambda>_. True) k (filter_tree keep t)"
  "gcts retry keep k ts = gcts retry (\<lambda>_. True) k (map (filter_tree keep) ts)"
  by (induction retry keep k t and retry keep k ts rule: gct_gcts.induct)
    (auto simp: bindR_def split: nat.splits sum.splits)

lemma nnodes_filter [simp]: "nnodes (filter_tree keep t) = nnodes t"
  by (induction t) (auto simp: comp_def intro!: arg_cong [where f = sum_list])

lemma fan_out_filter [simp]: "fan_out (filter_tree keep t) = fan_out t"
  by (induction t) (auto simp: list_all_iff)

lemma nleaves_le_nodes: "fan_out t \<Longrightarrow> nleaves t \<le> 16 * nnodes t + (if is_Node t then 0 else 1)"
proof (induction t)
  case (Node ts)
  have "sum_list (map nleaves ts) \<le> sum_list (map (\<lambda>t. 16 * nnodes t + 1) ts)"
    using Node by (intro sum_list_mono) (fastforce simp: list_all_iff split: if_splits)
  then show ?case
    using Node.prems by (simp add: sum_list_addf sum_list_const_mult sum_list_triv
        sum_list_Suc)
qed simp_all

section \<open>Memory to spare\<close>

lemma gct_more:
  "gct retry keep k t = Inr (u, k') \<Longrightarrow> gct retry keep (k + j) t = Inr (u, k' + j)"
  "gcts retry keep k ts = Inr (us, k') \<Longrightarrow> gcts retry keep (k + j) ts = Inr (us, k' + j)"
  by (induction retry keep k t and retry keep k ts arbitrary: u k' and us k' rule: gct_gcts.induct)
    (fastforce simp: bindR_eq_Inr split: nat.splits)+

lemma gct_more_bug:
  "gct retry keep k t = Inl e \<Longrightarrow> e \<noteq> TNoMem \<Longrightarrow> gct retry keep (k + j) t = Inl e"
  "gcts retry keep k ts = Inl e \<Longrightarrow> e \<noteq> TNoMem \<Longrightarrow> gcts retry keep (k + j) ts = Inl e"
proof (induction retry keep k t and retry keep k ts rule: gct_gcts.induct)
  case (3 retry keep k ts)
  then obtain k1 where k: "k = Suc k1" by (cases k) auto
  from 3(2) k consider "gcts retry keep k1 ts = Inl e"
    | us k2 where "gcts retry keep k1 ts = Inr (us, k2)" "compress retry us = Inl e"
    by (auto simp: bindR_eq_Inl)
  then show ?case
    by cases (use 3(1) [OF k] 3(3) k gct_more(2) [of retry keep k1 ts _ _ j] in auto)
next
  case (5 retry keep k t ts)
  from 5(3) consider "gct retry keep k t = Inl e"
    | u k1 where "gct retry keep k t = Inr (u, k1)" "gcts retry keep k1 ts = Inl e"
    by (auto simp: bindR_eq_Inl)
  then show ?case
    by cases (use 5 gct_more(1) [of retry keep k t _ _ j] in auto)
qed auto

section \<open>Trees without leaves\<close>

definition empty_node :: "'l tr" where "empty_node = Node (replicate ASSOC_ARRAY_FAN_OUT Hole)"

lemma nleaves_slot_le: "j < length ts \<Longrightarrow> nleaves (ts ! j) \<le> nleaves (Node ts)"
  by (simp add: member_le_sum_list)

lemma gct_empty:
  "nleaves t = 0 \<Longrightarrow> fan_out t \<Longrightarrow> gct retry keep k t = Inr (u, k') \<Longrightarrow>
    u = (if is_Node t then empty_node else Hole)"
proof (cases t)
  case (Node ts)
  assume n: "nleaves t = 0" and f: "fan_out t" and g: "gct retry keep k t = Inr (u, k')"
  have t: "fan_out u" "leaves u = {#}" "is_Node u"
    using gct_shape(1) [OF g f] n Node by (simp_all add: nleaves_eq_size)
  then obtain vs where u: "u = Node vs" by (cases u) auto
  from g Node u obtain k1 us k2 where k: "k = Suc k1" "gcts retry keep k1 ts = Inr (us, k2)"
    "compress retry us = Inr vs" by (auto simp: bindR_eq_Inr split: nat.splits)
  have "length us = 16" using gct_shape(2) [OF k(2)] f Node by simp
  note c = compress_compressed [OF this k(3)]
  have "nleaves (vs ! j) = 0" if "j < 16" for j
    using nleaves_slot_le [of j vs] t(2) u that compressed_length [OF c] by (simp add: nleaves_eq_size)
  moreover have "2 \<le> nleaves (vs ! j)" if "j < 16" "is_Node (vs ! j)" for j
    using compressed_size [OF c that] .
  ultimately have "vs ! j = Hole" if "j < 16" for j
    using that by (cases "vs ! j") fastforce+
  then have "vs = replicate 16 Hole"
    using compressed_length [OF c] by (simp add: list_eq_iff_nth_eq)
  then show ?thesis using u Node by (simp add: empty_node_def)
qed auto

lemma gct_empty_no_bug:
  "gct retry keep k t = Inl e \<Longrightarrow> fan_out t \<Longrightarrow> nleaves t = 0 \<Longrightarrow> e = TNoMem"
  "gcts retry keep k ts = Inl e \<Longrightarrow> list_all fan_out ts \<Longrightarrow> nleaves (Node ts) = 0 \<Longrightarrow> e = TNoMem"
proof (induction retry keep k t and retry keep k ts rule: gct_gcts.induct)
  case (3 retry keep k ts)
  then have ts: "list_all fan_out ts" "length ts = 16" "nleaves (Node ts) = 0" by auto
  show ?case
  proof (cases k)
    case (Suc k1)
    from 3(2) Suc consider "gcts retry keep k1 ts = Inl e"
      | us k2 where "gcts retry keep k1 ts = Inr (us, k2)" "compress retry us = Inl e"
      by (auto simp: bindR_eq_Inl)
    then show ?thesis
    proof cases
      case 1
      then show ?thesis using 3(1) [OF Suc 1 ts(1,3)] by simp
    next
      case 2
      have "length us = 16" using gct_shape(2) [OF 2(1) ts(1)] ts(2) by simp
      from compress_error [OF this 2(2)] obtain j where j: "j < 16" "\<not> flat (us ! j)"
        by (auto simp: bug_child_def)
      obtain k3 k4 where g: "gct retry keep k3 (ts ! j) = Inr (us ! j, k4)"
        using gcts_nth [OF 2(1), of j] j(1) ts(2) by auto
      have "nleaves (ts ! j) = 0" "fan_out (ts ! j)"
        using nleaves_slot_le [of j ts] ts j(1) by (simp_all add: list_all_length)
      from gct_empty [OF this g] j(2) show ?thesis
        by (auto simp: flat_def empty_node_def list_all_iff split: if_splits)
    qed
  qed (use 3(2) in simp)
next
  case (5 retry keep k t ts)
  from 5(3) consider "gct retry keep k t = Inl e"
    | u k1 where "gct retry keep k t = Inr (u, k1)" "gcts retry keep k1 ts = Inl e"
    by (auto simp: bindR_eq_Inl)
  then show ?case by cases (use 5 in auto)
qed auto

text \<open>The collection of a tree all of whose leaves stay, empty subtrees at once.\<close>

fun gce :: "(bool \<Rightarrow> u64 \<Rightarrow> bool) \<Rightarrow> nat \<Rightarrow> 'l tr \<Rightarrow> tr_err + 'l tr \<times> nat"
and gces :: "(bool \<Rightarrow> u64 \<Rightarrow> bool) \<Rightarrow> nat \<Rightarrow> 'l tr list \<Rightarrow> tr_err + 'l tr list \<times> nat" where
  "gce retry k Hole = Inr (Hole, k)"
| "gce retry k (Leaf x) = Inr (Leaf x, k)"
| "gce retry k (Node ts) =
     (if nleaves (Node ts) = 0 \<and> nnodes (Node ts) \<le> k
      then Inr (empty_node, k - nnodes (Node ts))
      else case k of 0 \<Rightarrow> Inl TNoMem
      | Suc k' \<Rightarrow> bindR (gces retry k' ts) (\<lambda>(us, k'').
          bindR (compress retry us) (\<lambda>vs. Inr (Node vs, k''))))"
| "gces retry k [] = Inr ([], k)"
| "gces retry k (t # ts) = bindR (gce retry k t) (\<lambda>(u, k').
     bindR (gces retry k' ts) (\<lambda>(us, k''). Inr (u # us, k'')))"

lemma gce_gct:
  fixes t :: "'l tr" and ts :: "'l tr list"
  shows
  "fan_out t \<Longrightarrow> gce retry k t = gct retry (\<lambda>_. True) k t"
    and "list_all fan_out ts \<Longrightarrow> gces retry k ts = gcts retry (\<lambda>_. True) k ts"
proof (induction retry k t and retry k ts rule: gce_gces.induct)
  case (3 retry k ts)
  show ?case
  proof (cases "nleaves (Node ts) = 0 \<and> nnodes (Node ts) \<le> k")
    case True
    obtain y where y: "gct retry (\<lambda>_. True) k (Node ts) = Inr y"
      using gct_empty_no_bug(1) [OF _ 3(2)] gct_errors(1) [OF _ 3(2)] True
      by (cases "gct retry (\<lambda>_. True) k (Node ts)") fastforce+
    obtain u k' where uk: "y = (u, k')" by (cases y)
    have "u = empty_node" "k = k' + nnodes (Node ts)"
      using gct_empty [OF _ 3(2) y [unfolded uk]] True gct_shape(1) [OF y [unfolded uk] 3(2)]
      by simp_all
    then show ?thesis using y uk True by simp
  next
    case False
    show ?thesis
    proof (cases k)
      case (Suc k1)
      have "gces retry k1 ts = gcts retry (\<lambda>_. True) k1 ts"
        using 3(1) [OF False Suc] 3(2) by simp
      then show ?thesis using False Suc by (auto simp del: nleaves.simps nnodes.simps)
    qed simp
  qed
next
  case (5 retry k t ts)
  then show ?case by (auto simp: bindR_def split: sum.splits)
qed auto

end
