(* ===== verification/AssocCapture.thy ===== *)
theory AssocCapture
  imports AssocConstruct AssocPrune
begin

text \<open>
  The array captured from a core dump: the statements of
  \<open>src/assoc_array_gc/construct_array.c\<close>, one definition per child of the root, and
  the iterator of \<open>repro.c\<close> that keeps fifteen of its 1028 leaves.
\<close>

section \<open>The statements (construct_array.c)\<close>

text \<open>The root, whose slot 0 is empty (lines 1 to 4).\<close>

definition construct_array_root :: "stmt list" where
  "construct_array_root = [SetNrLeaves 1028, Mknode, SetRoot, SetData 0 0x404]"

definition construct_array_1 :: "stmt list" where
  "construct_array_1 = [
    SetNode 1, GetNode 1, SetData 1 0x44, SetNode 0, GetNode 0, SetData 0 0x2,
    SetLeaf 0 0xffff88bb7f022d00, SetLeaf 1 0xffff88bf09a50c00, GetParent, SetNode 1, GetNode 1,
    SetData 1 0x5, SetLeaf 0 0xffff88b50248fc00, SetLeaf 1 0xffff88bc33764400,
    SetLeaf 13 0xffff88bcc511a100, SetLeaf 14 0xffff88b4f2672800, SetLeaf 15 0xffff88b5bf6db100,
    GetParent, SetLeaf 2 0xffff88b1b8f45700, SetNode 3, GetNode 3, SetData 3 0x3,
    SetLeaf 1 0xffff88b65bd17f00, SetLeaf 14 0xffff88bfaf045e00, SetLeaf 15 0xffff88b2fc14a100,
    GetParent, SetNode 4, GetNode 4, SetData 4 0x6, SetLeaf 0 0xffff88bf08e8c600,
    SetLeaf 1 0xffff88b9f7cd1600, SetLeaf 12 0xffff88b658b69000, SetLeaf 13 0xffff88bae33dfb00,
    SetLeaf 14 0xffff88bb681cbf00, SetLeaf 15 0xffff88bd73f4da00, GetParent, SetNode 5, GetNode 5,
    SetData 5 0x6, SetLeaf 0 0xffff88b3f9f0ae00, SetLeaf 1 0xffff88b3af414900,
    SetLeaf 12 0xffff88b9dde9e600, SetLeaf 13 0xffff88b5bf6dbc00, SetLeaf 14 0xffff88b86f0dea00,
    SetLeaf 15 0xffff88b50b10f200, GetParent, SetNode 6, GetNode 6, SetData 6 0x9,
    SetLeaf 0 0xffff88b92c1c3200, SetLeaf 1 0xffff88bd8d054500, SetLeaf 2 0xffff88ba969df600,
    SetLeaf 3 0xffff88b73efa2d00, SetLeaf 11 0xffff88b24702b300, SetLeaf 12 0xffff88b447f6fa00,
    SetLeaf 13 0xffff88b9389e5200, SetLeaf 14 0xffff889cdf175500, SetLeaf 15 0xffff88b4338a1d00,
    GetParent, SetNode 7, GetNode 7, SetData 7 0x4, SetLeaf 0 0xffff88bcc511b900,
    SetLeaf 1 0xffff88b658b1f600, SetLeaf 2 0xffff88be12c57000, SetLeaf 3 0xffff88b8a08e2500,
    GetParent, SetNode 8, GetNode 8, SetData 8 0x4, SetLeaf 0 0xffff88bcc1e88900,
    SetLeaf 1 0xffff88b8a08e3700, SetLeaf 2 0xffff88b724c04d00, SetLeaf 15 0xffff88ba0a3f1100,
    GetParent, SetNode 9, GetNode 9, SetData 9 0x3, SetLeaf 0 0xffff88b5ed64b300,
    SetLeaf 1 0xffff88bc4ecb6f00, SetLeaf 15 0xffff88bcbd6afb00, GetParent, SetNode 10, GetNode 10,
    SetData 10 0x3, SetLeaf 0 0xffff88b67c7f8200, SetLeaf 1 0xffff88bd838c9000,
    SetLeaf 15 0xffff88b65c173100, GetParent, SetNode 11, GetNode 11, SetData 11 0x9,
    SetLeaf 0 0xffff88b9df224100, SetLeaf 1 0xffff88b31c580000, SetLeaf 2 0xffff88ba98c1a500,
    SetLeaf 3 0xffff88b447f6f700, SetLeaf 11 0xffff88b66cd13e00, SetLeaf 12 0xffff88b65c172c00,
    SetLeaf 13 0xffff88b741c52d00, SetLeaf 14 0xffff88b803a1c800, SetLeaf 15 0xffff88b5bd941700,
    GetParent, SetNode 12, GetNode 12, SetData 12 0x5, SetLeaf 0 0xffff88b68f006c00,
    SetLeaf 1 0xffff88b67223da00, SetLeaf 13 0xffff88b4f8e7c100, SetLeaf 14 0xffff88bd8c19a000,
    SetLeaf 15 0xffff88b4f2673000, GetParent, SetNode 13, GetNode 13, SetData 13 0x5,
    SetLeaf 0 0xffff88bb9b35ab00, SetLeaf 1 0xffff88baa849ab00, SetLeaf 2 0xffff88bae43cc200,
    SetLeaf 14 0xffff88b5e7705d00, SetLeaf 15 0xffff88b67f542100, GetParent,
    SetLeaf 14 0xffff88b938d48b00, SetNode 15, GetNode 15, SetData 15 0x2,
    SetLeaf 0 0xffff88bc595a0e00, SetLeaf 1 0xffff88b1157e7600, GetParent, GetParent]"

definition construct_array_2 :: "stmt list" where
  "construct_array_2 = [
    SetNode 2, GetNode 2, SetData 2 0x44, SetNode 0, GetNode 0, SetData 0 0x3,
    SetLeaf 0 0xffff88b68f007300, SetLeaf 1 0xffff88b5ed64a600, SetLeaf 15 0xffff88bc2a8bdb00,
    GetParent, SetNode 1, GetNode 1, SetData 1 0x5, SetLeaf 0 0xffff88ba1396e200,
    SetLeaf 1 0xffff88b68f045300, SetLeaf 13 0xffff88b9400a2800, SetLeaf 14 0xffff88b5ac34a600,
    SetLeaf 15 0xffff88b72b663b00, GetParent, SetNode 2, GetNode 2, SetData 2 0x5,
    SetLeaf 0 0xffff88bfaf1ff000, SetLeaf 1 0xffff88b803a1de00, SetLeaf 13 0xffff88b9699d6100,
    SetLeaf 14 0xffff88bb7ee4d500, SetLeaf 15 0xffff88bb877f3500, GetParent, SetNode 3, GetNode 3,
    SetData 3 0x5, SetLeaf 0 0xffff88bb62aa1200, SetLeaf 1 0xffff88b7b81fbe00,
    SetLeaf 2 0xffff88b4430e0000, SetLeaf 14 0xffff88b870b2a500, SetLeaf 15 0xffff88b983049b00,
    GetParent, SetNode 4, GetNode 4, SetData 4 0x4, SetLeaf 0 0xffff88b329ced300,
    SetLeaf 1 0xffff88b5c9ef7600, SetLeaf 14 0xffff88be4595b200, SetLeaf 15 0xffff88b3ce0a0300,
    GetParent, SetNode 5, GetNode 5, SetData 5 0x3, SetLeaf 0 0xffff88b3b870a900,
    SetLeaf 1 0xffff88b89f7da900, SetLeaf 15 0xffff88b5bf6da300, GetParent, SetNode 6, GetNode 6,
    SetData 6 0x4, SetLeaf 0 0xffff88b72e996100, SetLeaf 1 0xffff88bee4b6ba00,
    SetLeaf 2 0xffff88b670208100, SetLeaf 15 0xffff88b445b9c600, GetParent, SetNode 7, GetNode 7,
    SetData 7 0x5, SetLeaf 0 0xffff88b5a35e5e00, SetLeaf 1 0xffff88b68f007900,
    SetLeaf 2 0xffff88b7ec82dc00, SetLeaf 14 0xffff88b33577ab00, SetLeaf 15 0xffff88b7d9eae100,
    GetParent, SetNode 8, GetNode 8, SetData 8 0x3, SetLeaf 0 0xffff88bd73d9dd00,
    SetLeaf 1 0xffff88b5bf4a3800, SetLeaf 15 0xffff88ba1c593c00, GetParent, SetNode 9, GetNode 9,
    SetData 9 0x4, SetLeaf 0 0xffff88bfc22b6600, SetLeaf 1 0xffff88bef19d0100,
    SetLeaf 14 0xffff88be12c57400, SetLeaf 15 0xffff88b5bf9d1600, GetParent, SetNode 10,
    GetNode 10, SetData 10 0x5, SetLeaf 0 0xffff88b5d2ca4000, SetLeaf 1 0xffff88b8713cd200,
    SetLeaf 13 0xffff88b1b27a6500, SetLeaf 14 0xffff88b7efd1c100, SetLeaf 15 0xffff88b72c5cbd00,
    GetParent, SetNode 11, GetNode 11, SetData 11 0x3, SetLeaf 0 0xffff88bd76d4d400,
    SetLeaf 1 0xffff88bae471fa00, SetLeaf 15 0xffff88b9fdc45f00, GetParent, SetNode 12, GetNode 12,
    SetData 12 0x6, SetLeaf 0 0xffff88b24a0cbf00, SetLeaf 1 0xffff88b32f52b300,
    SetLeaf 2 0xffff88bd73d9db00, SetLeaf 13 0xffff88ba1c592500, SetLeaf 14 0xffff88b68f045a00,
    SetLeaf 15 0xffff88bc2a4ee400, GetParent, SetNode 13, GetNode 13, SetData 13 0x4,
    SetLeaf 0 0xffff88b31c580300, SetLeaf 1 0xffff88bc3364f500, SetLeaf 2 0xffff88b4f3992700,
    SetLeaf 15 0xffff88b8a08e2100, GetParent, SetNode 14, GetNode 14, SetData 14 0x4,
    SetLeaf 0 0xffff88b714dd3d00, SetLeaf 1 0xffff88b46a311e00, SetLeaf 14 0xffff88bf0c856d00,
    SetLeaf 15 0xffff88ba1f4a5b00, GetParent, SetNode 15, GetNode 15, SetData 15 0x5,
    SetLeaf 0 0xffff88bc2e080b00, SetLeaf 1 0xffff88bac3098d00, SetLeaf 13 0xffff88b67f542200,
    SetLeaf 14 0xffff88bab1788f00, SetLeaf 15 0xffff88b95fda5e00, GetParent, GetParent]"

definition construct_array_3 :: "stmt list" where
  "construct_array_3 = [
    SetNode 3, GetNode 3, SetData 3 0x44, SetNode 0, GetNode 0, SetData 0 0xa,
    SetLeaf 0 0xffff88b9df225300, SetLeaf 1 0xffff88b24f421400, SetLeaf 2 0xffff88b50b0f7f00,
    SetLeaf 9 0xffff88b730122000, SetLeaf 10 0xffff88b65c173600, SetLeaf 11 0xffff88bcbd6aeb00,
    SetLeaf 12 0xffff88bb83cd6600, SetLeaf 13 0xffff88b23fa01500, SetLeaf 14 0xffff88bccb172600,
    SetLeaf 15 0xffff88bba053da00, GetParent, SetNode 1, GetNode 1, SetData 1 0x7,
    SetLeaf 0 0xffff88bfac756100, SetLeaf 1 0xffff88be2f880700, SetLeaf 11 0xffff88ba0ef58700,
    SetLeaf 12 0xffff88b870b2a400, SetLeaf 13 0xffff88b3ef08aa00, SetLeaf 14 0xffff88b6828c4f00,
    SetLeaf 15 0xffff88b47e6e2800, GetParent, SetNode 2, GetNode 2, SetData 2 0x3,
    SetLeaf 0 0xffff88b89f556600, SetLeaf 1 0xffff88b9400a3a00, SetLeaf 15 0xffff88bac67d4200,
    GetParent, SetNode 3, GetNode 3, SetData 3 0x7, SetLeaf 0 0xffff88b9df224500,
    SetLeaf 1 0xffff88bf996a1100, SetLeaf 2 0xffff88bb87233000, SetLeaf 12 0xffff88b8aacdcf00,
    SetLeaf 13 0xffff88b7e1b43d00, SetLeaf 14 0xffff88be498d5200, SetLeaf 15 0xffff88b1b8015400,
    GetParent, SetNode 4, GetNode 4, SetData 4 0x4, SetLeaf 0 0xffff88bfc22b7400,
    SetLeaf 1 0xffff88bd76d4d500, SetLeaf 14 0xffff88b10ab7ac00, SetLeaf 15 0xffff88b24daacb00,
    GetParent, SetNode 5, GetNode 5, SetData 5 0x4, SetLeaf 0 0xffff88b24702b100,
    SetLeaf 1 0xffff88ba98c1a100, SetLeaf 14 0xffff88b9fce0ca00, SetLeaf 15 0xffff88b1b8f44e00,
    GetParent, SetLeaf 6 0xffff88b10a125200, SetNode 7, GetNode 7, SetData 7 0x3,
    SetLeaf 0 0xffff88be767d6000, SetLeaf 1 0xffff88b89f5caf00, SetLeaf 15 0xffff88baf060e200,
    GetParent, SetNode 8, GetNode 8, SetData 8 0x4, SetLeaf 0 0xffff88bc3ff33400,
    SetLeaf 1 0xffff88bc1e4cff00, SetLeaf 2 0xffff88be5376ea00, SetLeaf 3 0xffff88b687c1a900,
    GetParent, SetNode 9, GetNode 9, SetData 9 0x4, SetLeaf 0 0xffff88bab100fa00,
    SetLeaf 1 0xffff88b5cdc32900, SetLeaf 14 0xffff88ba1c699500, SetLeaf 15 0xffff88bc59547700,
    GetParent, SetNode 10, GetNode 10, SetData 10 0x2, SetLeaf 0 0xffff88be33581c00,
    SetLeaf 1 0xffff88b3e20ca400, GetParent, SetNode 11, GetNode 11, SetData 11 0x2,
    SetLeaf 0 0xffff88b68abdbf00, SetLeaf 1 0xffff88b9ea8f9c00, GetParent, SetNode 12, GetNode 12,
    SetData 12 0x5, SetLeaf 0 0xffff88babf186b00, SetLeaf 1 0xffff88b4f2672b00,
    SetLeaf 2 0xffff88bd8d055800, SetLeaf 14 0xffff88bd8c19a900, SetLeaf 15 0xffff88bb681ca600,
    GetParent, SetNode 13, GetNode 13, SetData 13 0x6, SetLeaf 0 0xffff88b4f2673500,
    SetLeaf 1 0xffff88bb7547c700, SetLeaf 2 0xffff88bc3364f600, SetLeaf 13 0xffff88bd76d4c500,
    SetLeaf 14 0xffff88b9e5155600, SetLeaf 15 0xffff88bc3da2eb00, GetParent, SetNode 14,
    GetNode 14, SetData 14 0x3, SetLeaf 0 0xffff88bccb16c900, SetLeaf 1 0xffff88bd838c9100,
    SetLeaf 15 0xffff88bd88ee8b00, GetParent, SetNode 15, GetNode 15, SetData 15 0x3,
    SetLeaf 0 0xffff88b3b6bb3600, SetLeaf 1 0xffff88b504917a00, SetLeaf 15 0xffff88b450769c00,
    GetParent, GetParent]"

definition construct_array_4 :: "stmt list" where
  "construct_array_4 = [
    SetNode 4, GetNode 4, SetData 4 0x44, SetNode 0, GetNode 0, SetData 0 0x7,
    SetLeaf 0 0xffff88b803e4c100, SetLeaf 1 0xffff88b9ddd0b500, SetLeaf 2 0xffff88b7d9eaf700,
    SetLeaf 3 0xffff88ba97402600, SetLeaf 13 0xffff88b6770dd900, SetLeaf 14 0xffff88b4f2672e00,
    SetLeaf 15 0xffff88a1d33c3300, GetParent, SetLeaf 1 0xffff88b67223c000, SetNode 2, GetNode 2,
    SetData 2 0x7, SetLeaf 0 0xffff8897f3c78f00, SetLeaf 1 0xffff88b442aba000,
    SetLeaf 11 0xffff88bcbd53c200, SetLeaf 12 0xffff88bc4ecb7000, SetLeaf 13 0xffff88b3d6297400,
    SetLeaf 14 0xffff88b50b10ea00, SetLeaf 15 0xffff88bfc516ca00, GetParent, SetNode 3, GetNode 3,
    SetData 3 0x3, SetLeaf 0 0xffff88b0ecf48c00, SetLeaf 1 0xffff88bd7b1ba300,
    SetLeaf 15 0xffff88b5ef3e5700, GetParent, SetNode 4, GetNode 4, SetData 4 0x4,
    SetLeaf 0 0xffff88b1b8015700, SetLeaf 1 0xffff88b1a700d000, SetLeaf 14 0xffff88b3ef1bf800,
    SetLeaf 15 0xffff88b5dfe4df00, GetParent, SetNode 5, GetNode 5, SetData 5 0x4,
    SetLeaf 0 0xffff88bd7b3b5800, SetLeaf 1 0xffff88b3b8542d00, SetLeaf 14 0xffff88b3fbad9000,
    SetLeaf 15 0xffff88baa84d1400, GetParent, SetNode 6, GetNode 6, SetData 6 0x5,
    SetLeaf 0 0xffff88b4338a1000, SetLeaf 1 0xffff88b25dc23d00, SetLeaf 13 0xffff88b6522c8700,
    SetLeaf 14 0xffff88b93428a600, SetLeaf 15 0xffff88ba0a3f1f00, GetParent, SetNode 7, GetNode 7,
    SetData 7 0x6, SetLeaf 0 0xffff88b254f92400, SetLeaf 1 0xffff88b5efda8a00,
    SetLeaf 12 0xffff88b4d96a5100, SetLeaf 13 0xffff88b4f2672c00, SetLeaf 14 0xffff88bb628c9c00,
    SetLeaf 15 0xffff88bba053db00, GetParent, SetNode 8, GetNode 8, SetData 8 0x6,
    SetLeaf 0 0xffff88b5dfd22900, SetLeaf 1 0xffff88bfc22b7f00, SetLeaf 12 0xffff88b1b87de500,
    SetLeaf 13 0xffff88b0ea3d3b00, SetLeaf 14 0xffff88befb4a9100, SetLeaf 15 0xffff88a1d33c3f00,
    GetParent, SetNode 9, GetNode 9, SetData 9 0x3, SetLeaf 0 0xffff88bc2e29d400,
    SetLeaf 1 0xffff88bb62aa0000, SetLeaf 15 0xffff88b8aad51800, GetParent, SetNode 10, GetNode 10,
    SetData 10 0x2, SetLeaf 0 0xffff88b11cbd1600, SetLeaf 1 0xffff88be5334d500, GetParent,
    SetNode 11, GetNode 11, SetData 11 0x4, SetLeaf 0 0xffff88be498d5e00,
    SetLeaf 1 0xffff88bc2a834500, SetLeaf 14 0xffff88bee554e400, SetLeaf 15 0xffff88bd8c19b500,
    GetParent, SetNode 12, GetNode 12, SetData 12 0x4, SetLeaf 0 0xffff88babf186200,
    SetLeaf 1 0xffff88babf186500, SetLeaf 2 0xffff889cdf175f00, SetLeaf 15 0xffff88b6770dde00,
    GetParent, SetNode 13, GetNode 13, SetData 13 0x6, SetLeaf 0 0xffff88bc41626600,
    SetLeaf 1 0xffff88b31c581000, SetLeaf 2 0xffff88b0f1bf8300, SetLeaf 13 0xffff88b44c3a4200,
    SetLeaf 14 0xffff88bf03793400, SetLeaf 15 0xffff88bc5cd1f500, GetParent, SetNode 14,
    GetNode 14, SetData 14 0x3, SetLeaf 0 0xffff88b926fd4000, SetLeaf 1 0xffff88bc27c38600,
    SetLeaf 15 0xffff88babbaa8800, GetParent, SetNode 15, GetNode 15, SetData 15 0x3,
    SetLeaf 0 0xffff88bd8d224e00, SetLeaf 1 0xffff88b89f5cb000, SetLeaf 15 0xffff889b78480300,
    GetParent, GetParent]"

definition construct_array_5 :: "stmt list" where
  "construct_array_5 = [
    SetNode 5, GetNode 5, SetData 5 0x4a, SetNode 0, GetNode 0, SetData 0 0x6,
    SetLeaf 0 0xffff88b9f7cd1c00, SetLeaf 1 0xffff88b45b7c0200, SetLeaf 12 0xffff88bcc511bf00,
    SetLeaf 13 0xffff88bd838c9a00, SetLeaf 14 0xffff88ba08d50c00, SetLeaf 15 0xffff88b51f4d9900,
    GetParent, SetNode 1, GetNode 1, SetData 1 0x4, SetLeaf 0 0xffff88b6a3a0aa00,
    SetLeaf 1 0xffff88bc27caaa00, SetLeaf 14 0xffff88bc463ced00, SetLeaf 15 0xffff88befb794100,
    GetParent, SetNode 2, GetNode 2, SetData 2 0x2, SetLeaf 0 0xffff88b72d2e9800,
    SetLeaf 1 0xffff88bccb16c300, GetParent, SetNode 3, GetNode 3, SetData 3 0x5,
    SetLeaf 0 0xffff88bed44c0900, SetLeaf 1 0xffff88b24702b000, SetLeaf 13 0xffff88b4715d2400,
    SetLeaf 14 0xffff88bf09a51c00, SetLeaf 15 0xffff88b5ed64a000, GetParent, SetNode 4, GetNode 4,
    SetData 4 0x2, SetLeaf 0 0xffff88bf0ac84f00, SetLeaf 1 0xffff88bd73d9d700, GetParent,
    SetNode 5, GetNode 5, SetData 5 0x5, SetLeaf 0 0xffff88ba969df200,
    SetLeaf 1 0xffff88bc2e29c400, SetLeaf 13 0xffff88bed1844a00, SetLeaf 14 0xffff88b1b27a6e00,
    SetLeaf 15 0xffff88b5bf6daf00, GetParent, SetNode 6, GetNode 6, SetData 6 0x4,
    SetLeaf 0 0xffff88b9f7cd1800, SetLeaf 1 0xffff88bc31173700, SetLeaf 14 0xffff88b5e7705300,
    SetLeaf 15 0xffff88b4efb7f400, GetParent, SetNode 7, GetNode 7, SetData 7 0x9,
    SetLeaf 0 0xffff88bdb244ed00, SetLeaf 1 0xffff88babf1b9900, SetLeaf 2 0xffff88bfc530f400,
    SetLeaf 3 0xffff88b7c901ab00, SetLeaf 11 0xffff88b5e9519500, SetLeaf 12 0xffff88bc31173800,
    SetLeaf 13 0xffff88bd838c8600, SetLeaf 14 0xffff88b7e1b42000, SetLeaf 15 0xffff88b7b6eeb900,
    GetParent, SetNode 8, GetNode 8, SetData 8 0x4, SetLeaf 0 0xffff88bc1fa96900,
    SetLeaf 1 0xffff88b9ddd0b800, SetLeaf 14 0xffff88b4f2672500, SetLeaf 15 0xffff88b50b10f900,
    GetParent, SetNode 9, GetNode 9, SetData 9 0x6, SetLeaf 0 0xffff88b5b44fd300,
    SetLeaf 1 0xffff88bfc22b6b00, SetLeaf 12 0xffff88b11cae4c00, SetLeaf 13 0xffff88b7b6eeb100,
    SetLeaf 14 0xffff88bac3343e00, SetLeaf 15 0xffff88b8a08e2400, GetParent, SetNode 10,
    GetNode 10, SetData 10 0x7, SetLeaf 0 0xffff88b31c581700, SetLeaf 1 0xffff88bb8a587f00,
    SetLeaf 11 0xffff88b104ad9200, SetLeaf 12 0xffff88bb9e1e4b00, SetLeaf 13 0xffff88b9400a2d00,
    SetLeaf 14 0xffff88bb7ee4d600, SetLeaf 15 0xffff88b10a125800, GetParent, SetNode 11,
    GetNode 11, SetData 11 0x6, SetLeaf 0 0xffff88bdb6b46b00, SetLeaf 1 0xffff88b670209600,
    SetLeaf 12 0xffff88bd838c9b00, SetLeaf 13 0xffff88b94cf33600, SetLeaf 14 0xffff88b4daf47500,
    SetLeaf 15 0xffff88b8713cdf00, GetParent, SetLeaf 12 0xffff88ba1f4a4a00, SetNode 13,
    GetNode 13, SetData 13 0x4, SetLeaf 0 0xffff88b9df224a00, SetLeaf 1 0xffff88b442abb600,
    SetLeaf 14 0xffff88b89cd85500, SetLeaf 15 0xffff88b1b27a6a00, GetParent, SetNode 14,
    GetNode 14, SetData 14 0x4, SetLeaf 0 0xffff88bfc2395400, SetLeaf 1 0xffff88bfc501f500,
    SetLeaf 14 0xffff88b104ad9300, SetLeaf 15 0xffff88b511df8800, GetParent, SetNode 15,
    GetNode 15, SetData 15 0x5, SetLeaf 0 0xffff88bee4a5bc00, SetLeaf 1 0xffff88bfaf1fe100,
    SetLeaf 13 0xffff88b4efb7e000, SetLeaf 14 0xffff88bce195a800, SetLeaf 15 0xffff88b50b10f800,
    GetParent, GetParent]"

definition construct_array_6 :: "stmt list" where
  "construct_array_6 = [
    SetNode 6, GetNode 6, SetData 6 0x45, SetNode 0, GetNode 0, SetData 0 0x6,
    SetLeaf 0 0xffff88b32f52b500, SetLeaf 1 0xffff88bac177d000, SetLeaf 12 0xffff88b67e55d300,
    SetLeaf 13 0xffff88b5bf9d1500, SetLeaf 14 0xffff88b3f5c5f700, SetLeaf 15 0xffff88bc2e3a8900,
    GetParent, SetNode 1, GetNode 1, SetData 1 0x5, SetLeaf 0 0xffff88bc2a53ec00,
    SetLeaf 1 0xffff88bae471e800, SetLeaf 13 0xffff88b7c901d100, SetLeaf 14 0xffff88b44c3a4d00,
    SetLeaf 15 0xffff88b4daf46300, GetParent, SetNode 2, GetNode 2, SetData 2 0x4,
    SetLeaf 0 0xffff88b24a0cba00, SetLeaf 1 0xffff88b7ec82c800, SetLeaf 2 0xffff88b73732ea00,
    SetLeaf 15 0xffff88b65c172e00, GetParent, SetNode 3, GetNode 3, SetData 3 0x4,
    SetLeaf 0 0xffff88b5cdc32400, SetLeaf 1 0xffff88b2fc1d7500, SetLeaf 14 0xffff88b3c740ff00,
    SetLeaf 15 0xffff88bae43cd500, GetParent, SetNode 4, GetNode 4, SetData 4 0x3,
    SetLeaf 0 0xffff88b43fd75400, SetLeaf 1 0xffff88be36934100, SetLeaf 15 0xffff88b45200a200,
    GetParent, SetNode 5, GetNode 5, SetData 5 0x8, SetLeaf 0 0xffff88b89f5dd700,
    SetLeaf 1 0xffff88b7d206de00, SetLeaf 2 0xffff88b68f006b00, SetLeaf 3 0xffff88bc1e741b00,
    SetLeaf 12 0xffff88b4f8e7c000, SetLeaf 13 0xffff88b7c901d400, SetLeaf 14 0xffff88bfbb095400,
    SetLeaf 15 0xffff88bda4fc2e00, GetParent, SetNode 6, GetNode 6, SetData 6 0x6,
    SetLeaf 0 0xffff88be33580600, SetLeaf 1 0xffff88b9ddd0bc00, SetLeaf 12 0xffff88b45200a500,
    SetLeaf 13 0xffff88b92c1c3600, SetLeaf 14 0xffff88b4fb2be200, SetLeaf 15 0xffff88bb91901700,
    GetParent, SetNode 7, GetNode 7, SetData 7 0x5, SetLeaf 0 0xffff88bc24cb2200,
    SetLeaf 1 0xffff88bcd5c7f700, SetLeaf 13 0xffff88b884830100, SetLeaf 14 0xffff88b4566f1500,
    SetLeaf 15 0xffff88be5376e000, GetParent, SetNode 8, GetNode 8, SetData 8 0x2,
    SetLeaf 0 0xffff88b93b69ac00, SetLeaf 1 0xffff88b2fc75f200, GetParent, SetNode 9, GetNode 9,
    SetData 9 0x2, SetLeaf 0 0xffff88b2520d5100, SetLeaf 1 0xffff88bd9ad56000, GetParent,
    SetNode 10, GetNode 10, SetData 10 0x4, SetLeaf 0 0xffff88bc2ba3a600,
    SetLeaf 1 0xffff88bfaf1fe500, SetLeaf 14 0xffff88bd8c01db00, SetLeaf 15 0xffff88bd838c9200,
    GetParent, SetNode 11, GetNode 11, SetData 11 0x5, SetLeaf 0 0xffff88bae471f200,
    SetLeaf 1 0xffff88bd62872d00, SetLeaf 13 0xffff88acd67ca500, SetLeaf 14 0xffff88baa849a300,
    SetLeaf 15 0xffff88b3d9cd9100, GetParent, SetNode 12, GetNode 12, SetData 12 0x3,
    SetLeaf 0 0xffff88b3c6821300, SetLeaf 1 0xffff88b4f2672600, SetLeaf 15 0xffff88b51061d600,
    GetParent, SetNode 13, GetNode 13, SetData 13 0x2, SetLeaf 0 0xffff88b7d9eafb00,
    SetLeaf 1 0xffff88d456683c00, GetParent, SetNode 14, GetNode 14, SetData 14 0x5,
    SetLeaf 0 0xffff88bac3098100, SetLeaf 1 0xffff88b254f92500, SetLeaf 13 0xffff88b3b8724800,
    SetLeaf 14 0xffff88b34109e600, SetLeaf 15 0xffff88bc414a8f00, GetParent, SetNode 15,
    GetNode 15, SetData 15 0x5, SetLeaf 0 0xffff88b64e269b00, SetLeaf 1 0xffff88bc2e29d900,
    SetLeaf 13 0xffff88b72b662300, SetLeaf 14 0xffff88be26425300, SetLeaf 15 0xffff88b5bf6dbe00,
    GetParent, GetParent]"

definition construct_array_7 :: "stmt list" where
  "construct_array_7 = [
    SetNode 7, GetNode 7, SetData 7 0x44, SetNode 0, GetNode 0, SetData 0 0x7,
    SetLeaf 0 0xffff887fdafa9e00, SetLeaf 1 0xffff88bc2a53f300, SetLeaf 2 0xffff88bfac756400,
    SetLeaf 12 0xffff88b51061cf00, SetLeaf 13 0xffff88b7d9eae200, SetLeaf 14 0xffff88b3ee336d00,
    SetLeaf 15 0xffff88ba0a071000, GetParent, SetNode 1, GetNode 1, SetData 1 0x3,
    SetLeaf 0 0xffff88b50ee68d00, SetLeaf 1 0xffff88b2520d5200, SetLeaf 15 0xffff88b45072cb00,
    GetParent, SetNode 2, GetNode 2, SetData 2 0x2, SetLeaf 0 0xffff88bd8dfc3900,
    SetLeaf 1 0xffff88bb7f022c00, GetParent, SetNode 3, GetNode 3, SetData 3 0x5,
    SetLeaf 0 0xffff88bac174b200, SetLeaf 1 0xffff88b940714000, SetLeaf 13 0xffff88b5a3273a00,
    SetLeaf 14 0xffff88b1a6cf7000, SetLeaf 15 0xffff88b6a3a0a700, GetParent, SetNode 4, GetNode 4,
    SetData 4 0x3, SetLeaf 0 0xffff88b8a7444000, SetLeaf 1 0xffff88bd838c8700,
    SetLeaf 15 0xffff88bfc2451a00, GetParent, SetNode 5, GetNode 5, SetData 5 0x7,
    SetLeaf 0 0xffff88b1c0b15f00, SetLeaf 1 0xffff88bfc22b6a00, SetLeaf 11 0xffff88bac71cd700,
    SetLeaf 12 0xffff88bac3099a00, SetLeaf 13 0xffff88bc3da2ff00, SetLeaf 14 0xffff88bc5cd1e600,
    SetLeaf 15 0xffff88b0ecf49100, GetParent, SetNode 6, GetNode 6, SetData 6 0x5,
    SetLeaf 0 0xffff88b4f923fe00, SetLeaf 1 0xffff88b442aba100, SetLeaf 13 0xffff88b3ef08bc00,
    SetLeaf 14 0xffff88babd624500, SetLeaf 15 0xffff88bc2a4ee300, GetParent, SetNode 7, GetNode 7,
    SetData 7 0x3, SetLeaf 0 0xffff88b43fd75900, SetLeaf 1 0xffff88b64e269900,
    SetLeaf 15 0xffff88bc59547600, GetParent, SetNode 8, GetNode 8, SetData 8 0x4,
    SetLeaf 0 0xffff8897f3c79600, SetLeaf 1 0xffff88b50b10fd00, SetLeaf 14 0xffff88be5334c600,
    SetLeaf 15 0xffff88b3af415000, GetParent, SetNode 9, GetNode 9, SetData 9 0x3,
    SetLeaf 0 0xffff88bc2e29db00, SetLeaf 1 0xffff88b926d30400, SetLeaf 15 0xffff88befb6ef500,
    GetParent, SetNode 10, GetNode 10, SetData 10 0x6, SetLeaf 0 0xffff88b43fd74800,
    SetLeaf 1 0xffff88b245e4f700, SetLeaf 12 0xffff88bac0a84100, SetLeaf 13 0xffff88b10a124c00,
    SetLeaf 14 0xffff88be12c56b00, SetLeaf 15 0xffff88b1b3f8fe00, GetParent, SetNode 11,
    GetNode 11, SetData 11 0x4, SetLeaf 0 0xffff88b3ee336e00, SetLeaf 1 0xffff88bc33765e00,
    SetLeaf 14 0xffff88bac3017700, SetLeaf 15 0xffff88b741c52500, GetParent, SetNode 12,
    GetNode 12, SetData 12 0x4, SetLeaf 0 0xffff88bcdb35fe00, SetLeaf 1 0xffff88bc3364e300,
    SetLeaf 14 0xffff88bef9e6fe00, SetLeaf 15 0xffff88b50b10f100, GetParent, SetNode 13,
    GetNode 13, SetData 13 0x4, SetLeaf 0 0xffff88be46a31e00, SetLeaf 1 0xffff88b5abee3d00,
    SetLeaf 14 0xffff88be26424400, SetLeaf 15 0xffff88b95fda5900, GetParent,
    SetLeaf 14 0xffff88b5c83a3f00, SetNode 15, GetNode 15, SetData 15 0x7,
    SetLeaf 0 0xffff88bf1c127700, SetLeaf 1 0xffff88be3694d000, SetLeaf 2 0xffff88b1aaf0b300,
    SetLeaf 12 0xffff88bee554e000, SetLeaf 13 0xffff88bfaf1fe200, SetLeaf 14 0xffff88be36934b00,
    SetLeaf 15 0xffff88bd9aeecc00, GetParent, GetParent]"

definition construct_array_8 :: "stmt list" where
  "construct_array_8 = [
    SetNode 8, GetNode 8, SetData 8 0x41, SetNode 0, GetNode 0, SetData 0 0x4,
    SetLeaf 0 0xffff88b100e37600, SetLeaf 1 0xffff88be76785200, SetLeaf 14 0xffff88b44c38a500,
    SetLeaf 15 0xffff88bc4ecb6300, GetParent, SetNode 1, GetNode 1, SetData 1 0x4,
    SetLeaf 0 0xffff88b3da7f7d00, SetLeaf 1 0xffff88bfc516c400, SetLeaf 2 0xffff88bb72198400,
    SetLeaf 15 0xffff88bee554f100, GetParent, SetNode 2, GetNode 2, SetData 2 0x2,
    SetLeaf 0 0xffff88bdbf9ea900, SetLeaf 1 0xffff88bc2f461200, GetParent, SetNode 3, GetNode 3,
    SetData 3 0x4, SetLeaf 0 0xffff88bc2e29ce00, SetLeaf 1 0xffff88bee3dd6600,
    SetLeaf 14 0xffff88bed1845300, SetLeaf 15 0xffff88b86f0de700, GetParent, SetNode 4, GetNode 4,
    SetData 4 0x3, SetLeaf 0 0xffff88bc27da8600, SetLeaf 1 0xffff88b32a2bfa00,
    SetLeaf 15 0xffff88b9ea8f9100, GetParent, SetNode 5, GetNode 5, SetData 5 0x8,
    SetLeaf 0 0xffff88b3c0523600, SetLeaf 1 0xffff88b89f5dc200, SetLeaf 2 0xffff88b1a6c3b400,
    SetLeaf 3 0xffff88b8a7445600, SetLeaf 12 0xffff88baa84d1d00, SetLeaf 13 0xffff88ba0a3f1200,
    SetLeaf 14 0xffff88b7ec82c600, SetLeaf 15 0xffff88b7d9f3c000, GetParent,
    SetLeaf 6 0xffff88baadbbe500, SetNode 7, GetNode 7, SetData 7 0x3,
    SetLeaf 0 0xffff88b10a124e00, SetLeaf 1 0xffff88b94cf33c00, SetLeaf 15 0xffff88b3d50d6100,
    GetParent, SetNode 8, GetNode 8, SetData 8 0x5, SetLeaf 0 0xffff889cdf174100,
    SetLeaf 1 0xffff88b7d0c10e00, SetLeaf 2 0xffff88b250cb3100, SetLeaf 3 0xffff88ba072b2c00,
    SetLeaf 15 0xffff88b5ef3e4100, GetParent, SetNode 9, GetNode 9, SetData 9 0x4,
    SetLeaf 0 0xffff88bd7b1bbc00, SetLeaf 1 0xffff88b7e1b43800, SetLeaf 14 0xffff88b86effd400,
    SetLeaf 15 0xffff88befb794900, GetParent, SetNode 10, GetNode 10, SetData 10 0x8,
    SetLeaf 0 0xffff887b0cd30400, SetLeaf 1 0xffff88bdaf079800, SetLeaf 10 0xffff88b5d2c79200,
    SetLeaf 11 0xffff88b4fb4ce600, SetLeaf 12 0xffff88bc27cabc00, SetLeaf 13 0xffff88b89f7da400,
    SetLeaf 14 0xffff88b250cb3500, SetLeaf 15 0xffff88bfaf1ff700, GetParent, SetNode 11,
    GetNode 11, SetData 11 0x4, SetLeaf 0 0xffff88babf1b8b00, SetLeaf 1 0xffff88b7d0c10f00,
    SetLeaf 14 0xffff88bcbd6aed00, SetLeaf 15 0xffff88b4566f1100, GetParent, SetNode 12,
    GetNode 12, SetData 12 0x6, SetLeaf 0 0xffff88bd9acb3a00, SetLeaf 1 0xffff88bfd0599600,
    SetLeaf 2 0xffff88b331709f00, SetLeaf 13 0xffff88bcbd53c100, SetLeaf 14 0xffff88bb91b58e00,
    SetLeaf 15 0xffff88b18fd9b700, GetParent, SetNode 13, GetNode 13, SetData 13 0x4,
    SetLeaf 0 0xffff88b1aaf0b000, SetLeaf 1 0xffff88bc33764300, SetLeaf 14 0xffff88be36934600,
    SetLeaf 15 0xffff88b7e1aa0600, GetParent, SetNode 14, GetNode 14, SetData 14 0x4,
    SetLeaf 0 0xffff88b7353a0c00, SetLeaf 1 0xffff88b4fb037a00, SetLeaf 2 0xffff88b4e5981c00,
    SetLeaf 15 0xffff88bac177d800, GetParent, SetLeaf 15 0xffff88b51061d300, GetParent]"

definition construct_array_9 :: "stmt list" where
  "construct_array_9 = [
    SetNode 9, GetNode 9, SetData 9 0x51, SetNode 0, GetNode 0, SetData 0 0x6,
    SetLeaf 0 0xffff88b1c0c7fe00, SetLeaf 1 0xffff88b0e4588a00, SetLeaf 12 0xffff88bd5ed59c00,
    SetLeaf 13 0xffff88befb716100, SetLeaf 14 0xffff88bbacc8fe00, SetLeaf 15 0xffff88b46a311600,
    GetParent, SetNode 1, GetNode 1, SetData 1 0x6, SetLeaf 0 0xffff88b1c0db3f00,
    SetLeaf 1 0xffff88b72d2e9700, SetLeaf 12 0xffff88baf060ff00, SetLeaf 13 0xffff88bb877f2700,
    SetLeaf 14 0xffff88b68aac5200, SetLeaf 15 0xffff88bb7f023d00, GetParent, SetNode 2, GetNode 2,
    SetData 2 0x2, SetLeaf 0 0xffff88bee4a5b600, SetLeaf 1 0xffff88ba0a3f1500, GetParent,
    SetNode 3, GetNode 3, SetData 3 0x4, SetLeaf 0 0xffff88baba5f9900,
    SetLeaf 1 0xffff88b670209100, SetLeaf 14 0xffff88bed1d2d400, SetLeaf 15 0xffff88b9ddd0bb00,
    GetParent, SetNode 4, GetNode 4, SetData 4 0x3, SetLeaf 0 0xffff88b9f7cd1900,
    SetLeaf 1 0xffff88b973806700, SetLeaf 15 0xffff88b687c41800, GetParent, SetNode 5, GetNode 5,
    SetData 5 0x8, SetLeaf 0 0xffff88bd7b1bb300, SetLeaf 1 0xffff88bc24cc0f00,
    SetLeaf 10 0xffff88bed1844c00, SetLeaf 11 0xffff88b0e7992e00, SetLeaf 12 0xffff88b4eaf4ae00,
    SetLeaf 13 0xffff88bc4ecb7300, SetLeaf 14 0xffff88b730645c00, SetLeaf 15 0xffff88b5bf9d0f00,
    GetParent, SetNode 6, GetNode 6, SetData 6 0x6, SetLeaf 0 0xffff88bc1e4ce900,
    SetLeaf 1 0xffff88bc1e741d00, SetLeaf 12 0xffff88bd7b3b5300, SetLeaf 13 0xffff88b329cc8e00,
    SetLeaf 14 0xffff88ba1f4a4700, SetLeaf 15 0xffff88b3d9cd8f00, GetParent, SetNode 7, GetNode 7,
    SetData 7 0x4, SetLeaf 0 0xffff889cdf175200, SetLeaf 1 0xffff88be2e815100,
    SetLeaf 14 0xffff88b1bac65300, SetLeaf 15 0xffff88b447f6e100, GetParent, SetNode 8, GetNode 8,
    SetData 8 0x4, SetLeaf 0 0xffff88bed1b30b00, SetLeaf 1 0xffff88bc59547900,
    SetLeaf 14 0xffff88b447fae900, SetLeaf 15 0xffff88b3b6bb3b00, GetParent, SetNode 9, GetNode 9,
    SetData 9 0x9, SetLeaf 0 0xffff88b940714800, SetLeaf 1 0xffff88bf1c127d00,
    SetLeaf 9 0xffff88b8aacddd00, SetLeaf 10 0xffff88b45ee21f00, SetLeaf 11 0xffff88b7d0c11000,
    SetLeaf 12 0xffff88b33ad52200, SetLeaf 13 0xffff88b3d9cd9c00, SetLeaf 14 0xffff88bc33765100,
    SetLeaf 15 0xffff88b0ecf48400, GetParent, SetNode 10, GetNode 10, SetData 10 0x7,
    SetLeaf 0 0xffff88bfc22b7500, SetLeaf 1 0xffff88b68f007f00, SetLeaf 11 0xffff88b8aacdd300,
    SetLeaf 12 0xffff88b4fb2be400, SetLeaf 13 0xffff88beec959000, SetLeaf 14 0xffff88ba1f4a5000,
    SetLeaf 15 0xffff88b433808c00, GetParent, SetNode 11, GetNode 11, SetData 11 0x2,
    SetLeaf 0 0xffff88b4430e1d00, SetLeaf 1 0xffff88bd839c8100, GetParent, SetNode 12, GetNode 12,
    SetData 12 0x3, SetLeaf 0 0xffff88b670209a00, SetLeaf 1 0xffff88b0ecf49800,
    SetLeaf 15 0xffff88b2fbeea200, GetParent, SetNode 13, GetNode 13, SetData 13 0x3,
    SetLeaf 0 0xffff8881f8f4fe00, SetLeaf 1 0xffff88b45b90e300, SetLeaf 15 0xffff88b104ad9000,
    GetParent, SetNode 14, GetNode 14, SetData 14 0x7, SetLeaf 0 0xffff88b7b33f6200,
    SetLeaf 1 0xffff88bcbd7e9200, SetLeaf 11 0xffff88b92c1c3900, SetLeaf 12 0xffff88b72b663200,
    SetLeaf 13 0xffff88bac3099d00, SetLeaf 14 0xffff88b687c41400, SetLeaf 15 0xffff88bdaf079500,
    GetParent, SetNode 15, GetNode 15, SetData 15 0x7, SetLeaf 0 0xffff8881f8f4e200,
    SetLeaf 1 0xffff88b92c1c3b00, SetLeaf 2 0xffff88b1c0b14c00, SetLeaf 12 0xffff88be5db0fc00,
    SetLeaf 13 0xffff88b72b662e00, SetLeaf 14 0xffff88b5bdb10600, SetLeaf 15 0xffff88bc59546400,
    GetParent, GetParent]"

definition construct_array_10 :: "stmt list" where
  "construct_array_10 = [
    SetNode 10, GetNode 10, SetData 10 0x3a, SetNode 0, GetNode 0, SetData 0 0x7,
    SetLeaf 0 0xffff88bc1e4ce800, SetLeaf 1 0xffff88bc2a4eee00, SetLeaf 11 0xffff88b67f542f00,
    SetLeaf 12 0xffff88b252d70f00, SetLeaf 13 0xffff88b18fd9a700, SetLeaf 14 0xffff88b75ac70b00,
    SetLeaf 15 0xffff88b9389e5400, GetParent, SetNode 1, GetNode 1, SetData 1 0x3,
    SetLeaf 0 0xffff88b66cc72d00, SetLeaf 1 0xffff88b4f2673200, SetLeaf 15 0xffff88b658b68b00,
    GetParent, SetNode 2, GetNode 2, SetData 2 0x2, SetLeaf 0 0xffff88bcee60df00,
    SetLeaf 1 0xffff88b104ad8f00, GetParent, SetNode 3, GetNode 3, SetData 3 0x3,
    SetLeaf 0 0xffff88ba97402c00, SetLeaf 1 0xffff88b6770dce00, SetLeaf 15 0xffff88ba0a3f0b00,
    GetParent, SetNode 4, GetNode 4, SetData 4 0x4, SetLeaf 0 0xffff88bd76d4cf00,
    SetLeaf 1 0xffff88bba053d400, SetLeaf 14 0xffff88b3c6813c00, SetLeaf 15 0xffff88bb91b59000,
    GetParent, SetNode 5, GetNode 5, SetData 5 0x2, SetLeaf 0 0xffff88bfaf045000,
    SetLeaf 1 0xffff88bb4de6d900, GetParent, SetNode 6, GetNode 6, SetData 6 0x4,
    SetLeaf 0 0xffff88b926fd5800, SetLeaf 1 0xffff88be76784400, SetLeaf 14 0xffff88be2c2cc500,
    SetLeaf 15 0xffff88b50b10ff00, GetParent, SetNode 7, GetNode 7, SetData 7 0x4,
    SetLeaf 0 0xffff88b92c1c2000, SetLeaf 1 0xffff88be2f80b400, SetLeaf 14 0xffff88bacdf68600,
    SetLeaf 15 0xffff88b4f2672200, GetParent, SetNode 8, GetNode 8, SetData 8 0x3,
    SetLeaf 0 0xffff88b9f7cd1400, SetLeaf 1 0xffff88b2520d4f00, SetLeaf 2 0xffff88b5adc4fb00,
    GetParent, SetNode 9, GetNode 9, SetData 9 0x2, SetLeaf 0 0xffff88bd9acb3600,
    SetLeaf 1 0xffff88b7b6eea900, GetParent, SetNode 10, GetNode 10, SetData 10 0x2,
    SetLeaf 0 0xffff88bc59546a00, SetLeaf 1 0xffff88bee554e300, GetParent, SetNode 11, GetNode 11,
    SetData 11 0x5, SetLeaf 0 0xffff88b24f420800, SetLeaf 1 0xffff88b4f3affb00,
    SetLeaf 13 0xffff88b93428bb00, SetLeaf 14 0xffff88be7211f100, SetLeaf 15 0xffff88b10a125f00,
    GetParent, SetNode 12, GetNode 12, SetData 12 0x7, SetLeaf 0 0xffff88bc2aaf8a00,
    SetLeaf 1 0xffff88be3694d100, SetLeaf 2 0xffff88b72d2e9300, SetLeaf 3 0xffff88b92c1c2100,
    SetLeaf 13 0xffff88bacf4d3c00, SetLeaf 14 0xffff88b104ba6b00, SetLeaf 15 0xffff88b72a9ce200,
    GetParent, SetNode 13, GetNode 13, SetData 13 0x3, SetLeaf 0 0xffff88bf08286600,
    SetLeaf 1 0xffff88b671a86900, SetLeaf 2 0xffff88b73732f700, GetParent, SetNode 14, GetNode 14,
    SetData 14 0x3, SetLeaf 0 0xffff88bc33765d00, SetLeaf 1 0xffff88bdb2454600,
    SetLeaf 15 0xffff887a63c1f200, GetParent, SetNode 15, GetNode 15, SetData 15 0x4,
    SetLeaf 0 0xffff88bd62872900, SetLeaf 1 0xffff88b7d0c11a00, SetLeaf 2 0xffff88b1b8014b00,
    SetLeaf 3 0xffff88b4671f0200, GetParent, GetParent]"

definition construct_array_11 :: "stmt list" where
  "construct_array_11 = [
    SetNode 11, GetNode 11, SetData 11 0x45, SetNode 0, GetNode 0, SetData 0 0x3,
    SetLeaf 0 0xffff88b973807b00, SetLeaf 1 0xffff88b75ac71600, SetLeaf 15 0xffff88b93428a800,
    GetParent, SetNode 1, GetNode 1, SetData 1 0x2, SetLeaf 0 0xffff88b433809500,
    SetLeaf 1 0xffff88bd8c19be00, GetParent, SetNode 2, GetNode 2, SetData 2 0x5,
    SetLeaf 0 0xffff88b89f5ddf00, SetLeaf 1 0xffff88b4338a0100, SetLeaf 13 0xffff88c03c04c800,
    SetLeaf 14 0xffff88bc27cab800, SetLeaf 15 0xffff88b1b874ae00, GetParent, SetNode 3, GetNode 3,
    SetData 3 0x5, SetLeaf 0 0xffff8897f3c78300, SetLeaf 1 0xffff88bdb2454500,
    SetLeaf 2 0xffff88b72e971200, SetLeaf 14 0xffff88b50b1f7e00, SetLeaf 15 0xffff88ba96902200,
    GetParent, SetNode 4, GetNode 4, SetData 4 0x2, SetLeaf 0 0xffff88ba97402800,
    SetLeaf 1 0xffff88b245db7f00, GetParent, SetNode 5, GetNode 5, SetData 5 0xa,
    SetLeaf 0 0xffff8881f8f4e100, SetLeaf 1 0xffff88bc27c38700, SetLeaf 2 0xffff88b32f52b200,
    SetLeaf 3 0xffff88b7b33f7000, SetLeaf 4 0xffff88b4e5981500, SetLeaf 11 0xffff88befb794000,
    SetLeaf 12 0xffff88c03c04da00, SetLeaf 13 0xffff88b6770dd200, SetLeaf 14 0xffff88b4daf46100,
    SetLeaf 15 0xffff88ba08d51000, GetParent, SetNode 6, GetNode 6, SetData 6 0x2,
    SetLeaf 0 0xffff88bcc34e3f00, SetLeaf 1 0xffff88b891dec700, GetParent, SetNode 7, GetNode 7,
    SetData 7 0x4, SetLeaf 0 0xffff88b5d2f76100, SetLeaf 1 0xffff88b100fbb600,
    SetLeaf 2 0xffff88b3f5c5e900, SetLeaf 15 0xffff88bb7ee4df00, GetParent, SetNode 8, GetNode 8,
    SetData 8 0x6, SetLeaf 0 0xffff88bac3098500, SetLeaf 1 0xffff88b695f4eb00,
    SetLeaf 12 0xffff88b4691ea400, SetLeaf 13 0xffff88b9389e5a00, SetLeaf 14 0xffff88b33ad52100,
    SetLeaf 15 0xffff88bfaf1ffc00, GetParent, SetNode 9, GetNode 9, SetData 9 0x3,
    SetLeaf 0 0xffff88b89cfe6b00, SetLeaf 1 0xffff88b979898600, SetLeaf 15 0xffff88b450768b00,
    GetParent, SetNode 10, GetNode 10, SetData 10 0x6, SetLeaf 0 0xffff88babf1b9c00,
    SetLeaf 1 0xffff88b254f93a00, SetLeaf 2 0xffff88b68f007200, SetLeaf 13 0xffff88be2c2cc000,
    SetLeaf 14 0xffff88b3c3623900, SetLeaf 15 0xffff88b1aaf0bc00, GetParent, SetNode 11,
    GetNode 11, SetData 11 0x2, SetLeaf 0 0xffff88bd838c8900, SetLeaf 1 0xffff88bcd3222200,
    GetParent, SetNode 12, GetNode 12, SetData 12 0x6, SetLeaf 0 0xffff887b0cd30c00,
    SetLeaf 1 0xffff88ba0a481700, SetLeaf 12 0xffff88bfc532d400, SetLeaf 13 0xffff88ba0a3f0100,
    SetLeaf 14 0xffff88b735320b00, SetLeaf 15 0xffff88b735321000, GetParent, SetNode 13,
    GetNode 13, SetData 13 0x5, SetLeaf 0 0xffff88b5dfd22c00, SetLeaf 1 0xffff88b3ef1bd200,
    SetLeaf 13 0xffff88bb7f001a00, SetLeaf 14 0xffff88bae33de400, SetLeaf 15 0xffff88b9fce0d700,
    GetParent, SetNode 14, GetNode 14, SetData 14 0x2, SetLeaf 0 0xffff88b4691ebe00,
    SetLeaf 1 0xffff88bc2e3a9500, GetParent, SetNode 15, GetNode 15, SetData 15 0x6,
    SetLeaf 0 0xffff88babf1b8a00, SetLeaf 1 0xffff88b45b7c1f00, SetLeaf 12 0xffff88b93428ab00,
    SetLeaf 13 0xffff88b44c38bd00, SetLeaf 14 0xffff88bc3da2e000, SetLeaf 15 0xffff88b33ac72500,
    GetParent, GetParent]"

definition construct_array_12 :: "stmt list" where
  "construct_array_12 = [
    SetNode 12, GetNode 12, SetData 12 0x49, SetNode 0, GetNode 0, SetData 0 0x3,
    SetLeaf 0 0xffff88b8a08e2f00, SetLeaf 1 0xffff88b44c3a4900, SetLeaf 15 0xffff88b50b193800,
    GetParent, SetNode 1, GetNode 1, SetData 1 0x8, SetLeaf 0 0xffff887b0cd30000,
    SetLeaf 1 0xffff88b4429af100, SetLeaf 2 0xffff88bac3099800, SetLeaf 11 0xffff88b447fae800,
    SetLeaf 12 0xffff88b9e5154800, SetLeaf 13 0xffff88b72c5cbc00, SetLeaf 14 0xffff88b6a3a0bb00,
    SetLeaf 15 0xffff88b33577be00, GetParent, SetNode 2, GetNode 2, SetData 2 0x3,
    SetLeaf 0 0xffff887b0cd31c00, SetLeaf 1 0xffff88b92c1c2600, SetLeaf 15 0xffff88b447faff00,
    GetParent, SetNode 3, GetNode 3, SetData 3 0x6, SetLeaf 0 0xffff88bd73d9c300,
    SetLeaf 1 0xffff88b3da7f6700, SetLeaf 12 0xffff88bd74515c00, SetLeaf 13 0xffff88b44c3a4100,
    SetLeaf 14 0xffff88b737d6c300, SetLeaf 15 0xffff88bfc516cc00, GetParent, SetNode 4, GetNode 4,
    SetData 4 0x6, SetLeaf 0 0xffff88b3da7f6a00, SetLeaf 1 0xffff88be76785a00,
    SetLeaf 12 0xffff88befc5c0b00, SetLeaf 13 0xffff88bf081b0300, SetLeaf 14 0xffff88bb681cba00,
    SetLeaf 15 0xffff88b1b8015600, GetParent, SetNode 5, GetNode 5, SetData 5 0x6,
    SetLeaf 0 0xffff88bae471f000, SetLeaf 1 0xffff88b5d68ae300, SetLeaf 12 0xffff88be5334d600,
    SetLeaf 13 0xffff88b2768dbd00, SetLeaf 14 0xffff88b65c172d00, SetLeaf 15 0xffff88b1b27a7100,
    GetParent, SetNode 6, GetNode 6, SetData 6 0x2, SetLeaf 0 0xffff88b5ed64b600,
    SetLeaf 1 0xffff88b45200a100, GetParent, SetNode 7, GetNode 7, SetData 7 0x4,
    SetLeaf 0 0xffff88b245db6200, SetLeaf 1 0xffff88b3d9cd9200, SetLeaf 14 0xffff88b7f0034d00,
    SetLeaf 15 0xffff88b3b6bb2200, GetParent, SetNode 8, GetNode 8, SetData 8 0x2,
    SetLeaf 0 0xffff88be12c57f00, SetLeaf 1 0xffff88bad3d49400, GetParent, SetNode 9, GetNode 9,
    SetData 9 0x6, SetLeaf 0 0xffff88be33581d00, SetLeaf 1 0xffff88bc1e4cf600,
    SetLeaf 2 0xffff88bfc530f800, SetLeaf 13 0xffff88bae33df800, SetLeaf 14 0xffff88bc2f461400,
    SetLeaf 15 0xffff88be36935d00, GetParent, SetNode 10, GetNode 10, SetData 10 0x2,
    SetLeaf 0 0xffff88b1c0b15200, SetLeaf 1 0xffff88babf1b8000, GetParent, SetNode 11, GetNode 11,
    SetData 11 0x7, SetLeaf 0 0xffff88b86f11c600, SetLeaf 1 0xffff88ba96902d00,
    SetLeaf 2 0xffff88ba08d50e00, SetLeaf 3 0xffff88bcbdc6b600, SetLeaf 4 0xffff88bb628c9500,
    SetLeaf 14 0xffff88b4715d3c00, SetLeaf 15 0xffff88be5334c500, GetParent, SetNode 12,
    GetNode 12, SetData 12 0x6, SetLeaf 0 0xffff88b4e5981900, SetLeaf 1 0xffff88b3c3623800,
    SetLeaf 2 0xffff88b5bf9d1e00, SetLeaf 13 0xffff88bb9e1e5b00, SetLeaf 14 0xffff88bee3c82100,
    SetLeaf 15 0xffff88b8a08e2000, GetParent, SetNode 13, GetNode 13, SetData 13 0x6,
    SetLeaf 0 0xffff88baadbbe200, SetLeaf 1 0xffff88b64e269200, SetLeaf 12 0xffff88b0e857e100,
    SetLeaf 13 0xffff88b92c1c3500, SetLeaf 14 0xffff88b67f543a00, SetLeaf 15 0xffff88b3d6297c00,
    GetParent, SetNode 14, GetNode 14, SetData 14 0x2, SetLeaf 0 0xffff88b2fc1d6a00,
    SetLeaf 1 0xffff88bf88826200, GetParent, SetNode 15, GetNode 15, SetData 15 0x4,
    SetLeaf 0 0xffff88b95fea4e00, SetLeaf 1 0xffff88bcc511be00, SetLeaf 14 0xffff88b50b1f6d00,
    SetLeaf 15 0xffff88bb877f2600, GetParent, GetParent]"

definition construct_array_13 :: "stmt list" where
  "construct_array_13 = [
    SetNode 13, GetNode 13, SetData 13 0x48, SetNode 0, GetNode 0, SetData 0 0x8,
    SetLeaf 0 0xffff88b3356caf00, SetLeaf 1 0xffff88b4e5981d00, SetLeaf 10 0xffff88ba969df400,
    SetLeaf 11 0xffff88b11cae4e00, SetLeaf 12 0xffff88babbaa9500, SetLeaf 13 0xffff88bb71e13300,
    SetLeaf 14 0xffff88bac177cc00, SetLeaf 15 0xffff88bc3364e100, GetParent, SetNode 1, GetNode 1,
    SetData 1 0x5, SetLeaf 0 0xffff88b89f5dc900, SetLeaf 1 0xffff88bb7f49c100,
    SetLeaf 13 0xffff88b72b662f00, SetLeaf 14 0xffff88b5d2f76d00, SetLeaf 15 0xffff88b51f4d9d00,
    GetParent, SetNode 2, GetNode 2, SetData 2 0x6, SetLeaf 0 0xffff887b0cd31300,
    SetLeaf 1 0xffff88b9df225900, SetLeaf 12 0xffff88bd8c19a400, SetLeaf 13 0xffff88b7b6eeb800,
    SetLeaf 14 0xffff88bf0c856a00, SetLeaf 15 0xffff88bd73d9c100, GetParent, SetNode 3, GetNode 3,
    SetData 3 0x4, SetLeaf 0 0xffff887b0cd31a00, SetLeaf 1 0xffff88bdbf9eb300,
    SetLeaf 14 0xffff88ba969dfc00, SetLeaf 15 0xffff88bcd35b4500, GetParent, SetNode 4, GetNode 4,
    SetData 4 0x5, SetLeaf 0 0xffff88bcd5a27f00, SetLeaf 1 0xffff88b5bdb10500,
    SetLeaf 13 0xffff88baa84d1c00, SetLeaf 14 0xffff88b7ec82d800, SetLeaf 15 0xffff88b9fce0cd00,
    GetParent, SetNode 5, GetNode 5, SetData 5 0x7, SetLeaf 0 0xffff88bae471f900,
    SetLeaf 1 0xffff889943ded300, SetLeaf 2 0xffff88b34109f900, SetLeaf 3 0xffff88b4e5980700,
    SetLeaf 13 0xffff88bfc501fd00, SetLeaf 14 0xffff88b33577b300, SetLeaf 15 0xffff88b471619e00,
    GetParent, SetNode 6, GetNode 6, SetData 6 0x2, SetLeaf 0 0xffff88ba98c1b600,
    SetLeaf 1 0xffff88b44c38ab00, GetParent, SetLeaf 7 0xffff88b252de1700, SetNode 8, GetNode 8,
    SetData 8 0x3, SetLeaf 0 0xffff88b323289800, SetLeaf 1 0xffff88bcc1e89300,
    SetLeaf 15 0xffff88bb628c8300, GetParent, SetNode 9, GetNode 9, SetData 9 0x9,
    SetLeaf 0 0xffff88ae3f169b00, SetLeaf 1 0xffff88b973806400, SetLeaf 2 0xffff88b72e971900,
    SetLeaf 10 0xffff88b5e7705100, SetLeaf 11 0xffff88bb5fe1b600, SetLeaf 12 0xffff88b0e860cc00,
    SetLeaf 13 0xffff88b67f543f00, SetLeaf 14 0xffff88bab1638b00, SetLeaf 15 0xffff88b5c5858e00,
    GetParent, SetNode 10, GetNode 10, SetData 10 0x6, SetLeaf 0 0xffff88b88b0e7a00,
    SetLeaf 1 0xffff88b11cbd1400, SetLeaf 2 0xffff88b72d2e9100, SetLeaf 13 0xffff88b2768dab00,
    SetLeaf 14 0xffff88b2fc14be00, SetLeaf 15 0xffff88b9fce0dd00, GetParent,
    SetLeaf 11 0xffff88bac177d400, SetNode 12, GetNode 12, SetData 12 0x3,
    SetLeaf 0 0xffff88b68f007100, SetLeaf 1 0xffff88b9400a2400, SetLeaf 15 0xffff88b504acb400,
    GetParent, SetNode 13, GetNode 13, SetData 13 0x5, SetLeaf 0 0xffff88b10ab7a600,
    SetLeaf 1 0xffff88b4e5981000, SetLeaf 13 0xffff88befc5c1d00, SetLeaf 14 0xffff88b870b2b500,
    SetLeaf 15 0xffff88b32a2bec00, GetParent, SetLeaf 14 0xffff88ba1f4a5700, SetNode 15,
    GetNode 15, SetData 15 0x6, SetLeaf 0 0xffff88b73732ed00, SetLeaf 1 0xffff88b3d9cd9500,
    SetLeaf 2 0xffff88bc3364e700, SetLeaf 13 0xffff887a71cbf000, SetLeaf 14 0xffff88bc463cf500,
    SetLeaf 15 0xffff88b5c967b900, GetParent, GetParent]"

definition construct_array_14 :: "stmt list" where
  "construct_array_14 = [
    SetNode 14, GetNode 14, SetData 14 0x3d, SetNode 0, GetNode 0, SetData 0 0x3,
    SetLeaf 0 0xffff88bdaf079900, SetLeaf 1 0xffff88b44c3a4e00, SetLeaf 15 0xffff88b7e1b42c00,
    GetParent, SetNode 1, GetNode 1, SetData 1 0x3, SetLeaf 0 0xffff88b9df225400,
    SetLeaf 1 0xffff88be26425f00, SetLeaf 15 0xffff88befc5c0600, GetParent,
    SetLeaf 2 0xffff88a1d33c3600, SetNode 3, GetNode 3, SetData 3 0x7,
    SetLeaf 0 0xffff88bc2e081200, SetLeaf 1 0xffff88bcbd7e8800, SetLeaf 2 0xffff88b4f2672d00,
    SetLeaf 12 0xffff88b67f542d00, SetLeaf 13 0xffff88b5bf9d0b00, SetLeaf 14 0xffff88befb6eef00,
    SetLeaf 15 0xffff88ba97403000, GetParent, SetNode 4, GetNode 4, SetData 4 0x7,
    SetLeaf 0 0xffff88bf1c126200, SetLeaf 1 0xffff88ba965e6400, SetLeaf 2 0xffff88b5c5858100,
    SetLeaf 12 0xffff88b5bf9d0000, SetLeaf 13 0xffff88b3c740e100, SetLeaf 14 0xffff88b1b8f45f00,
    SetLeaf 15 0xffff88baadbbe600, GetParent, SetNode 5, GetNode 5, SetData 5 0x5,
    SetLeaf 0 0xffff88bb62aa1700, SetLeaf 1 0xffff88b4daf47c00, SetLeaf 13 0xffff88b5a3273200,
    SetLeaf 14 0xffff88bb9e1e5c00, SetLeaf 15 0xffff88b3d6297700, GetParent, SetNode 6, GetNode 6,
    SetData 6 0x5, SetLeaf 0 0xffff88bfba655100, SetLeaf 1 0xffff88bc3da2ec00,
    SetLeaf 2 0xffff88bb72199700, SetLeaf 3 0xffff88b940b8f500, SetLeaf 15 0xffff88b3c378cb00,
    GetParent, SetNode 7, GetNode 7, SetData 7 0x6, SetLeaf 0 0xffff88b737a29900,
    SetLeaf 1 0xffff88b1c0b15800, SetLeaf 2 0xffff88ae3f169100, SetLeaf 13 0xffff88b2fc12fb00,
    SetLeaf 14 0xffff88b1b87dee00, SetLeaf 15 0xffff88befb6ee500, GetParent,
    SetLeaf 8 0xffff88bb83cd7600, SetNode 9, GetNode 9, SetData 9 0x4,
    SetLeaf 0 0xffff88b72d2e9000, SetLeaf 1 0xffff887a63c1fa00, SetLeaf 2 0xffff88b741c52400,
    SetLeaf 15 0xffff88bb7ee4dd00, GetParent, SetNode 10, GetNode 10, SetData 10 0x5,
    SetLeaf 0 0xffff88b3356cb600, SetLeaf 1 0xffff88bc59546e00, SetLeaf 13 0xffff88b93428ae00,
    SetLeaf 14 0xffff88bcbd6ae400, SetLeaf 15 0xffff88b5d2f2d000, GetParent,
    SetLeaf 11 0xffff88b52ae39800, SetNode 12, GetNode 12, SetData 12 0x4,
    SetLeaf 0 0xffff88b7c901a900, SetLeaf 1 0xffff88baa849a700, SetLeaf 14 0xffff88b1b8014f00,
    SetLeaf 15 0xffff88b46a310700, GetParent, SetNode 14, GetNode 14, SetData 14 0x3,
    SetLeaf 0 0xffff88bc2e081900, SetLeaf 1 0xffff88b33577af00, SetLeaf 15 0xffff88befb795600,
    GetParent, SetNode 15, GetNode 15, SetData 15 0x6, SetLeaf 0 0xffff88b43fd74500,
    SetLeaf 1 0xffff88b433808900, SetLeaf 2 0xffff88bd73d9d300, SetLeaf 13 0xffff88bab1789100,
    SetLeaf 14 0xffff88b4daf47400, SetLeaf 15 0xffff88b68f045600, GetParent, GetParent]"

definition construct_array_15 :: "stmt list" where
  "construct_array_15 = [
    SetNode 15, GetNode 15, SetData 15 0x42, SetNode 0, GetNode 0, SetData 0 0x2,
    SetLeaf 0 0xffff88b9ddd0a600, SetLeaf 1 0xffff88b10a1ec200, GetParent, SetNode 1, GetNode 1,
    SetData 1 0x7, SetLeaf 0 0xffff88b7b33f6c00, SetLeaf 1 0xffff88b3356cb800,
    SetLeaf 2 0xffff88b68f006f00, SetLeaf 3 0xffff88bc2e080200, SetLeaf 13 0xffff88b72c5cb200,
    SetLeaf 14 0xffff88bad2e38100, SetLeaf 15 0xffff88b51f4d9b00, GetParent, SetNode 2, GetNode 2,
    SetData 2 0x2, SetLeaf 0 0xffff88b4f8e7ca00, SetLeaf 1 0xffff88b11cbcfb00, GetParent,
    SetNode 3, GetNode 3, SetData 3 0x4, SetLeaf 0 0xffff88bd73d9c800,
    SetLeaf 1 0xffff88bda4fc3400, SetLeaf 2 0xffff88b33577a900, SetLeaf 15 0xffff88b10a1edd00,
    GetParent, SetLeaf 4 0xffff88b24702a800, SetNode 5, GetNode 5, SetData 5 0x7,
    SetLeaf 0 0xffff88b32f52a100, SetLeaf 1 0xffff88b92c1c2300, SetLeaf 2 0xffff889943dece00,
    SetLeaf 12 0xffff88bacf4d3700, SetLeaf 13 0xffff88bc463ce600, SetLeaf 14 0xffff88bad2e39600,
    SetLeaf 15 0xffff88b3ee337a00, GetParent, SetNode 6, GetNode 6, SetData 6 0x9,
    SetLeaf 0 0xffff88b252de1f00, SetLeaf 1 0xffff8881f8f4e900, SetLeaf 2 0xffff88bfac756e00,
    SetLeaf 10 0xffff88bd8c19b900, SetLeaf 11 0xffff88be26425d00, SetLeaf 12 0xffff88b7c901da00,
    SetLeaf 13 0xffff88b687c40600, SetLeaf 14 0xffff88bbacc8fc00, SetLeaf 15 0xffff88b7d0c11f00,
    GetParent, SetNode 7, GetNode 7, SetData 7 0x4, SetLeaf 0 0xffff88b447faf800,
    SetLeaf 1 0xffff88b252d71b00, SetLeaf 14 0xffff88bc414fb500, SetLeaf 15 0xffff88b3385ab700,
    GetParent, SetNode 8, GetNode 8, SetData 8 0x3, SetLeaf 1 0xffff88b5c9ef7300,
    SetLeaf 14 0xffff8875250cdf00, SetLeaf 15 0xffff88b92c1c3d00, GetParent, SetNode 9, GetNode 9,
    SetData 9 0x3, SetLeaf 0 0xffff88b5dfd23900, SetLeaf 1 0xffff88bac7c36800,
    SetLeaf 15 0xffff88bac3017500, GetParent, SetNode 10, GetNode 10, SetData 10 0x5,
    SetLeaf 0 0xffff88bcd38e3c00, SetLeaf 1 0xffff88be4c23bd00, SetLeaf 2 0xffff88babee67d00,
    SetLeaf 14 0xffff88b7e1b43e00, SetLeaf 15 0xffff88b7d0c10600, GetParent,
    SetLeaf 11 0xffff88b72d648a00, SetNode 12, GetNode 12, SetData 12 0x3,
    SetLeaf 0 0xffff88b5c83a3200, SetLeaf 1 0xffff88b1aaf0b200, SetLeaf 15 0xffff88b50b10f500,
    GetParent, SetNode 13, GetNode 13, SetData 13 0x6, SetLeaf 0 0xffff88b5bf94b000,
    SetLeaf 1 0xffff88be4c23bf00, SetLeaf 2 0xffff88bc2e29d200, SetLeaf 3 0xffff88bb7f023900,
    SetLeaf 14 0xffff88b5e9519700, SetLeaf 15 0xffff88b1a6cf6100, GetParent, SetNode 14,
    GetNode 14, SetData 14 0x5, SetLeaf 0 0xffff88bfd0598500, SetLeaf 1 0xffff88b254582700,
    SetLeaf 13 0xffff88bb4de6d400, SetLeaf 14 0xffff88b6770dcc00, SetLeaf 15 0xffff88b7e1aa0800,
    GetParent, SetNode 15, GetNode 15, SetData 15 0x4, SetLeaf 0 0xffff88bc3364fb00,
    SetLeaf 1 0xffff88b33ac73100, SetLeaf 2 0xffff88b4daf46200, SetLeaf 15 0xffff88b5ef3e5200,
    GetParent, GetParent]"

definition construct_children :: "stmt list list" where
  "construct_children = [construct_array_1, construct_array_2, construct_array_3, construct_array_4,
     construct_array_5, construct_array_6, construct_array_7, construct_array_8, construct_array_9,
     construct_array_10, construct_array_11, construct_array_12, construct_array_13,
     construct_array_14, construct_array_15]"

definition construct_array :: "stmt list" where
  "construct_array = construct_array_root @ concat construct_children"

section \<open>The iterator (lines 554 to 584 of repro.c)\<close>

definition datas_to_keep :: "addr list" where
  "datas_to_keep = [
    0xffff88bab100fa00, 0xffff88bd8d224e00, 0xffff88bcdb35fe00, 0xffff88b100e37600,
    0xffff887b0cd30400, 0xffff88b1c0c7fe00, 0xffff88bd5ed59c00, 0xffff88b1c0db3f00,
    0xffff887b0cd30c00, 0xffff887b0cd30000, 0xffff887b0cd31c00, 0xffff887b0cd31300,
    0xffff887b0cd31a00, 0xffff887a71cbf000, 0xffff8875250cdf00]"

definition my_iterator :: "addr \<Rightarrow> bool" where
  "my_iterator object = list_ex (\<lambda>d. d = object) datas_to_keep"

section \<open>Reading a tree back from its statements\<close>

text \<open>The nodes still open, innermost first: slot, parent slot, leaf count and slots.\<close>

type_synonym open_node = "nat \<times> u8 \<times> u64 \<times> dump list"

fun parse :: "stmt list \<Rightarrow> open_node list \<Rightarrow> dump list" where
  "parse (GetNode i # ss) st = parse ss ((nat i, 0, 0, replicate ASSOC_ARRAY_FAN_OUT DHole) # st)"
| "parse (SetData s nr # ss) ((i, _, _, ds) # st) = parse ss ((i, s, nr, ds) # st)"
| "parse (SetLeaf j p # ss) ((i, s, nr, ds) # st) = parse ss ((i, s, nr, ds[nat j := DLeaf p]) # st)"
| "parse (GetParent # ss) ((i, s, nr, ds) # (i', s', nr', ds') # st) =
     parse ss ((i', s', nr', ds'[i := DNode s nr ds]) # st)"
| "parse (_ # ss) st = parse ss st"
| "parse [] st = (case st of (_, _, _, ds) # _ \<Rightarrow> ds | [] \<Rightarrow> [])"

definition captured_child :: "stmt list \<Rightarrow> nat \<Rightarrow> dump" where
  "captured_child ss i = parse ss [(0, 0, 0, replicate ASSOC_ARRAY_FAN_OUT DHole)] ! i"

definition captured_children :: "dump list" where
  "captured_children = map2 captured_child construct_children [1..<16]"

definition captured :: dump where
  "captured = DNode 0 0x404 (DHole # captured_children)"

text \<open>
  The captured tree without the leaves the iterator drops: \<open>sparse\<close> lists the
  occupied slots of a node.
\<close>

definition sparse :: "(nat \<times> 'l tr) list \<Rightarrow> 'l tr" where
  "sparse xs = Node (fold (\<lambda>(i, t) ts. ts[i := t]) xs (replicate ASSOC_ARRAY_FAN_OUT Hole))"

definition filtered_children :: "ptr tr list" where
  "filtered_children = [
     sparse [(0, empty_node), (1, empty_node), (3, empty_node), (4, empty_node), (5, empty_node),
      (6, empty_node), (7, empty_node), (8, empty_node), (9, empty_node), (10, empty_node), (11,
      empty_node), (12, empty_node), (13, empty_node), (15, empty_node)],
     sparse [(0, empty_node), (1, empty_node), (2, empty_node), (3, empty_node), (4, empty_node),
      (5, empty_node), (6, empty_node), (7, empty_node), (8, empty_node), (9, empty_node), (10,
      empty_node), (11, empty_node), (12, empty_node), (13, empty_node), (14, empty_node), (15,
      empty_node)],
     sparse [(0, empty_node), (1, empty_node), (2, empty_node), (3, empty_node), (4, empty_node),
      (5, empty_node), (7, empty_node), (8, empty_node), (9, sparse [(0, Leaf
      0xffff88bab100fa00)]), (10, empty_node), (11, empty_node), (12, empty_node), (13,
      empty_node), (14, empty_node), (15, empty_node)],
     sparse [(0, empty_node), (2, empty_node), (3, empty_node), (4, empty_node), (5, empty_node),
      (6, empty_node), (7, empty_node), (8, empty_node), (9, empty_node), (10, empty_node), (11,
      empty_node), (12, empty_node), (13, empty_node), (14, empty_node), (15, sparse [(0, Leaf
      0xffff88bd8d224e00)])],
     sparse [(0, empty_node), (1, empty_node), (2, empty_node), (3, empty_node), (4, empty_node),
      (5, empty_node), (6, empty_node), (7, empty_node), (8, empty_node), (9, empty_node), (10,
      empty_node), (11, empty_node), (13, empty_node), (14, empty_node), (15, empty_node)],
     sparse [(0, empty_node), (1, empty_node), (2, empty_node), (3, empty_node), (4, empty_node),
      (5, empty_node), (6, empty_node), (7, empty_node), (8, empty_node), (9, empty_node), (10,
      empty_node), (11, empty_node), (12, empty_node), (13, empty_node), (14, empty_node), (15,
      empty_node)],
     sparse [(0, empty_node), (1, empty_node), (2, empty_node), (3, empty_node), (4, empty_node),
      (5, empty_node), (6, empty_node), (7, empty_node), (8, empty_node), (9, empty_node), (10,
      empty_node), (11, empty_node), (12, sparse [(0, Leaf 0xffff88bcdb35fe00)]), (13,
      empty_node), (15, empty_node)],
     sparse [(0, sparse [(0, Leaf 0xffff88b100e37600)]), (1, empty_node), (2, empty_node), (3,
      empty_node), (4, empty_node), (5, empty_node), (7, empty_node), (8, empty_node), (9,
      empty_node), (10, sparse [(0, Leaf 0xffff887b0cd30400)]), (11, empty_node), (12,
      empty_node), (13, empty_node), (14, empty_node)],
     sparse [(0, sparse [(0, Leaf 0xffff88b1c0c7fe00), (12, Leaf 0xffff88bd5ed59c00)]), (1, sparse
      [(0, Leaf 0xffff88b1c0db3f00)]), (2, empty_node), (3, empty_node), (4, empty_node), (5,
      empty_node), (6, empty_node), (7, empty_node), (8, empty_node), (9, empty_node), (10,
      empty_node), (11, empty_node), (12, empty_node), (13, empty_node), (14, empty_node), (15,
      empty_node)],
     sparse [(0, empty_node), (1, empty_node), (2, empty_node), (3, empty_node), (4, empty_node),
      (5, empty_node), (6, empty_node), (7, empty_node), (8, empty_node), (9, empty_node), (10,
      empty_node), (11, empty_node), (12, empty_node), (13, empty_node), (14, empty_node), (15,
      empty_node)],
     sparse [(0, empty_node), (1, empty_node), (2, empty_node), (3, empty_node), (4, empty_node),
      (5, empty_node), (6, empty_node), (7, empty_node), (8, empty_node), (9, empty_node), (10,
      empty_node), (11, empty_node), (12, sparse [(0, Leaf 0xffff887b0cd30c00)]), (13,
      empty_node), (14, empty_node), (15, empty_node)],
     sparse [(0, empty_node), (1, sparse [(0, Leaf 0xffff887b0cd30000)]), (2, sparse [(0, Leaf
      0xffff887b0cd31c00)]), (3, empty_node), (4, empty_node), (5, empty_node), (6, empty_node),
      (7, empty_node), (8, empty_node), (9, empty_node), (10, empty_node), (11, empty_node), (12,
      empty_node), (13, empty_node), (14, empty_node), (15, empty_node)],
     sparse [(0, empty_node), (1, empty_node), (2, sparse [(0, Leaf 0xffff887b0cd31300)]), (3,
      sparse [(0, Leaf 0xffff887b0cd31a00)]), (4, empty_node), (5, empty_node), (6, empty_node),
      (8, empty_node), (9, empty_node), (10, empty_node), (12, empty_node), (13, empty_node), (15,
      sparse [(13, Leaf 0xffff887a71cbf000)])],
     sparse [(0, empty_node), (1, empty_node), (3, empty_node), (4, empty_node), (5, empty_node),
      (6, empty_node), (7, empty_node), (9, empty_node), (10, empty_node), (12, empty_node), (14,
      empty_node), (15, empty_node)],
     sparse [(0, empty_node), (1, empty_node), (2, empty_node), (3, empty_node), (5, empty_node),
      (6, empty_node), (7, empty_node), (8, sparse [(14, Leaf 0xffff8875250cdf00)]), (9,
      empty_node), (10, empty_node), (12, empty_node), (13, empty_node), (14, empty_node), (15,
      empty_node)]]"

definition filtered :: "ptr tr" where
  "filtered = Node (Hole # filtered_children)"

section \<open>The statements are those of the tree\<close>

text \<open>The iterator, computed on integers: literals of words compare slowly.\<close>

fun in_ints :: "int \<Rightarrow> int list \<Rightarrow> bool" where
  "in_ints i [] = False" | "in_ints i (j # js) = (if i = j then True else in_ints i js)"

definition keep_ints :: "int list" where "keep_ints = map uint datas_to_keep"
lemma my_iterator_code [code]: "my_iterator object = in_ints (uint object) keep_ints"
proof -
  have "in_ints (uint x) (map uint ds) = list_ex (\<lambda>d. d = x) ds" for x :: addr and ds :: "addr list"
    by (induction ds) (auto simp: word_uint_eq_iff)
  then show ?thesis by (simp add: my_iterator_def keep_ints_def)
qed

lemma keep_ints_code [code]: "keep_ints = [0xffff88bab100fa00, 0xffff88bd8d224e00, 0xffff88bcdb35fe00, 0xffff88b100e37600, 0xffff887b0cd30400, 0xffff88b1c0c7fe00, 0xffff88bd5ed59c00, 0xffff88b1c0db3f00, 0xffff887b0cd30c00, 0xffff887b0cd30000, 0xffff887b0cd31c00, 0xffff887b0cd31300, 0xffff887b0cd31a00, 0xffff887a71cbf000, 0xffff8875250cdf00]" by (simp add: datas_to_keep_def keep_ints_def)

definition check_dump :: "stmt list \<Rightarrow> nat \<Rightarrow> ptr tr \<Rightarrow> dump \<Rightarrow> bool" where
  "check_dump ss i t d \<longleftrightarrow> dump_ok i d \<and> construct_slots i [d] = ss \<and>
     filter_tree (keeps my_iterator) (tree_of d) = t"

lemma captured_1: "check_dump construct_array_1 1
     (sparse [(0, empty_node), (1, empty_node), (3, empty_node), (4, empty_node), (5, empty_node),
      (6, empty_node), (7, empty_node), (8, empty_node), (9, empty_node), (10, empty_node), (11,
      empty_node), (12, empty_node), (13, empty_node), (15, empty_node)])
    (captured_child construct_array_1 1)"
  by code_simp

lemma captured_2: "check_dump construct_array_2 2
     (sparse [(0, empty_node), (1, empty_node), (2, empty_node), (3, empty_node), (4, empty_node),
      (5, empty_node), (6, empty_node), (7, empty_node), (8, empty_node), (9, empty_node), (10,
      empty_node), (11, empty_node), (12, empty_node), (13, empty_node), (14, empty_node), (15,
      empty_node)])
    (captured_child construct_array_2 2)"
  by code_simp

lemma captured_3: "check_dump construct_array_3 3
     (sparse [(0, empty_node), (1, empty_node), (2, empty_node), (3, empty_node), (4, empty_node),
      (5, empty_node), (7, empty_node), (8, empty_node), (9, sparse [(0, Leaf
      0xffff88bab100fa00)]), (10, empty_node), (11, empty_node), (12, empty_node), (13,
      empty_node), (14, empty_node), (15, empty_node)])
    (captured_child construct_array_3 3)"
  by code_simp

lemma captured_4: "check_dump construct_array_4 4
     (sparse [(0, empty_node), (2, empty_node), (3, empty_node), (4, empty_node), (5, empty_node),
      (6, empty_node), (7, empty_node), (8, empty_node), (9, empty_node), (10, empty_node), (11,
      empty_node), (12, empty_node), (13, empty_node), (14, empty_node), (15, sparse [(0, Leaf
      0xffff88bd8d224e00)])])
    (captured_child construct_array_4 4)"
  by code_simp

lemma captured_5: "check_dump construct_array_5 5
     (sparse [(0, empty_node), (1, empty_node), (2, empty_node), (3, empty_node), (4, empty_node),
      (5, empty_node), (6, empty_node), (7, empty_node), (8, empty_node), (9, empty_node), (10,
      empty_node), (11, empty_node), (13, empty_node), (14, empty_node), (15, empty_node)])
    (captured_child construct_array_5 5)"
  by code_simp

lemma captured_6: "check_dump construct_array_6 6
     (sparse [(0, empty_node), (1, empty_node), (2, empty_node), (3, empty_node), (4, empty_node),
      (5, empty_node), (6, empty_node), (7, empty_node), (8, empty_node), (9, empty_node), (10,
      empty_node), (11, empty_node), (12, empty_node), (13, empty_node), (14, empty_node), (15,
      empty_node)])
    (captured_child construct_array_6 6)"
  by code_simp

lemma captured_7: "check_dump construct_array_7 7
     (sparse [(0, empty_node), (1, empty_node), (2, empty_node), (3, empty_node), (4, empty_node),
      (5, empty_node), (6, empty_node), (7, empty_node), (8, empty_node), (9, empty_node), (10,
      empty_node), (11, empty_node), (12, sparse [(0, Leaf 0xffff88bcdb35fe00)]), (13,
      empty_node), (15, empty_node)])
    (captured_child construct_array_7 7)"
  by code_simp

lemma captured_8: "check_dump construct_array_8 8
     (sparse [(0, sparse [(0, Leaf 0xffff88b100e37600)]), (1, empty_node), (2, empty_node), (3,
      empty_node), (4, empty_node), (5, empty_node), (7, empty_node), (8, empty_node), (9,
      empty_node), (10, sparse [(0, Leaf 0xffff887b0cd30400)]), (11, empty_node), (12,
      empty_node), (13, empty_node), (14, empty_node)])
    (captured_child construct_array_8 8)"
  by code_simp

lemma captured_9: "check_dump construct_array_9 9
     (sparse [(0, sparse [(0, Leaf 0xffff88b1c0c7fe00), (12, Leaf 0xffff88bd5ed59c00)]), (1,
      sparse [(0, Leaf 0xffff88b1c0db3f00)]), (2, empty_node), (3, empty_node), (4, empty_node),
      (5, empty_node), (6, empty_node), (7, empty_node), (8, empty_node), (9, empty_node), (10,
      empty_node), (11, empty_node), (12, empty_node), (13, empty_node), (14, empty_node), (15,
      empty_node)])
    (captured_child construct_array_9 9)"
  by code_simp

lemma captured_10: "check_dump construct_array_10 10
     (sparse [(0, empty_node), (1, empty_node), (2, empty_node), (3, empty_node), (4, empty_node),
      (5, empty_node), (6, empty_node), (7, empty_node), (8, empty_node), (9, empty_node), (10,
      empty_node), (11, empty_node), (12, empty_node), (13, empty_node), (14, empty_node), (15,
      empty_node)])
    (captured_child construct_array_10 10)"
  by code_simp

lemma captured_11: "check_dump construct_array_11 11
     (sparse [(0, empty_node), (1, empty_node), (2, empty_node), (3, empty_node), (4, empty_node),
      (5, empty_node), (6, empty_node), (7, empty_node), (8, empty_node), (9, empty_node), (10,
      empty_node), (11, empty_node), (12, sparse [(0, Leaf 0xffff887b0cd30c00)]), (13,
      empty_node), (14, empty_node), (15, empty_node)])
    (captured_child construct_array_11 11)"
  by code_simp

lemma captured_12: "check_dump construct_array_12 12
     (sparse [(0, empty_node), (1, sparse [(0, Leaf 0xffff887b0cd30000)]), (2, sparse [(0, Leaf
      0xffff887b0cd31c00)]), (3, empty_node), (4, empty_node), (5, empty_node), (6, empty_node),
      (7, empty_node), (8, empty_node), (9, empty_node), (10, empty_node), (11, empty_node), (12,
      empty_node), (13, empty_node), (14, empty_node), (15, empty_node)])
    (captured_child construct_array_12 12)"
  by code_simp

lemma captured_13: "check_dump construct_array_13 13
     (sparse [(0, empty_node), (1, empty_node), (2, sparse [(0, Leaf 0xffff887b0cd31300)]), (3,
      sparse [(0, Leaf 0xffff887b0cd31a00)]), (4, empty_node), (5, empty_node), (6, empty_node),
      (8, empty_node), (9, empty_node), (10, empty_node), (12, empty_node), (13, empty_node), (15,
      sparse [(13, Leaf 0xffff887a71cbf000)])])
    (captured_child construct_array_13 13)"
  by code_simp

lemma captured_14: "check_dump construct_array_14 14
     (sparse [(0, empty_node), (1, empty_node), (3, empty_node), (4, empty_node), (5, empty_node),
      (6, empty_node), (7, empty_node), (9, empty_node), (10, empty_node), (12, empty_node), (14,
      empty_node), (15, empty_node)])
    (captured_child construct_array_14 14)"
  by code_simp

lemma captured_15: "check_dump construct_array_15 15
     (sparse [(0, empty_node), (1, empty_node), (2, empty_node), (3, empty_node), (5, empty_node),
      (6, empty_node), (7, empty_node), (8, sparse [(14, Leaf 0xffff8875250cdf00)]), (9,
      empty_node), (10, empty_node), (12, empty_node), (13, empty_node), (14, empty_node), (15,
      empty_node)])
    (captured_child construct_array_15 15)"
  by code_simp

fun check_dumps :: "nat \<Rightarrow> (stmt list \<times> ptr tr) list \<Rightarrow> dump list \<Rightarrow> bool" where
  "check_dumps i ((ss, t) # xs) (d # ds) \<longleftrightarrow> check_dump ss i t d \<and> check_dumps (Suc i) xs ds"
| "check_dumps i [] [] \<longleftrightarrow> True"
| "check_dumps i _ _ \<longleftrightarrow> False"

lemma check_dumps_all:
  assumes "check_dumps i xs ds"
  shows "dumps_ok i ds" and "construct_slots i ds = concat (map fst xs)"
    and "map (filter_tree (keeps my_iterator)) (map tree_of ds) = map snd xs" and "length ds = length xs"
  using assms by (induction i xs ds rule: check_dumps.induct) (simp_all add: check_dump_def)

lemma captured_checked:
  "check_dumps 1 (zip construct_children filtered_children) captured_children"
proof -
  have upt: "[1..<16] = [1, 2, 3, 4, 5, 6, 7, 8, 9, 10, 11, 12, 13, 14, 15]"
    by (simp add: upt_rec)
  show ?thesis
    unfolding captured_children_def upt
    by (simp add: construct_children_def filtered_children_def del: One_nat_def add: 
        captured_1 captured_2 captured_3 captured_4 captured_5 captured_6 captured_7 captured_8
        captured_9 captured_10 captured_11 captured_12 captured_13 captured_14 captured_15)
qed

lemma captured_stmts: "construct_array = construct_stmts 1028 captured"
proof -
  have "map fst (zip construct_children filtered_children) = construct_children"
    by (simp add: construct_children_def filtered_children_def)
  then show ?thesis
    using check_dumps_all(2) [OF captured_checked]
    by (simp add: construct_array_def construct_stmts_def captured_def construct_array_root_def)
qed

lemma captured_ok: "dump_ok 0 captured"
  using check_dumps_all(1,4) [OF captured_checked]
  by (simp add: captured_def construct_children_def filtered_children_def)

lemma captured_filtered: "filter_tree (keeps my_iterator) (tree_of captured) = filtered"
proof -
  have "map snd (zip construct_children filtered_children) = filtered_children"
    by (simp add: construct_children_def filtered_children_def)
  then show ?thesis
    using check_dumps_all(3) [OF captured_checked] by (simp add: captured_def filtered_def)
qed

section \<open>The collection of the captured array\<close>

lemma filtered_shape: "nnodes filtered = 239 \<and> fan_out filtered"
  by code_simp

lemma filtered_original: "gce retry_never 239 filtered = Inl (TBug Bug_meta)"
  by code_simp

text \<open>The leaves in the order \<open>repro_fixed.txt\<close> shows.\<close>

definition collected :: "ptr list" where
  "collected = [
    0xffff88bab100fa00, 0xffff88bd8d224e00, 0xffff88bcdb35fe00, 0xffff88b100e37600,
    0xffff887b0cd30400, 0xffff88b1c0c7fe00, 0xffff88b1c0db3f00, 0xffff88bd5ed59c00,
    0xffff887b0cd30c00, 0xffff887b0cd30000, 0xffff887b0cd31c00, 0xffff887b0cd31300,
    0xffff887b0cd31a00, 0xffff887a71cbf000, 0xffff8875250cdf00]"

lemma filtered_fixed: "gce retry_fixed 239 filtered = Inr (Node (map Leaf collected @ [Hole]), 0)"
  by code_simp

lemma captured_shape: "fan_out (tree_of captured)" "nnodes (tree_of captured) = 239"
  "nleaves (tree_of captured) < 2 ^ 64"
proof -
  have f: "fan_out (filter_tree (keeps my_iterator) (tree_of captured))"
    "nnodes (filter_tree (keeps my_iterator) (tree_of captured)) = 239"
    using filtered_shape by (simp_all only: captured_filtered)
  then show 1: "fan_out (tree_of captured)" and 2: "nnodes (tree_of captured) = 239" by simp_all
  show "nleaves (tree_of captured) < 2 ^ 64"
    using nleaves_le_nodes [OF 1] 2 by (simp split: if_splits)
qed

lemma captured_gct:
  "gct retry (keeps my_iterator) k (tree_of captured) = gce retry k filtered"
  using gct_filter(1) [of retry "keeps my_iterator" k "tree_of captured"]
    gce_gct(1) [of filtered retry k] filtered_shape
  by (simp add: captured_filtered)

lemma captured_original: "239 \<le> k \<Longrightarrow>
    gct retry_never (keeps my_iterator) k (tree_of captured) = Inl (TBug Bug_meta)"
  using gct_more_bug(1) [of retry_never "keeps my_iterator" 239 "tree_of captured" _ "k - 239"]
    filtered_original by (simp add: captured_gct)

lemma captured_fixed: "239 \<le> k \<Longrightarrow> gct retry_fixed (keeps my_iterator) k (tree_of captured) =
    Inr (Node (map Leaf collected @ [Hole]), k - 239)"
  using gct_more(1) [of retry_fixed "keeps my_iterator" 239 "tree_of captured" _ _ "k - 239"]
    filtered_fixed by (simp add: captured_gct)

end
