(* ===== verification/AssocCaptureProps.thy ===== *)
theory AssocCaptureProps
  imports AssocCapture
begin

text \<open>
  What the test programs \<open>repro.c\<close> and \<open>repro_fixed.c\<close> do in \<open>main\<close>: build the
  captured array and collect it.
\<close>

text \<open>\<open>plenty n\<close> is an empty heap with \<open>n\<close> objects to allocate, at the multiples of 16.\<close>

definition plenty :: "nat \<Rightarrow> mem" where
  "plenty n = \<lparr>nodes = Map.empty, shorts = Map.empty, edits = Map.empty,
     pool = map (\<lambda>i. of_nat (16 * Suc i)) [0..<n]\<rparr>"

lemma unat_small: "n < 2 ^ 64 \<Longrightarrow> unat (of_nat n :: u64) = n"
  by (simp add: unsigned_of_nat take_bit_nat_eq_self)

lemma plenty_aligned: "i < 1000 \<Longrightarrow> aligned (of_nat (16 * Suc i))"
proof -
  assume i: "i < 1000"
  have "unat (of_nat (16 * Suc i) :: u64) = 16 * Suc i"
    by (rule unat_small) (use i in simp)
  then have nz: "of_nat (16 * Suc i) \<noteq> (0 :: u64)" by auto
  have mask: "x AND 3 = take_bit 2 x" for x :: u64
    by (simp add: take_bit_eq_mask mask_eq_exp_minus_1)
  have z: "take_bit 2 (16 * Suc i) = 0" by (simp add: take_bit_eq_mod)
  have "take_bit 2 (of_nat (16 * Suc i) :: u64) = of_nat (take_bit 2 (16 * Suc i))"
    by (rule take_bit_of_nat)
  also have "\<dots> = of_nat 0" using z by (rule arg_cong)
  also have "\<dots> = 0" by simp
  finally have "of_nat (16 * Suc i) AND 3 = (0 :: u64)" unfolding mask .
  with nz show ?thesis unfolding aligned_def by (rule conjI)
qed

lemma plenty_fresh: "n \<le> 1000 \<Longrightarrow> fresh_pool (plenty n)"
proof -
  assume n: "n \<le> 1000"
  have "inj_on (\<lambda>i. of_nat (16 * Suc i) :: u64) {0..<n}"
  proof (rule inj_onI)
    fix i j
    assume i: "i \<in> {0..<n}" and j: "j \<in> {0..<n}"
      and e: "(of_nat (16 * Suc i) :: u64) = of_nat (16 * Suc j)"
    have "unat (of_nat (16 * Suc i) :: u64) = 16 * Suc i" "unat (of_nat (16 * Suc j) :: u64) = 16 * Suc j"
      by (rule unat_small; use i j n in simp)+
    with e have "16 * Suc i = 16 * Suc j" by metis
    then show "i = j" by simp
  qed
  then show ?thesis
    using plenty_aligned n by (auto simp: fresh_pool_def plenty_def distinct_map simp del: of_nat_mult of_nat_Suc mult_Suc_right)
qed

section \<open>Properties\<close>

text \<open>
  C10: The creation helpers, run on the statements \<open>assoc_array_constructor.py\<close> writes
  for a tree, build a well-formed array that represents exactly this tree, with the
  stored leaf count, one allocation per node.
\<close>

theorem make_array_roundtrip:
  assumes "d = DNode s w ds" and "dump_ok 0 d" and "fresh_pool m"
    and "nnodes (tree_of d) \<le> length (pool m)" and "nleaves (tree_of d) < 2 ^ 64"
  shows "\<exists>b t. make_array (construct_stmts nr d) m = Inr b \<and> erase t = tree_of d \<and>
    wf_array (b_mem b) (b_array b) t \<and> nr_leaves_on_tree (b_array b) = nr \<and>
    length (pool m) = nnodes (tree_of d) + length (pool (b_mem b))"
  by (rule make_array_builds [OF assms])

lemma captured_node: "captured = DNode 0 0x404 (DHole # captured_children)"
  by (simp add: captured_def)

theorem make_array_roundtrip_witness:
  "\<exists>b t. make_array (construct_stmts 1028 captured) (plenty 500) = Inr b \<and> erase t = tree_of captured \<and>
    wf_array (b_mem b) (b_array b) t \<and> nr_leaves_on_tree (b_array b) = 1028 \<and>
    length (pool (plenty 500)) = nnodes (tree_of captured) + length (pool (b_mem b))"
  by (rule make_array_roundtrip [OF captured_node captured_ok plenty_fresh _ captured_shape(3)])
    (simp_all add: captured_shape(2) plenty_def)

lemma captured_built:
  assumes "fresh_pool m" and "239 \<le> length (pool m)"
  shows "\<exists>b t. make_array construct_array m = Inr b \<and> erase t = tree_of captured \<and>
    wf_array (b_mem b) (b_array b) t \<and> length (pool m) = 239 + length (pool (b_mem b))"
  using make_array_builds [OF captured_node captured_ok assms(1) _ captured_shape(3), of 1028] assms(2)
  by (auto simp: captured_shape(2) captured_stmts)

lemma captured_spec:
  assumes "erase t = tree_of captured" and "length (pool m) = Suc k"
  shows "gc_spec retry my_iterator m t = gct retry (keeps my_iterator) k (tree_of captured)"
  using assms by (auto simp: gc_spec_def length_Suc_conv)

text \<open>
  C8: The reproducer works: with memory for all the objects, \<open>main\<close> of \<open>repro.c\<close>
  builds the array of the core dump, and the original collector, with the iterator
  that keeps its fifteen leaves, hits the \<open>BUG_ON\<close> on a meta pointer.
\<close>

theorem repro_hits_bug:
  assumes "fresh_pool m" and "479 \<le> length (pool m)"
  shows "\<exists>b. make_array construct_array m = Inr b \<and>
    assoc_array_gc my_iterator (b_mem b) (b_array b) = Some (Bug Bug_meta)"
proof -
  from captured_built [OF assms(1)] assms(2) obtain b t where b: "make_array construct_array m = Inr b"
    "erase t = tree_of captured" "wf_array (b_mem b) (b_array b) t"
    "length (pool m) = 239 + length (pool (b_mem b))" by auto
  obtain k where k: "length (pool (b_mem b)) = Suc k" "239 \<le> k"
    using b(4) assms(2) by (cases "length (pool (b_mem b))") auto
  have "gc_spec retry_never my_iterator (b_mem b) t = Inl (TBug Bug_meta)"
    using captured_spec [OF b(2) k(1)] captured_original [OF k(2)] by simp
  then show ?thesis
    using original_run [OF b(3), of my_iterator] b(1) by (auto simp: gc_result_def)
qed

theorem repro_hits_bug_witness:
  "\<exists>b. make_array construct_array (plenty 479) = Inr b \<and>
    assoc_array_gc my_iterator (b_mem b) (b_array b) = Some (Bug Bug_meta)"
  by (rule repro_hits_bug [OF plenty_fresh]) (simp_all add: plenty_def)

text \<open>
  C9: The patched program returns 0 on the same array and leaves a root that holds
  the fifteen leaves, in the order \<open>repro_fixed.txt\<close> shows, and nothing else.
\<close>

theorem repro_fixed_collects:
  assumes "fresh_pool m" and "479 \<le> length (pool m)"
  shows "\<exists>b m' array' t'. make_array construct_array m = Inr b \<and>
    assoc_array_gc_fixed my_iterator (b_mem b) (b_array b) = Some (Returned 0 m' array') \<and>
    root array' = ptr_of t' \<and> rep True (nodes m') 0 0 t' \<and>
    erase t' = Node (map Leaf collected @ [Hole]) \<and> nr_leaves_on_tree array' = 15"
proof -
  from captured_built [OF assms(1)] assms(2) obtain b t where b: "make_array construct_array m = Inr b"
    "erase t = tree_of captured" "wf_array (b_mem b) (b_array b) t"
    "length (pool m) = 239 + length (pool (b_mem b))" by auto
  obtain k where k: "length (pool (b_mem b)) = Suc k" "239 \<le> k"
    using b(4) assms(2) by (cases "length (pool (b_mem b))") auto
  have s: "gc_spec retry_fixed my_iterator (b_mem b) t = Inr (Node (map Leaf collected @ [Hole]), k - 239)"
    using captured_spec [OF b(2) k(1)] captured_fixed [OF k(2)] by simp
  have n: "nleaves (Node (map Leaf collected @ [Hole])) = 15" by (simp add: collected_def)
  from fixed_run [OF b(3), of my_iterator] obtain m' array' t' where
    "assoc_array_gc_fixed my_iterator (b_mem b) (b_array b) = Some (Returned 0 m' array')"
    "root array' = ptr_of t'" "rep True (nodes m') 0 0 t'"
    "erase t' = Node (map Leaf collected @ [Hole])" "nr_leaves_on_tree array' = of_nat 15"
    unfolding s gc_result_def by (auto simp: n simp del: nleaves.simps)
  then show ?thesis using b(1) by auto
qed

theorem repro_fixed_collects_witness:
  "\<exists>b m' array' t'. make_array construct_array (plenty 479) = Inr b \<and>
    assoc_array_gc_fixed my_iterator (b_mem b) (b_array b) = Some (Returned 0 m' array') \<and>
    root array' = ptr_of t' \<and> rep True (nodes m') 0 0 t' \<and>
    erase t' = Node (map Leaf collected @ [Hole]) \<and> nr_leaves_on_tree array' = 15"
  by (rule repro_fixed_collects [OF plenty_fresh]) (simp_all add: plenty_def)

end
