(* ===== verification/Crashstash.thy ===== *)
theory Crashstash
  imports Prelude
begin

text \<open>
  The kernel module of \<open>src/crashstash/crashstash.c\<close>: a proc file whose contents
  stay in kernel pages for a later core dump. The handlers run under one mutex, so
  each is one atomic step. Kernel functions outside the repository are modelled by
  what they return: \<open>alloc_page\<close> takes pages from a supply that may run out,
  \<open>copy_from_user\<close> and \<open>copy_to_user\<close> are functions of a record \<open>user_env\<close>.
\<close>

section \<open>State\<close>

type_synonym byte = u8
type_synonym page = "byte list"

abbreviation (input) PAGE_SIZE :: u64 where "PAGE_SIZE \<equiv> 4096"
abbreviation (input) MAXSIZE :: u64 where "MAXSIZE \<equiv> 10485760"

text \<open>
  The module's variables: \<open>count\<close>, the list \<open>crashstash\<close> of pages, \<open>size\<close> and
  \<open>pages\<close>; the size shown by the proc entry; and \<open>st_free\<close>, the pages \<open>alloc_page\<close>
  will return next, with the bytes they happen to hold.
\<close>

record stash =
  st_count :: int
  st_crashstash :: "page list"
  st_size :: u64
  st_pages :: u64
  st_pde_size :: u64
  st_free :: "page list"

text \<open>The \<open>BUG_ON\<close>s, and the accesses that would crash the kernel.\<close>

datatype stash_err = Bug_count | Bug_list_empty | Null_page | Bad_page

text \<open>
  \<open>copy_from u n\<close>: \<open>Inr\<close> the \<open>n\<close> bytes at the user address \<open>u\<close>, or \<open>Inl\<close> what the
  destination holds after a failed copy. \<open>copy_to_ok u n\<close>: \<open>n\<close> bytes can be written
  at \<open>u\<close>.
\<close>

record user_env =
  copy_from :: "nat \<Rightarrow> nat \<Rightarrow> page + page"
  copy_to_ok :: "nat \<Rightarrow> nat \<Rightarrow> bool"

text \<open>The documented contract of \<open>copy_from_user\<close>: \<open>n\<close> bytes of the destination are written.\<close>

definition copies :: "user_env \<Rightarrow> bool" where
  "copies env \<longleftrightarrow> (\<forall>u n. case copy_from env u n of Inl bs \<Rightarrow> length bs = n | Inr bs \<Rightarrow> length bs = n)"

abbreviation (input) ENOENT :: int where "ENOENT \<equiv> 2"
abbreviation (input) EFAULT :: int where "EFAULT \<equiv> 14"
abbreviation (input) EBUSY :: int where "EBUSY \<equiv> 16"
abbreviation (input) EINVAL :: int where "EINVAL \<equiv> 22"
abbreviation (input) ENOSPC :: int where "ENOSPC \<equiv> 28"
abbreviation (input) O_ACCMODE :: u32 where "O_ACCMODE \<equiv> 3"
abbreviation (input) O_WRONLY :: u32 where "O_WRONLY \<equiv> 1"
abbreviation (input) O_RDWR :: u32 where "O_RDWR \<equiv> 2"

section \<open>Open and release\<close>

text \<open>The pages go back to the allocator.\<close>

definition crashstash_free :: "stash \<Rightarrow> stash" where
  "crashstash_free s = s\<lparr>st_free := st_free s @ st_crashstash s, st_crashstash := [],
     st_size := 0, st_pages := 0\<rparr>"

definition crashstash_open :: "u32 \<Rightarrow> stash \<Rightarrow> int \<times> stash" where
  "crashstash_open f_flags s =
     (let mode = f_flags AND O_ACCMODE in
      if st_count s \<noteq> 0 then (- EBUSY, s)
      else if mode = O_RDWR then (- EINVAL, s)
      else
        let s' = (if mode = O_WRONLY then crashstash_free s else s)
        in (0, s'\<lparr>st_count := st_count s' + 1\<rparr>))"

definition crashstash_release :: "stash \<Rightarrow> stash_err + int \<times> stash" where
  "crashstash_release s =
     (if st_count s \<le> 0 then Inl Bug_count else Inr (0, s\<lparr>st_count := st_count s - 1\<rparr>))"

text \<open>
  Loading the module registers the proc file, which may fail; unloading it removes
  the file and frees the pages.
\<close>

definition crashstash_init :: "bool \<Rightarrow> int" where
  "crashstash_init created = (if created then 0 else - ENOENT)"

definition crashstash_exit :: "stash \<Rightarrow> stash" where
  "crashstash_exit s = crashstash_free s"

section \<open>Write\<close>

text \<open>\<open>alloc_page\<close> and \<open>list_add_tail\<close>; the page is not checked for NULL.\<close>

definition add_page :: "stash \<Rightarrow> stash_err + stash" where
  "add_page s = (case st_free s of [] \<Rightarrow> Inl Null_page
     | p # ps \<Rightarrow> Inr (s\<lparr>st_crashstash := st_crashstash s @ [p], st_pages := st_pages s + 1,
                        st_free := ps\<rparr>))"

definition patch_page :: "page \<Rightarrow> nat \<Rightarrow> byte list \<Rightarrow> page" where
  "patch_page pg off bs = take off pg @ bs @ drop (off + length bs) pg"

definition fill_last :: "nat \<Rightarrow> byte list \<Rightarrow> stash \<Rightarrow> stash" where
  "fill_last off bs s = s\<lparr>st_crashstash :=
     butlast (st_crashstash s) @ [patch_page (last (st_crashstash s)) off bs]\<rparr>"

text \<open>One turn finds or adds the last page and fills what fits into it.\<close>

definition write_page :: "u64 \<Rightarrow> stash \<Rightarrow> stash_err + stash" where
  "write_page pgoff s =
     (if pgoff \<noteq> 0 then (if st_crashstash s = [] then Inl Bug_list_empty else Inr s)
      else add_page s)"

lemma chunk_pos: "amt \<noteq> 0 \<Longrightarrow> min amt (PAGE_SIZE - off mod PAGE_SIZE) \<noteq> (0 :: u64)"
proof -
  assume a: "amt \<noteq> 0"
  have "off mod PAGE_SIZE < PAGE_SIZE" by (rule word_mod_less_divisor) simp
  then have "PAGE_SIZE - off mod PAGE_SIZE \<noteq> 0" by auto
  with a show ?thesis by (auto simp: min_def)
qed

lemma chunk_less: "amt \<noteq> 0 \<Longrightarrow> unat (amt - min amt (PAGE_SIZE - off mod PAGE_SIZE)) < unat (amt :: u64)"
proof -
  assume a: "amt \<noteq> 0"
  let ?c = "min amt (PAGE_SIZE - off mod PAGE_SIZE)"
  have "unat ?c \<noteq> 0" using chunk_pos [OF a] by (simp add: unat_eq_0)
  moreover have "?c \<le> amt" by simp
  then have "unat (amt - ?c) = unat amt - unat ?c" by (rule unat_sub)
  moreover have "0 < unat amt" using a by (simp add: unat_gt_0)
  ultimately show ?thesis by simp
qed

function write_loop :: "user_env \<Rightarrow> u64 \<Rightarrow> nat \<Rightarrow> u64 \<Rightarrow> int \<Rightarrow> stash
    \<Rightarrow> stash_err + int \<times> u64 \<times> stash" where
  "write_loop env amt data off written s =
     (if amt = 0 then Inr (written, off, s)
      else
        let pgoff = off mod PAGE_SIZE; chunk_amt = min amt (PAGE_SIZE - pgoff) in
        case write_page pgoff s of
          Inl e \<Rightarrow> Inl e
        | Inr s' \<Rightarrow>
            (case copy_from env data (unat chunk_amt) of
               Inl bs \<Rightarrow> Inr (- EFAULT, off, fill_last (unat pgoff) bs s')
             | Inr bs \<Rightarrow>
                 write_loop env (amt - chunk_amt) (data + unat chunk_amt) (off + chunk_amt)
                   (written + int (unat chunk_amt))
                   ((fill_last (unat pgoff) bs s')\<lparr>st_size := st_size s' + chunk_amt\<rparr>)))"
  by pat_completeness auto
termination
  by (relation "measure (\<lambda>(env, amt, _). unat amt)") (auto simp: chunk_less simp del: min_less_iff_conj)

declare write_loop.simps [simp del]

definition crashstash_write :: "user_env \<Rightarrow> nat \<Rightarrow> u64 \<Rightarrow> u64 \<Rightarrow> stash
    \<Rightarrow> stash_err + int \<times> u64 \<times> stash" where
  "crashstash_write env data amt off s =
     (if off \<noteq> st_size s then Inr (- EINVAL, off, s)
      else if MAXSIZE \<le> st_size s then Inr (- ENOSPC, off, s)
      else
        let amt' = (if MAXSIZE < st_size s + amt then MAXSIZE - st_size s else amt)
        in bindR (write_loop env amt' data off 0 s) (\<lambda>(written, off', s').
             Inr (written, off', s'\<lparr>st_pde_size := st_size s'\<rparr>)))"

section \<open>Read\<close>

text \<open>
  \<open>pgs\<close> are the pages from the current one on; going behind the last page yields the
  list's head, which is no page. The result holds the bytes copied to the user.
\<close>

function read_loop :: "user_env \<Rightarrow> u64 \<Rightarrow> nat \<Rightarrow> u64 \<Rightarrow> int \<Rightarrow> byte list \<Rightarrow> page list
    \<Rightarrow> stash_err + int \<times> u64 \<times> byte list" where
  "read_loop env amt data off read out pgs =
     (if amt = 0 then Inr (read, off, out)
      else
        let pgoff = off mod PAGE_SIZE; chunk_amt = min amt (PAGE_SIZE - pgoff) in
        case pgs of
          [] \<Rightarrow> Inl Bad_page
        | pg # pgs' \<Rightarrow>
            if \<not> copy_to_ok env data (unat chunk_amt) then Inr (- EFAULT, off, out)
            else read_loop env (amt - chunk_amt) (data + unat chunk_amt) (off + chunk_amt)
                   (read + int (unat chunk_amt))
                   (out @ take (unat chunk_amt) (drop (unat pgoff) pg)) pgs')"
  by pat_completeness auto
termination
  by (relation "measure (\<lambda>(env, amt, _). unat amt)") (auto simp: chunk_less simp del: min_less_iff_conj)

declare read_loop.simps [simp del]

definition crashstash_read :: "user_env \<Rightarrow> nat \<Rightarrow> u64 \<Rightarrow> u64 \<Rightarrow> stash
    \<Rightarrow> stash_err + int \<times> u64 \<times> byte list" where
  "crashstash_read env data amt off s =
     (let amt' = (if st_size s < off + amt then st_size s - off else amt)
      in read_loop env amt' data off 0 [] (drop (unat (off div PAGE_SIZE)) (st_crashstash s)))"

section \<open>The invariant of the stash\<close>

text \<open>
  \<open>pages_for n\<close> pages hold \<open>n\<close> bytes. A stash always has at least the pages its size
  needs; it is \<open>tight\<close> when it has no more, and then its contents are its pages up to
  the size.
\<close>

definition pages_for :: "nat \<Rightarrow> nat" where
  "pages_for n = (n + 4095) div 4096"

definition stash_ok :: "stash \<Rightarrow> bool" where
  "stash_ok s \<longleftrightarrow> st_size s \<le> MAXSIZE \<and>
     list_all (\<lambda>p. length p = 4096) (st_crashstash s) \<and> list_all (\<lambda>p. length p = 4096) (st_free s) \<and>
     pages_for (unat (st_size s)) \<le> length (st_crashstash s) \<and>
     st_pages s = of_nat (length (st_crashstash s))"

definition tight :: "stash \<Rightarrow> bool" where
  "tight s \<longleftrightarrow> length (st_crashstash s) = pages_for (unat (st_size s))"

definition contents :: "stash \<Rightarrow> byte list" where
  "contents s = take (unat (st_size s)) (concat (st_crashstash s))"

lemma length_concat_pages: "list_all (\<lambda>p. length p = k) ps \<Longrightarrow> length (concat ps) = k * length ps"
  by (induction ps) auto

lemma drop_concat_pages:
  "list_all (\<lambda>p. length p = k) ps \<Longrightarrow> drop (k * q) (concat ps) = concat (drop q ps)"
proof (induction ps arbitrary: q)
  case (Cons p ps)
  then show ?case by (cases q) auto
qed simp

lemma length_contents: "stash_ok s \<Longrightarrow> length (contents s) = unat (st_size s)"
  by (auto simp: contents_def stash_ok_def length_concat_pages pages_for_def)

lemma unat_chunk:
  "unat (min amt (PAGE_SIZE - off mod PAGE_SIZE) :: u64) = min (unat amt) (4096 - unat off mod 4096)"
proof -
  have m: "off mod PAGE_SIZE < PAGE_SIZE" by (rule word_mod_less_divisor) simp
  then have "unat (PAGE_SIZE - off mod PAGE_SIZE) = 4096 - unat off mod 4096"
    by (subst unat_sub) (auto simp: unat_mod)
  then show ?thesis by (simp add: min_def word_le_nat_alt)
qed

lemma unat_page_offset: "unat (off mod PAGE_SIZE :: u64) = unat off mod 4096"
  by (simp add: unat_mod)

lemma page_offset_0: "(off mod PAGE_SIZE :: u64) = 0 \<longleftrightarrow> unat off mod 4096 = 0"
  by (metis unat_page_offset unat_eq_0)

section \<open>One turn of the write loop\<close>

lemma pages_for_add:
  assumes "r = n mod 4096" and "0 < c" and "c \<le> 4096 - r"
  shows "pages_for (n + c) = n div 4096 + 1"
    and "pages_for n = (if r = 0 then n div 4096 else n div 4096 + 1)"
proof -
  obtain q where q: "n div 4096 = q" "n = 4096 * q + r" "r < 4096"
    using assms(1) by (metis mult_div_mod_eq mod_less_divisor zero_less_numeral)
  have "(n + c + 4095) div 4096 = q + 1"
    by (rule div_nat_eqI) (use q assms(2,3) in auto)
  then show "pages_for (n + c) = n div 4096 + 1" using q(1) by (simp add: pages_for_def)
  have "(n + 4095) div 4096 = (if r = 0 then q else q + 1)"
    by (rule div_nat_eqI) (use q in auto)
  then show "pages_for n = (if r = 0 then n div 4096 else n div 4096 + 1)"
    using q(1) by (simp add: pages_for_def)
qed

lemma pages_for_eq: "pages_for n = (if n mod 4096 = 0 then n div 4096 else n div 4096 + 1)"
proof (rule pages_for_add(2) [OF refl, where c = 1])
  show "1 \<le> 4096 - n mod 4096" using mod_less_divisor [of 4096 n] by linarith
qed simp

text \<open>After \<open>write_page\<close> there is a last page.\<close>

lemma write_page_ok:
  assumes ok: "stash_ok s" and p: "write_page (off mod PAGE_SIZE) s = Inr s'"
    and off: "off = st_size s"
  shows "\<exists>ini pg. st_crashstash s' = ini @ [pg] \<and> length pg = 4096 \<and>
    list_all (\<lambda>p. length p = 4096) ini \<and> list_all (\<lambda>p. length p = 4096) (st_free s') \<and>
    unat off div 4096 \<le> length ini \<and> st_pages s' = of_nat (Suc (length ini)) \<and>
    st_size s' = st_size s \<and> st_count s' = st_count s \<and> st_pde_size s' = st_pde_size s \<and>
    (tight s \<longrightarrow> length ini = unat off div 4096 \<and>
       contents s = concat ini @ take (unat off mod 4096) pg \<and>
       length (st_free s) = length (st_free s') + (if unat off mod 4096 = 0 then 1 else 0))"
proof (cases "off mod PAGE_SIZE = 0")
  case True
  then obtain q qs where f: "st_free s = q # qs"
    and s': "s' = s\<lparr>st_crashstash := st_crashstash s @ [q], st_pages := st_pages s + 1, st_free := qs\<rparr>"
    using p by (auto simp: write_page_def add_page_def split: list.splits)
  have r: "unat off mod 4096 = 0" using True by (simp only: page_offset_0)
  then have pf: "pages_for (unat off) = unat off div 4096"
    by (simp add: pages_for_eq)
  have "concat (st_crashstash s) = contents s" if "tight s"
  proof -
    have "length (concat (st_crashstash s)) = 4096 * (unat off div 4096)"
      using ok that pf off length_concat_pages [of 4096 "st_crashstash s"]
      by (simp add: tight_def stash_ok_def)
    also have "\<dots> = unat off" using r by (metis mult_div_mod_eq add_0_right)
    finally show ?thesis using off by (simp add: contents_def)
  qed
  then show ?thesis
    using ok f s' pf r off by (auto simp: stash_ok_def tight_def)
next
  case False
  then have s': "s' = s" and ne: "st_crashstash s \<noteq> []"
    using p by (auto simp: write_page_def split: if_splits)
  have r: "unat off mod 4096 \<noteq> 0" using False page_offset_0 by blast
  then have pf: "pages_for (unat off) = unat off div 4096 + 1"
    by (simp add: pages_for_eq)
  obtain ini pg where ip: "st_crashstash s = ini @ [pg]" using ne rev_exhaust by blast
  have "contents s = concat ini @ take (unat off mod 4096) pg" if "tight s"
  proof -
    have l: "length ini = unat off div 4096" using that ip pf off by (simp add: tight_def)
    have "length (concat ini) = 4096 * (unat off div 4096)"
      using ok ip l length_concat_pages [of 4096 ini] by (simp add: stash_ok_def)
    moreover have "unat off - 4096 * (unat off div 4096) = unat off mod 4096"
      by (simp add: minus_mult_div_eq_mod)
    ultimately show ?thesis using ip off by (simp add: contents_def)
  qed
  then show ?thesis
    using ok ip s' pf r off by (auto simp: stash_ok_def tight_def)
qed

lemma patch_page_length: "off + length bs \<le> length pg \<Longrightarrow> length (patch_page pg off bs) = length pg"
  by (simp add: patch_page_def)

lemma stash_ok_fill:
  assumes ok: "stash_ok s" and p: "write_page (off mod PAGE_SIZE) s = Inr s'" and off: "off = st_size s"
    and bs: "unat off mod 4096 + length bs \<le> 4096"
  shows "stash_ok (fill_last (unat off mod 4096) bs s')"
proof -
  from write_page_ok [OF ok p off] obtain ini pg where ip: "st_crashstash s' = ini @ [pg]"
    "length pg = 4096" "list_all (\<lambda>p. length p = 4096) ini"
    "list_all (\<lambda>p. length p = 4096) (st_free s')" "unat off div 4096 \<le> length ini"
    "st_pages s' = of_nat (Suc (length ini))" "st_size s' = st_size s" by blast
  have "pages_for (unat off) \<le> Suc (length ini)" using ip(5) by (simp add: pages_for_eq)
  then show ?thesis
    using ip ok off bs by (simp add: stash_ok_def fill_last_def patch_page_length)
qed

lemma write_turn:
  fixes amt off :: u64 and s' :: stash and bs :: "byte list"
  defines "c \<equiv> min amt (PAGE_SIZE - off mod PAGE_SIZE)"
  assumes ok: "stash_ok s" and p: "write_page (off mod PAGE_SIZE) s = Inr s'" and off: "off = st_size s"
    and amt: "amt \<noteq> 0" and max: "unat (st_size s) + unat amt \<le> 10485760" and bs: "length bs = unat c"
  defines "s2 \<equiv> (fill_last (unat off mod 4096) bs s')\<lparr>st_size := st_size s' + c\<rparr>"
  shows "stash_ok s2" and "unat (st_size s2) = unat (st_size s) + unat c" and "st_count s2 = st_count s"
    and "tight s \<Longrightarrow> tight s2 \<and> contents s2 = contents s @ bs"
proof -
  let ?r = "unat off mod 4096" and ?q = "unat off div 4096"
  have c: "unat c = min (unat amt) (4096 - ?r)" unfolding c_def by (rule unat_chunk)
  have c0: "0 < unat c" using chunk_pos [OF amt, of off] by (simp add: c_def unat_gt_0)
  have "?r < 4096" by simp
  then have rb: "?r + length bs \<le> 4096" using bs c by linarith
  from write_page_ok [OF ok p off] obtain ini pg where ip: "st_crashstash s' = ini @ [pg]"
    "length pg = 4096" "list_all (\<lambda>p. length p = 4096) ini" "?q \<le> length ini"
    "st_size s' = st_size s" "st_count s' = st_count s"
    and t: "tight s \<Longrightarrow> length ini = ?q \<and> contents s = concat ini @ take ?r pg" by blast
  have sz: "unat (st_size s + c) = unat (st_size s) + unat c"
    using max c by (subst unat_add_lem [THEN iffD1]) auto
  show 2: "unat (st_size s2) = unat (st_size s) + unat c" using sz ip(5) by (simp add: s2_def fill_last_def)
  have pf: "pages_for (unat off + unat c) = ?q + 1"
    by (rule pages_for_add(1) [OF refl c0]) (use c in simp)
  have le: "st_size s + c \<le> MAXSIZE" using sz max c by (simp add: word_le_nat_alt)
  show "stash_ok s2"
    using stash_ok_fill [OF ok p off rb] 2 pf ip le off
    by (auto simp: stash_ok_def s2_def fill_last_def sz)
  show "st_count s2 = st_count s" using ip(6) by (simp add: s2_def fill_last_def)
  show "tight s2 \<and> contents s2 = contents s @ bs" if "tight s"
  proof -
    have l: "length ini = ?q" "contents s = concat ini @ take ?r pg" using t [OF that] by auto
    have li: "length (concat ini) = 4096 * ?q" using length_concat_pages [OF ip(3)] l(1) by simp
    have cr: "st_crashstash s2 = ini @ [patch_page pg ?r bs]" using ip(1) by (simp add: s2_def fill_last_def)
    have "unat off + unat c - 4096 * ?q = ?r + length bs" using bs by (metis Nat.add_diff_assoc2
        diff_add_inverse2 minus_mult_div_eq_mod mult_div_mod_eq le_add1)
    then have "contents s2 = concat ini @ take (?r + length bs) (patch_page pg ?r bs)"
      using 2 off by (simp add: contents_def cr li)
    also have "take (?r + length bs) (patch_page pg ?r bs) = take ?r pg @ bs"
      using ip(2) rb by (simp add: patch_page_def)
    finally show ?thesis
      using l pf 2 off cr by (simp add: tight_def)
  qed
qed

section \<open>The write loop\<close>

lemma write_page_error:
  assumes "stash_ok s" and "write_page (off mod PAGE_SIZE) s = Inl e" and "off = st_size s"
  shows "e = Null_page \<and> st_free s = []"
proof (cases "off mod PAGE_SIZE = 0")
  case False
  then have "unat off mod 4096 \<noteq> 0" using page_offset_0 by blast
  then show ?thesis
    using assms
    by (auto simp: write_page_def add_page_def stash_ok_def pages_for_eq split: if_splits list.splits)
qed (use assms(2) in \<open>auto simp: write_page_def add_page_def split: list.splits\<close>)

lemma copies_length:
  assumes "copies env"
  shows "copy_from env u n = Inl bs \<Longrightarrow> length bs = n" and "copy_from env u n = Inr bs \<Longrightarrow> length bs = n"
proof -
  have "case copy_from env u n of Inl bs \<Rightarrow> length bs = n | Inr bs \<Rightarrow> length bs = n"
    using assms by (simp add: copies_def)
  then show "copy_from env u n = Inl bs \<Longrightarrow> length bs = n" "copy_from env u n = Inr bs \<Longrightarrow> length bs = n"
    by simp_all
qed

lemma write_page_free:
  "write_page pgoff s = Inr s' \<Longrightarrow>
    length (st_free s) = length (st_free s') + (if pgoff = 0 then 1 else 0)"
  by (auto simp: write_page_def add_page_def split: if_splits list.splits)

text \<open>
  Whatever the user's buffer, a write keeps the invariant, or the allocator has fewer
  pages left than the amount fills.
\<close>

lemma write_loop_safe:
  assumes "stash_ok s" and "off = st_size s" and "unat (st_size s) + unat amt \<le> 10485760"
    and "copies env"
  shows "case write_loop env amt data off w s of
      Inl e \<Rightarrow> e = Null_page \<and> 4096 * length (st_free s) < unat amt
    | Inr (w', off', s') \<Rightarrow> stash_ok s' \<and> off' = st_size s' \<and> st_count s' = st_count s \<and>
        unat (st_size s) \<le> unat (st_size s') \<and>
        (w' = - EFAULT \<or>
         w' = w + int (unat amt) \<and> unat (st_size s') = unat (st_size s) + unat amt)"
  using assms
proof (induction env amt data off w s rule: write_loop.induct)
  case (1 env amt data off w s)
  let ?c = "min amt (PAGE_SIZE - off mod PAGE_SIZE)"
  show ?case
  proof (cases "amt = 0")
    case True
    then show ?thesis using "1.prems" by (simp add: write_loop.simps)
  next
    case False
    show ?thesis
    proof (cases "write_page (off mod PAGE_SIZE) s")
      case (Inl e)
      then show ?thesis
        using write_page_error [OF "1.prems"(1) Inl "1.prems"(2)] False
        by (simp add: write_loop.simps [of env amt] unat_gt_0)
    next
      case (Inr s1)
      show ?thesis
      proof (cases "copy_from env data (unat ?c)")
        case (Inl bs)
        have "length bs = unat ?c" by (rule copies_length(1) [OF "1.prems"(4) Inl])
        moreover have "unat off mod 4096 < 4096" by simp
        ultimately have "unat off mod 4096 + length bs \<le> 4096" unfolding unat_chunk by linarith
        then have "stash_ok (fill_last (unat off mod 4096) bs s1)"
          by (rule stash_ok_fill [OF "1.prems"(1) Inr "1.prems"(2)])
        moreover have "st_size s1 = st_size s \<and> st_count s1 = st_count s"
          using write_page_ok [OF "1.prems"(1) Inr "1.prems"(2)] by auto
        ultimately show ?thesis
          using False Inr Inl "1.prems"(2)
          by (simp add: write_loop.simps [of env amt] Let_def unat_page_offset fill_last_def)
      next
        case c: (Inr bs)
        have bs: "length bs = unat ?c" by (rule copies_length(2) [OF "1.prems"(4) c])
        let ?s2 = "(fill_last (unat off mod 4096) bs s1)\<lparr>st_size := st_size s1 + ?c\<rparr>"
        note t = write_turn [OF "1.prems"(1) Inr "1.prems"(2) False "1.prems"(3) bs]
        have s1: "st_size s1 = st_size s"
          using write_page_ok [OF "1.prems"(1) Inr "1.prems"(2)] by auto
        have ca: "?c \<le> amt" by simp
        then have ua: "unat (amt - ?c) = unat amt - unat ?c" by (rule unat_sub)
        have le: "unat ?c \<le> unat amt" using ca by (simp add: word_le_nat_alt)
        have IH: "case write_loop env (amt - ?c) (data + unat ?c) (off + ?c) (w + int (unat ?c)) ?s2 of
            Inl e \<Rightarrow> e = Null_page \<and> 4096 * length (st_free ?s2) < unat (amt - ?c)
          | Inr (w', off', s') \<Rightarrow> stash_ok s' \<and> off' = st_size s' \<and> st_count s' = st_count ?s2 \<and>
              unat (st_size ?s2) \<le> unat (st_size s') \<and>
              (w' = - EFAULT \<or> w' = w + int (unat ?c) + int (unat (amt - ?c)) \<and>
               unat (st_size s') = unat (st_size ?s2) + unat (amt - ?c))"
        proof (rule "1.IH" [OF False refl refl Inr, unfolded unat_page_offset])
          show "copy_from env data (unat ?c) = Inr bs" by (rule c)
          show "stash_ok ?s2" by (rule t(1))
          show "off + ?c = st_size ?s2" using "1.prems"(2) s1 by (simp add: fill_last_def)
          show "unat (st_size ?s2) + unat (amt - ?c) \<le> 10485760"
            using t(2) ua le "1.prems"(3) by linarith
        qed (rule "1.prems"(4))
        have st: "write_loop env amt data off w s =
            write_loop env (amt - ?c) (data + unat ?c) (off + ?c) (w + int (unat ?c)) ?s2"
          using False Inr c
          by (subst write_loop.simps) (simp add: Let_def unat_page_offset)
        have free: "4096 * length (st_free s) < unat amt"
          if "4096 * length (st_free ?s2) < unat (amt - ?c)"
        proof -
          have "4096 * length (st_free s1) + unat ?c < unat amt"
            using that ua by (simp add: fill_last_def)
          moreover have "unat ?c = 4096" if "off mod PAGE_SIZE = 0" "unat ?c < unat amt"
            using that page_offset_0 [of off] unfolding unat_chunk by simp
          ultimately show ?thesis
            using write_page_free [OF Inr] by (auto split: if_splits)
        qed
        show ?thesis
          unfolding st using IH t(2,3) ua le free by (auto split: sum.split_asm)
      qed
    qed
  qed
qed

text \<open>A user buffer that holds \<open>bs\<close> at \<open>data\<close> and can be read in any pieces.\<close>

definition readable :: "user_env \<Rightarrow> nat \<Rightarrow> byte list \<Rightarrow> bool" where
  "readable env data bs \<longleftrightarrow> (\<forall>k n. k + n \<le> length bs \<longrightarrow>
     copy_from env (data + k) n = Inr (take n (drop k bs)))"

lemma readable_drop: "readable env data bs \<Longrightarrow> c \<le> length bs \<Longrightarrow> readable env (data + c) (drop c bs)"
proof -
  assume r: "readable env data bs" and c: "c \<le> length bs"
  have "copy_from env (data + c + k) n = Inr (take n (drop k (drop c bs)))"
    if "k + n \<le> length (drop c bs)" for k n
  proof -
    have "copy_from env (data + (c + k)) n = Inr (take n (drop (c + k) bs))"
      using r that c by (simp add: readable_def)
    then show ?thesis by (simp add: add.assoc add.commute [of c k])
  qed
  then show ?thesis by (simp add: readable_def)
qed

lemma readable_take: "readable env data bs \<Longrightarrow> readable env data (take c bs)"
  unfolding readable_def by (auto simp: take_drop min_def)

lemma write_page_enough:
  assumes ok: "stash_ok s" and off: "off = st_size s" and t: "tight s"
    and amt: "amt \<noteq> 0" and n: "pages_for (unat off + unat amt) \<le> pages_for (unat off) + length (st_free s)"
    and max: "unat off + unat (amt :: u64) < 2 ^ 64"
  shows "\<exists>s'. write_page (off mod PAGE_SIZE) s = Inr s' \<and>
    (let c = min amt (PAGE_SIZE - off mod PAGE_SIZE) in
     pages_for (unat off + unat c) + length (st_free s') = pages_for (unat off) + length (st_free s))"
proof -
  let ?c = "min amt (PAGE_SIZE - off mod PAGE_SIZE)" and ?r = "unat off mod 4096"
  have c: "0 < unat ?c" "unat ?c \<le> 4096 - ?r" "unat ?c \<le> unat amt"
    using chunk_pos [OF amt, of off] by (simp_all add: unat_chunk unat_gt_0)
      (metis unat_chunk unat_gt_0 min_less_iff_conj)
  have pf: "pages_for (unat off + unat ?c) = unat off div 4096 + 1"
    "pages_for (unat off) = (if ?r = 0 then unat off div 4096 else unat off div 4096 + 1)"
    using pages_for_add [OF refl c(1,2)] by auto
  have mono: "pages_for (unat off + unat ?c) \<le> pages_for (unat off + unat amt)"
    unfolding pages_for_def using c(3) by (intro div_le_mono) simp
  show ?thesis
  proof (cases "?r = 0")
    case True
    then have "st_free s \<noteq> []" using mono n pf by auto
    then show ?thesis
      using True pf page_offset_0 [of off]
      by (cases "st_free s") (auto simp: write_page_def add_page_def Let_def)
  next
    case False
    then have "st_crashstash s \<noteq> []" using t off pf(2) by (auto simp: tight_def)
    then show ?thesis
      using False pf page_offset_0 [of off] by (auto simp: write_page_def Let_def)
  qed
qed

lemma write_loop_all:
  assumes "stash_ok s" and "off = st_size s" and "unat (st_size s) + unat amt \<le> 10485760"
    and "tight s" and "readable env data bs" and "unat amt = length bs"
    and "pages_for (unat off + unat amt) \<le> pages_for (unat off) + length (st_free s)"
  shows "\<exists>s'. write_loop env amt data off w s = Inr (w + int (length bs), off + amt, s') \<and>
    stash_ok s' \<and> tight s' \<and> contents s' = contents s @ bs \<and> st_count s' = st_count s"
  using assms
proof (induction env amt data off w s arbitrary: bs rule: write_loop.induct)
  case (1 env amt data off w s)
  let ?c = "min amt (PAGE_SIZE - off mod PAGE_SIZE)"
  show ?case
  proof (cases "amt = 0")
    case True
    then show ?thesis using "1.prems" by (simp add: write_loop.simps)
  next
    case False
    have "unat off + unat amt < 2 ^ 64" using "1.prems"(2,3) by simp
    from write_page_enough [OF "1.prems"(1,2,4) False "1.prems"(7) this] obtain s1 where
      s1: "write_page (off mod PAGE_SIZE) s = Inr s1"
      "pages_for (unat off + unat ?c) + length (st_free s1) = pages_for (unat off) + length (st_free s)"
      by (auto simp: Let_def)
    have ca: "?c \<le> amt" by simp
    then have ua: "unat (amt - ?c) = unat amt - unat ?c" by (rule unat_sub)
    have le: "unat ?c \<le> unat amt" using ca by (simp add: word_le_nat_alt)
    let ?n = "unat ?c"
    have c: "copy_from env data ?n = Inr (take ?n bs)"
      using "1.prems"(5,6) le unfolding readable_def by (metis add_0 drop0 add_0_right)
    have lb: "length (take ?n bs) = ?n" using le "1.prems"(6) by simp
    let ?s2 = "(fill_last (unat off mod 4096) (take ?n bs) s1)\<lparr>st_size := st_size s1 + ?c\<rparr>"
    note t = write_turn [OF "1.prems"(1) s1(1) "1.prems"(2) False "1.prems"(3) lb]
    have s2: "st_size s1 = st_size s"
      using write_page_ok [OF "1.prems"(1) s1(1) "1.prems"(2)] by auto
    have off2: "off + ?c = st_size ?s2" using "1.prems"(2) s2 by (simp add: fill_last_def)
    have uo: "unat (off + ?c) = unat off + ?n" using off2 t(2) "1.prems"(2) by simp
    have "\<exists>s'. write_loop env (amt - ?c) (data + ?n) (off + ?c) (w + int ?n) ?s2 =
        Inr (w + int ?n + int (length (drop ?n bs)), off + ?c + (amt - ?c), s') \<and>
      stash_ok s' \<and> tight s' \<and> contents s' = contents ?s2 @ drop ?n bs \<and> st_count s' = st_count ?s2"
    proof (rule "1.IH" [OF False refl refl s1(1), unfolded unat_page_offset])
      show "copy_from env data ?n = Inr (take ?n bs)" by (rule c)
      show "stash_ok ?s2" "tight ?s2" using t(1) t(4) [OF "1.prems"(4)] by auto
      show "off + ?c = st_size ?s2" by (rule off2)
      show "unat (st_size ?s2) + unat (amt - ?c) \<le> 10485760" using t(2) ua le "1.prems"(3) by linarith
      show "readable env (data + ?n) (drop ?n bs)"
        by (rule readable_drop [OF "1.prems"(5)]) (use le "1.prems"(6) in simp)
      show "unat (amt - ?c) = length (drop ?n bs)" using ua "1.prems"(6) by simp
      show "pages_for (unat (off + ?c) + unat (amt - ?c)) \<le>
          pages_for (unat (off + ?c)) + length (st_free ?s2)"
        using s1(2) uo ua le "1.prems"(7) by (simp add: fill_last_def)
    qed
    moreover have "write_loop env amt data off w s =
        write_loop env (amt - ?c) (data + ?n) (off + ?c) (w + int ?n) ?s2"
      using False s1(1) c by (subst write_loop.simps) (simp add: Let_def unat_page_offset)
    moreover have "int ?n + int (length (drop ?n bs)) = int (length bs)"
      using le "1.prems"(6) by simp
    ultimately show ?thesis using t(3) t(4) [OF "1.prems"(4)] by (auto simp: add.assoc)
  qed
qed

section \<open>The read loop\<close>

lemma read_chunk:
  assumes "list_all (\<lambda>p. length p = 4096) (pg # pgs)" and "r + n \<le> 4096"
  shows "take (n + m) (drop r (concat (pg # pgs))) =
    take n (drop r pg) @ take m (drop (r + n) (concat (pg # pgs)))"
proof -
  have "take (n + m) (drop r (concat (pg # pgs))) =
      take n (drop r (concat (pg # pgs))) @ take m (drop n (drop r (concat (pg # pgs))))"
    by (simp only: take_add)
  moreover have "take n (drop r (concat (pg # pgs))) = take n (drop r pg)"
    using assms by simp
  moreover have "drop n (drop r (concat (pg # pgs))) = drop (r + n) (concat (pg # pgs))"
    by (simp only: drop_drop add.commute)
  ultimately show ?thesis by (simp only:)
qed

text \<open>
  A read of \<open>n\<close> bytes from \<open>off\<close> copies page by page: \<open>page_start\<close> are the distances
  from \<open>off\<close> at which a copy begins, and \<open>page_fails\<close> says that the copy beginning
  there cannot be written to the user's buffer at \<open>data\<close>.
\<close>

definition page_start :: "nat \<Rightarrow> nat \<Rightarrow> bool" where
  "page_start off j \<longleftrightarrow> j = 0 \<or> (off + j) mod 4096 = 0"

definition page_fails :: "user_env \<Rightarrow> nat \<Rightarrow> nat \<Rightarrow> nat \<Rightarrow> nat \<Rightarrow> bool" where
  "page_fails env data off n j \<longleftrightarrow>
     \<not> copy_to_ok env (data + j) (min (n - j) (4096 - (off + j) mod 4096))"

lemma page_fails_shift:
  "page_fails env (data + c) (off + c) (n - c) j \<longleftrightarrow> page_fails env data off n (c + j)"
  by (simp add: page_fails_def add.assoc)

text \<open>The first copy, then the others: no copy begins inside the first one.\<close>

lemma page_start_shift:
  assumes "c = min n (4096 - off mod 4096)" and "c + j < n"
  shows "page_start (off + c) j \<longleftrightarrow> page_start off (c + j)"
proof -
  have full: "off mod 4096 + c = 4096" "0 < c" using assms mod_less_divisor [of 4096 off] by auto
  have "off + c = 4096 * (off div 4096) + (off mod 4096 + c)" by simp
  then have "off + c = 4096 * (off div 4096 + 1)" unfolding full(1) by simp
  then show ?thesis using full(2) by (auto simp: page_start_def add.assoc [symmetric])
qed

lemma page_start_inside:
  assumes "c \<le> 4096 - off mod 4096" and "page_start off j" and "j < c"
  shows "j = 0"
proof (rule ccontr)
  assume "j \<noteq> 0"
  moreover have "(off + j) mod 4096 = off mod 4096 + j"
    using assms(1,3) by (subst mod_add_left_eq [symmetric]) simp
  ultimately show False using assms(2) by (simp add: page_start_def)
qed

lemma first_fault_shift:
  assumes c: "c = min n (4096 - off mod 4096)" and ok: "\<not> page_fails env data off n 0"
    and k: "k \<le> n - c" "k < n - c \<longrightarrow> page_start (off + c) k \<and> page_fails env (data + c) (off + c) (n - c) k"
    and before: "\<forall>j<k. page_start (off + c) j \<longrightarrow> \<not> page_fails env (data + c) (off + c) (n - c) j"
  shows "c + k < n \<longrightarrow> page_start off (c + k) \<and> page_fails env data off n (c + k)"
    and "\<forall>j<c + k. page_start off j \<longrightarrow> \<not> page_fails env data off n j"
proof -
  show "c + k < n \<longrightarrow> page_start off (c + k) \<and> page_fails env data off n (c + k)"
    using k(2) page_start_shift [OF c, of k] page_fails_shift by auto
  show "\<forall>j<c + k. page_start off j \<longrightarrow> \<not> page_fails env data off n j"
  proof (intro allI impI)
    fix j assume j: "j < c + k" "page_start off j"
    show "\<not> page_fails env data off n j"
    proof (cases "j < c")
      case True
      with page_start_inside [OF _ j(2) True] c ok show ?thesis by simp
    next
      case False
      then obtain i where "j = c + i" using le_Suc_ex not_less by blast
      with j before k(1) page_start_shift [OF c, of i] page_fails_shift show ?thesis by auto
    qed
  qed
qed

text \<open>
  Reads behind \<open>off\<close> never leave the pages, and deliver the bytes from there up to the
  first copy that fails.
\<close>

lemma read_loop_slice:
  assumes "list_all (\<lambda>p. length p = 4096) pgs"
    and "unat off mod 4096 + unat amt \<le> 4096 * length pgs"
    and "unat off + unat amt < 2 ^ 64"
  shows "\<exists>k. read_loop env amt data off w out pgs = Inr (if k = unat amt then w + int k else - EFAULT,
      off + of_nat k, out @ take k (drop (unat off mod 4096) (concat pgs))) \<and> k \<le> unat amt \<and>
    (k < unat amt \<longrightarrow> page_start (unat off) k \<and> page_fails env data (unat off) (unat amt) k) \<and>
    (\<forall>j<k. page_start (unat off) j \<longrightarrow> \<not> page_fails env data (unat off) (unat amt) j)"
  using assms
proof (induction env amt data off w out pgs rule: read_loop.induct)
  case (1 env amt data off w out pgs)
  let ?c = "min amt (PAGE_SIZE - off mod PAGE_SIZE)" and ?r = "unat off mod 4096"
  let ?n = "unat ?c"
  show ?case
  proof (cases "amt = 0")
    case True
    then show ?thesis by (intro exI [of _ 0]) (simp add: read_loop.simps)
  next
    case False
    then have "0 < unat amt" by (simp add: unat_gt_0)
    with "1.prems"(2) obtain pg pgs' where p: "pgs = pg # pgs'" by (cases pgs) auto
    have c: "?n = min (unat amt) (4096 - ?r)" by (rule unat_chunk)
    have n: "0 < ?n" "?n \<le> unat amt" "?r + ?n \<le> 4096"
    proof -
      have "?r < 4096" by simp
      then show "0 < ?n" "?n \<le> unat amt" "?r + ?n \<le> 4096" using c \<open>0 < unat amt\<close> by linarith+
    qed
    show ?thesis
    proof (cases "copy_to_ok env data ?n")
      case False
      then have "read_loop env amt data off w out pgs = Inr (- EFAULT, off, out)"
        using \<open>amt \<noteq> 0\<close> p by (subst read_loop.simps) (simp add: Let_def)
      moreover have "page_fails env data (unat off) (unat amt) 0"
        using False unfolding page_fails_def c by simp
      ultimately show ?thesis
        using \<open>0 < unat amt\<close> by (intro exI [of _ 0]) (auto simp: page_start_def)
    next
      case True
      have ok: "\<not> page_fails env data (unat off) (unat amt) 0"
        using True unfolding page_fails_def c by simp
      have ua: "unat (amt - ?c) = unat amt - ?n" by (rule unat_sub) simp
      have uo: "unat (off + ?c) = unat off + ?n"
        using n(2) "1.prems"(3) by (subst unat_add_lem [THEN iffD1]) auto
      let ?out = "out @ take ?n (drop ?r pg)"
      have st: "read_loop env amt data off w out pgs =
          read_loop env (amt - ?c) (data + ?n) (off + ?c) (w + int ?n) ?out pgs'"
        using \<open>amt \<noteq> 0\<close> p True by (subst read_loop.simps) (simp add: Let_def unat_page_offset)
      have next_slice: "take k (drop (unat (off + ?c) mod 4096) (concat pgs')) =
          take k (drop (?r + ?n) (concat pgs))" and fits:
          "unat (off + ?c) mod 4096 + unat (amt - ?c) \<le> 4096 * length pgs'"
        if "amt - ?c \<noteq> 0" for k
      proof -
        have "?n < unat amt" using that ua n(2) by (metis diff_is_0_eq unat_eq_0 not_le)
        then have full: "?r + ?n = 4096" using c mod_less_divisor [of 4096 "unat off"] by linarith
        have "unat off + ?n = 4096 * (unat off div 4096) + (?r + ?n)" by simp
        then have "unat (off + ?c) = 4096 * (unat off div 4096 + 1)" unfolding full uo by simp
        then have m: "unat (off + ?c) mod 4096 = 0" by simp
        show "take k (drop (unat (off + ?c) mod 4096) (concat pgs')) = take k (drop (?r + ?n) (concat pgs))"
          using m full p "1.prems"(1) by simp
        show "unat (off + ?c) mod 4096 + unat (amt - ?c) \<le> 4096 * length pgs'"
        proof -
          have "unat amt - ?n = ?r + unat amt - (?r + ?n)" by simp
          also have "\<dots> \<le> 4096 * length pgs'" unfolding full using "1.prems"(2) p by simp
          finally show ?thesis using m ua by simp
        qed
      qed
      show ?thesis
      proof (cases "amt - ?c = 0")
        case rest: True
        then have eq: "?n = unat amt" using ua n(2) by (metis diff_is_0_eq le_antisym unat_0)
        moreover have "?c = amt" using eq by (simp only: word_unat_eq_iff)
        moreover have "read_loop env amt data off w out pgs = Inr (w + int ?n, off + ?c, ?out)"
          unfolding st using rest by (simp add: read_loop.simps)
        moreover have "take ?n (drop ?r pg) = take ?n (drop ?r (concat pgs))"
          using p "1.prems"(1) n(3) by simp
        moreover have "\<not> page_fails env data (unat off) (unat amt) j"
          if "j < ?n" "page_start (unat off) j" for j
          using page_start_inside [OF _ that(2,1)] ok c by simp
        ultimately show ?thesis by (intro exI [of _ ?n]) simp
      next
        case rest: False
        have "\<exists>k. read_loop env (amt - ?c) (data + ?n) (off + ?c) (w + int ?n) ?out pgs' =
            Inr (if k = unat (amt - ?c) then w + int ?n + int k else - EFAULT,
              off + ?c + of_nat k, ?out @ take k (drop (unat (off + ?c) mod 4096) (concat pgs'))) \<and>
            k \<le> unat (amt - ?c) \<and>
            (k < unat (amt - ?c) \<longrightarrow> page_start (unat (off + ?c)) k \<and>
              page_fails env (data + ?n) (unat (off + ?c)) (unat (amt - ?c)) k) \<and>
            (\<forall>j<k. page_start (unat (off + ?c)) j \<longrightarrow>
              \<not> page_fails env (data + ?n) (unat (off + ?c)) (unat (amt - ?c)) j)"
        proof (rule "1.IH" [OF \<open>amt \<noteq> 0\<close> refl refl p, unfolded unat_page_offset])
          show "\<not> \<not> copy_to_ok env data ?n" using True by simp
          show "list_all (\<lambda>p. length p = 4096) pgs'" using "1.prems"(1) p by simp
          show "unat (off + ?c) mod 4096 + unat (amt - ?c) \<le> 4096 * length pgs'"
            by (rule fits [OF rest])
          show "unat (off + ?c) + unat (amt - ?c) < 2 ^ 64" using ua uo n(2) "1.prems"(3) by linarith
        qed
        then obtain k where k: "read_loop env (amt - ?c) (data + ?n) (off + ?c) (w + int ?n) ?out pgs' =
            Inr (if k = unat (amt - ?c) then w + int ?n + int k else - EFAULT,
              off + ?c + of_nat k, ?out @ take k (drop (?r + ?n) (concat pgs)))"
          "k \<le> unat (amt - ?c)"
          "k < unat (amt - ?c) \<longrightarrow> page_start (unat (off + ?c)) k \<and>
            page_fails env (data + ?n) (unat (off + ?c)) (unat (amt - ?c)) k"
          "\<forall>j<k. page_start (unat (off + ?c)) j \<longrightarrow>
            \<not> page_fails env (data + ?n) (unat (off + ?c)) (unat (amt - ?c)) j"
          unfolding next_slice [OF rest] by blast
        note faults = first_fault_shift [OF c ok k(2-4) [unfolded ua uo]]
        have "take (?n + k) (drop ?r (concat pgs)) =
            take ?n (drop ?r pg) @ take k (drop (?r + ?n) (concat pgs))"
          using read_chunk [of pg pgs' ?r ?n k] "1.prems"(1) n(3) p by simp
        moreover have "?n + k \<le> unat amt" using k(2) ua n(2) by linarith
        moreover have e: "k = unat (amt - ?c) \<longleftrightarrow> ?n + k = unat amt" using ua n(2) by linarith
        moreover have "w + int ?n + int k = w + int (?n + k)" by simp
        moreover have "off + ?c + of_nat k = off + of_nat (?n + k)" by (simp add: add.assoc)
        ultimately show ?thesis
          unfolding st using k(1) faults unfolding e
          by (intro exI [of _ "?n + k"] conjI) (simp_all only: append_assoc)
      qed
    qed
  qed
qed

end
