(* ===== verification/CrashstashProps.thy ===== *)
theory CrashstashProps
  imports Crashstash
begin

text \<open>
  The crashstash as a system: the handlers called on open files in any order, with
  an invariant of all reachable states, then what write, read and the vmcore script
  \<open>crashstash.py\<close> do with the contents, and what faults and missing memory do.
\<close>

section \<open>The handlers on good states\<close>

lemma write_clamp:
  fixes amt :: u64
  assumes "st_size s \<le> MAXSIZE" and "unat amt < 2 ^ 63"
  defines "amt' \<equiv> if MAXSIZE < st_size s + amt then MAXSIZE - st_size s else amt"
  shows "unat amt' = min (unat amt) (10485760 - unat (st_size s))"
proof -
  have s: "unat (st_size s) \<le> 10485760" using assms(1) by (simp add: word_le_nat_alt)
  have sum: "unat (st_size s + amt) = unat (st_size s) + unat amt"
    using s assms(2) by (subst unat_add_lem [THEN iffD1]) auto
  have "unat (MAXSIZE - st_size s) = 10485760 - unat (st_size s)"
    using assms(1) by (subst unat_sub) auto
  then show ?thesis using sum s by (auto simp: amt'_def word_less_nat_alt min_def)
qed

lemma crashstash_write_safe:
  assumes ok: "stash_ok s" and c: "copies env" and amt: "unat amt < 2 ^ 63"
  shows "case crashstash_write env data amt off s of
      Inl e \<Rightarrow> e = Null_page \<and> 4096 * length (st_free s) < unat amt
    | Inr (rv, off', s') \<Rightarrow> stash_ok s' \<and> st_count s' = st_count s \<and> st_size s \<le> st_size s' \<and>
        (off = st_size s \<longrightarrow> off' = st_size s') \<and> (off \<noteq> st_size s \<longrightarrow> off' = off)"
proof (cases "off \<noteq> st_size s \<or> MAXSIZE \<le> st_size s")
  case True
  then show ?thesis using ok by (auto simp: crashstash_write_def)
next
  case False
  let ?amt = "if MAXSIZE < st_size s + amt then MAXSIZE - st_size s else amt"
  have "st_size s \<le> MAXSIZE" using ok by (simp add: stash_ok_def)
  note clamp = write_clamp [OF this amt]
  then have "unat (st_size s) + unat ?amt \<le> 10485760"
    using \<open>st_size s \<le> MAXSIZE\<close> by (simp add: word_le_nat_alt)
  from write_loop_safe [OF ok _ this c, where off = off and data = data and w = 0] False
  have "case write_loop env ?amt data off 0 s of
      Inl e \<Rightarrow> e = Null_page \<and> 4096 * length (st_free s) < unat ?amt
    | Inr (w', off', s') \<Rightarrow> stash_ok s' \<and> off' = st_size s' \<and> st_count s' = st_count s \<and>
        unat (st_size s) \<le> unat (st_size s') \<and>
        (w' = - EFAULT \<or> w' = 0 + int (unat ?amt) \<and> unat (st_size s') = unat (st_size s) + unat ?amt)"
    by blast
  moreover have "unat ?amt \<le> unat amt" unfolding clamp by simp
  ultimately show ?thesis
    using False
    by (auto simp: crashstash_write_def Let_def bindR_def stash_ok_def word_le_nat_alt
        split: sum.splits prod.splits)
qed

text \<open>A read within the file: no underflow of the clamped amount, no missing page.\<close>

lemma read_clamp:
  fixes amt :: u64
  assumes "off \<le> sz" and "sz \<le> MAXSIZE" and "unat amt < 2 ^ 63"
  defines "amt' \<equiv> if sz < off + amt then sz - off else amt"
  shows "unat amt' = min (unat amt) (unat sz - unat off)"
proof -
  have s: "unat off \<le> unat sz" "unat sz \<le> 10485760" using assms(1,2) by (simp_all add: word_le_nat_alt)
  have sum: "unat (off + amt) = unat off + unat amt"
    using s assms(3) by (subst unat_add_lem [THEN iffD1]) auto
  have "unat (sz - off) = unat sz - unat off" using assms(1) by (rule unat_sub)
  then show ?thesis using sum s by (auto simp: amt'_def word_less_nat_alt min_def)
qed

lemma pages_for_enough: "n \<le> 4096 * pages_for n"
proof -
  obtain q r where "n div 4096 = q" "n mod 4096 = r" "n = 4096 * q + r" "r < 4096"
    by (metis mult_div_mod_eq mod_less_divisor zero_less_numeral)
  then show ?thesis by (simp add: pages_for_eq)
qed

lemma crashstash_read_slice:
  assumes ok: "stash_ok s" and off: "off \<le> st_size s" and amt: "unat amt < 2 ^ 63"
  defines "n \<equiv> min (unat amt) (unat (st_size s) - unat off)"
  shows "\<exists>k. crashstash_read env data amt off s = Inr (if k = n then int k else - EFAULT,
      off + of_nat k, take k (drop (unat off) (contents s))) \<and> k \<le> n \<and>
    (k < n \<longrightarrow> page_start (unat off) k \<and> page_fails env data (unat off) n k) \<and>
    (\<forall>j<k. page_start (unat off) j \<longrightarrow> \<not> page_fails env data (unat off) n j)"
proof -
  let ?amt = "if st_size s < off + amt then st_size s - off else amt"
  let ?q = "unat off div 4096" and ?r = "unat off mod 4096" and ?pgs = "st_crashstash s"
  have le: "st_size s \<le> MAXSIZE" "unat off \<le> unat (st_size s)" "unat (st_size s) \<le> 10485760"
    using ok off by (simp_all add: stash_ok_def word_le_nat_alt)
  have a: "unat ?amt = n" unfolding n_def by (rule read_clamp [OF off le(1) amt])
  have on: "unat off + n \<le> unat (st_size s)" using le(2) by (simp add: n_def)
  have pl: "unat (st_size s) \<le> 4096 * length ?pgs"
    using pages_for_enough [of "unat (st_size s)"] ok by (simp add: stash_ok_def)
  have off_eq: "unat off = 4096 * ?q + ?r" by simp
  have fits: "?r + unat ?amt \<le> 4096 * length (drop ?q ?pgs)"
  proof -
    have "?r + n + 4096 * ?q \<le> 4096 * length ?pgs" using on pl by simp
    then have "?r + n \<le> 4096 * length ?pgs - 4096 * ?q" by (rule add_le_imp_le_diff)
    then show ?thesis unfolding a by (simp add: diff_mult_distrib2)
  qed
  have all: "list_all (\<lambda>p. length p = 4096) ?pgs" using ok by (simp add: stash_ok_def)
  then have all': "list_all (\<lambda>p. length p = 4096) (drop ?q ?pgs)"
    by (auto simp: list_all_iff dest: in_set_dropD)
  have lim: "unat off + unat ?amt < 2 ^ 64" using on le(3) a by simp
  from read_loop_slice [OF all' fits lim, where env = env and data = data and w = 0 and out = "[]"]
  obtain k where k: "read_loop env ?amt data off 0 [] (drop ?q ?pgs) =
      Inr (if k = unat ?amt then 0 + int k else - EFAULT, off + of_nat k,
        [] @ take k (drop ?r (concat (drop ?q ?pgs))))" "k \<le> unat ?amt"
    "k < unat ?amt \<longrightarrow> page_start (unat off) k \<and> page_fails env data (unat off) (unat ?amt) k"
    "\<forall>j<k. page_start (unat off) j \<longrightarrow> \<not> page_fails env data (unat off) (unat ?amt) j"
    by blast
  note k = k [unfolded a]
  have "drop ?r (concat (drop ?q ?pgs)) = drop ?r (drop (4096 * ?q) (concat ?pgs))"
    by (simp only: drop_concat_pages [OF all])
  also have "\<dots> = drop (unat off) (concat ?pgs)" by simp
  finally have "drop ?r (concat (drop ?q ?pgs)) = drop (unat off) (concat ?pgs)" .
  moreover have "take k (drop (unat off) (contents s)) = take k (drop (unat off) (concat ?pgs))"
    using k(2) on by (simp add: contents_def drop_take min_def)
  moreover have "crashstash_read env data amt off s = read_loop env ?amt data off 0 [] (drop ?q ?pgs)"
    by (simp add: crashstash_read_def unat_div Let_def)
  ultimately show ?thesis using k by (intro exI [of _ k]) simp
qed

corollary crashstash_read_all:
  assumes "stash_ok s" and "off \<le> st_size s" and "unat amt < 2 ^ 63" and "\<forall>u n. copy_to_ok env u n"
  defines "n \<equiv> min (unat amt) (unat (st_size s) - unat off)"
  shows "crashstash_read env data amt off s =
    Inr (int n, off + of_nat n, take n (drop (unat off) (contents s)))"
  using crashstash_read_slice [OF assms(1-3), where env = env and data = data] assms(4)
  by (auto simp: n_def page_fails_def nat_less_le)

section \<open>The module as a system\<close>

text \<open>
  The open files with their flags and offsets. The kernel's file layer calls \<open>write\<close>
  and \<open>read\<close> on files opened for it, and only with amounts a \<open>ssize_t\<close> can hold. It
  hands the handler a copy of the file's offset and stores it back only when the
  handler did not fail (\<open>f_pos_after\<close>). Seeking, and reads and writes at an offset of
  the caller's, are refused by the kernel: \<open>crashstash_open\<close> calls
  \<open>nonseekable_open\<close>.
\<close>

definition f_pos_after :: "int \<Rightarrow> u64 \<Rightarrow> u64 \<Rightarrow> u64" where
  "f_pos_after rv off off' = (if rv < 0 then off else off')"

record sys =
  sys_stash :: stash
  sys_files :: "(u32 \<times> u64) list"

definition sys_start :: "sys \<Rightarrow> bool" where
  "sys_start y \<longleftrightarrow> sys_files y = [] \<and> (\<exists>free. list_all (\<lambda>p. length p = 4096) free \<and>
     sys_stash y = \<lparr>st_count = 0, st_crashstash = [], st_size = 0, st_pages = 0, st_pde_size = 0,
       st_free = free\<rparr>)"

inductive sys_step :: "sys \<Rightarrow> sys \<Rightarrow> bool" where
  open_ok: "crashstash_open flags (sys_stash y) = (0, s') \<Longrightarrow>
    sys_step y (y\<lparr>sys_stash := s', sys_files := sys_files y @ [(flags, 0)]\<rparr>)"
| open_fail: "crashstash_open flags (sys_stash y) = (rv, s') \<Longrightarrow> rv \<noteq> 0 \<Longrightarrow>
    sys_step y (y\<lparr>sys_stash := s'\<rparr>)"
| do_write: "i < length (sys_files y) \<Longrightarrow> sys_files y ! i = (flags, off) \<Longrightarrow>
    flags AND O_ACCMODE = O_WRONLY \<Longrightarrow> copies env \<Longrightarrow> unat amt < 2 ^ 63 \<Longrightarrow>
    crashstash_write env data amt off (sys_stash y) = Inr (rv, off', s') \<Longrightarrow>
    sys_step y (y\<lparr>sys_stash := s', sys_files := (sys_files y)[i := (flags, f_pos_after rv off off')]\<rparr>)"
| do_read: "i < length (sys_files y) \<Longrightarrow> sys_files y ! i = (flags, off) \<Longrightarrow>
    flags AND O_ACCMODE = 0 \<Longrightarrow> unat amt < 2 ^ 63 \<Longrightarrow>
    crashstash_read env data amt off (sys_stash y) = Inr (rv, off', out) \<Longrightarrow>
    sys_step y (y\<lparr>sys_files := (sys_files y)[i := (flags, f_pos_after rv off off')]\<rparr>)"
| do_release: "i < length (sys_files y) \<Longrightarrow> crashstash_release (sys_stash y) = Inr (rv, s') \<Longrightarrow>
    sys_step y (y\<lparr>sys_stash := s', sys_files := take i (sys_files y) @ drop (Suc i) (sys_files y)\<rparr>)"

text \<open>
  At most one file is open, and no offset is beyond the size. A writer's offset is the
  size until a write fails after its first page; then it stays behind.
\<close>

definition sys_inv :: "sys \<Rightarrow> bool" where
  "sys_inv y \<longleftrightarrow> stash_ok (sys_stash y) \<and>
     st_count (sys_stash y) = int (length (sys_files y)) \<and> length (sys_files y) \<le> 1 \<and>
     list_all (\<lambda>(flags, off). off \<le> st_size (sys_stash y)) (sys_files y)"

lemma stash_ok_free: "stash_ok s \<Longrightarrow> stash_ok (crashstash_free s)"
  by (auto simp: stash_ok_def crashstash_free_def pages_for_eq)

lemma sys_inv_open:
  assumes "sys_inv y" and "crashstash_open flags (sys_stash y) = (rv, s')"
  shows "if rv = 0 then sys_inv (y\<lparr>sys_stash := s', sys_files := sys_files y @ [(flags, 0)]\<rparr>) \<and>
      sys_files y = [] else s' = sys_stash y"
  using assms stash_ok_free [of "sys_stash y"]
  by (auto simp: crashstash_open_def sys_inv_def stash_ok_def crashstash_free_def Let_def split: if_splits)

lemma single_file: "i < length fs \<Longrightarrow> length fs \<le> 1 \<Longrightarrow> fs ! i = x \<Longrightarrow> i = 0 \<and> fs = [x]"
  by (cases fs) auto

lemma sys_inv_write:
  assumes inv: "sys_inv y" and f: "i < length (sys_files y)" "sys_files y ! i = (flags, off)"
    and c: "copies env" "unat amt < 2 ^ 63"
    and w: "crashstash_write env data amt off (sys_stash y) = Inr (rv, off', s')"
  shows "sys_inv (y\<lparr>sys_stash := s', sys_files := (sys_files y)[i := (flags, f_pos_after rv off off')]\<rparr>)"
proof -
  from single_file [OF f(1) _ f(2)] inv have fs: "i = 0" "sys_files y = [(flags, off)]"
    by (auto simp: sys_inv_def)
  with inv have ok: "stash_ok (sys_stash y)" "off \<le> st_size (sys_stash y)" "st_count (sys_stash y) = 1"
    by (auto simp: sys_inv_def)
  from crashstash_write_safe [OF ok(1) c, where data = data and off = off] w
  have s': "stash_ok s'" "st_count s' = st_count (sys_stash y)" "st_size (sys_stash y) \<le> st_size s'"
    and "off = st_size (sys_stash y) \<longrightarrow> off' = st_size s'" "off \<noteq> st_size (sys_stash y) \<longrightarrow> off' = off"
    by auto
  then have "f_pos_after rv off off' \<le> st_size s'"
    using order_trans [OF ok(2) s'(3)] by (auto simp: f_pos_after_def)
  with fs s' ok(3) show ?thesis by (simp add: sys_inv_def)
qed

lemma sys_inv_read:
  assumes inv: "sys_inv y" and f: "i < length (sys_files y)" "sys_files y ! i = (flags, off)"
    and a: "unat amt < 2 ^ 63"
    and r: "crashstash_read env data amt off (sys_stash y) = Inr (rv, off', out)"
  shows "sys_inv (y\<lparr>sys_files := (sys_files y)[i := (flags, f_pos_after rv off off')]\<rparr>)"
proof -
  from single_file [OF f(1) _ f(2)] inv have fs: "i = 0" "sys_files y = [(flags, off)]"
    by (auto simp: sys_inv_def)
  with inv have ok: "stash_ok (sys_stash y)" "off \<le> st_size (sys_stash y)"
    by (auto simp: sys_inv_def)
  from crashstash_read_slice [OF ok a, where env = env and data = data] r obtain k where
    k: "off' = off + of_nat k" "k \<le> unat (st_size (sys_stash y)) - unat off" by auto
  have le: "unat off \<le> unat (st_size (sys_stash y))" using ok(2) by (simp add: word_le_nat_alt)
  have "unat (off + of_nat k) \<le> unat off + unat (of_nat k :: u64)"
    by (simp add: unat_word_ariths)
  moreover have "unat (of_nat k :: u64) \<le> k"
    by (simp add: unsigned_of_nat take_bit_eq_mod)
  ultimately have "unat (off + of_nat k) \<le> unat off + k" by linarith
  with k le have "off' \<le> st_size (sys_stash y)" by (simp add: word_le_nat_alt)
  with ok(2) have "f_pos_after rv off off' \<le> st_size (sys_stash y)" by (simp add: f_pos_after_def)
  with fs inv show ?thesis by (simp add: sys_inv_def)
qed

lemma sys_inv_step:
  assumes "sys_inv y" and "sys_step y z"
  shows "sys_inv z"
  using assms(2)
proof cases
  case (open_ok flags s')
  then show ?thesis using sys_inv_open [OF assms(1)] by fastforce
next
  case (open_fail flags rv s')
  then show ?thesis using sys_inv_open [OF assms(1)] assms(1) by fastforce
next
  case (do_write i flags off env amt data rv off' s')
  then show ?thesis using sys_inv_write [OF assms(1)] by blast
next
  case (do_read i flags off amt env data rv off' out)
  then show ?thesis using sys_inv_read [OF assms(1)] by blast
next
  case (do_release i rv s')
  from do_release(2) assms(1) obtain f where "i = 0" "sys_files y = [f]"
    by (cases "sys_files y") (auto simp: sys_inv_def)
  with do_release assms(1) show ?thesis
    by (auto simp: crashstash_release_def sys_inv_def stash_ok_def split: if_splits)
qed

interpretation crashstash: invariant_system sys_start sys_step sys_inv
proof
  show "sys_inv y" if "sys_start y" for y
    using that by (auto simp: sys_start_def sys_inv_def stash_ok_def pages_for_eq)
qed (rule sys_inv_step)

section \<open>What a write stores\<close>

lemma crashstash_write_all:
  assumes ok: "stash_ok s" and t: "tight s" and off: "off = st_size s" and lt: "st_size s < MAXSIZE"
    and r: "readable env data bs" and amt: "unat amt = length bs" "length bs < 2 ^ 63"
  defines "n \<equiv> min (length bs) (10485760 - unat (st_size s))"
  assumes mem: "pages_for (unat off + n) \<le> pages_for (unat off) + length (st_free s)"
  shows "\<exists>s'. crashstash_write env data amt off s = Inr (int n, off + of_nat n, s') \<and>
    stash_ok s' \<and> tight s' \<and> contents s' = contents s @ take n bs \<and> st_count s' = st_count s"
proof -
  let ?amt = "if MAXSIZE < st_size s + amt then MAXSIZE - st_size s else amt"
  have le: "st_size s \<le> MAXSIZE" using ok by (simp add: stash_ok_def)
  have a: "unat ?amt = n" using write_clamp [OF le, of amt] amt by (simp add: n_def)
  have max: "unat (st_size s) + unat ?amt \<le> 10485760"
    unfolding a using le by (simp add: n_def word_le_nat_alt)
  have ln: "unat ?amt = length (take n bs)" unfolding a by (simp add: n_def)
  from write_loop_all [OF ok off max t readable_take [OF r] ln mem [folded a], where w = 0]
  obtain s' where s': "write_loop env ?amt data off 0 s = Inr (0 + int (length (take n bs)), off + ?amt, s')"
    "stash_ok s'" "tight s'" "contents s' = contents s @ take n bs" "st_count s' = st_count s"
    by blast
  have "of_nat (unat ?amt) = ?amt" by simp
  then have "?amt = of_nat n" by (simp only: a)
  then have "crashstash_write env data amt off s =
      Inr (int n, off + of_nat n, s'\<lparr>st_pde_size := st_size s'\<rparr>)"
    using s'(1) off lt ln a by (simp add: crashstash_write_def)
  then show ?thesis using s'(2-5) by (simp add: stash_ok_def tight_def contents_def)
qed

section \<open>The vmcore script (crashstash.py, lines 25 to 43)\<close>

fun dump_pages :: "page list \<Rightarrow> nat \<Rightarrow> byte list" where
  "dump_pages [] n = []"
| "dump_pages (p # ps) n = (let chunksz = min 4096 n in take chunksz p @ dump_pages ps (n - chunksz))"

text \<open>\<open>None\<close> is the exception \<open>Inconsistent metadata for crashstash size\<close>.\<close>

definition get_crashstash :: "stash \<Rightarrow> byte list option" where
  "get_crashstash s =
     (if length (st_crashstash s) \<noteq> unat (st_pages s) \<or> unat (st_pages s) \<noteq> pages_for (unat (st_size s))
      then None else Some (dump_pages (st_crashstash s) (unat (st_size s))))"

lemma dump_pages_take: "list_all (\<lambda>p. length p = 4096) ps \<Longrightarrow> dump_pages ps n = take n (concat ps)"
proof (induction ps arbitrary: n)
  case (Cons p ps)
  then show ?case by (cases "n \<le> 4096") (auto simp: Let_def min_def)
qed simp

lemma stash_pages:
  "stash_ok s \<Longrightarrow> tight s \<Longrightarrow> unat (st_pages s) = length (st_crashstash s)"
proof -
  assume ok: "stash_ok s" and t: "tight s"
  have "unat (st_size s) \<le> 10485760" using ok by (simp add: stash_ok_def word_le_nat_alt)
  then have "pages_for (unat (st_size s)) \<le> 10489855 div 4096"
    unfolding pages_for_def by (intro div_le_mono) simp
  then have "length (st_crashstash s) < 2 ^ 64" using t by (simp add: tight_def)
  then show ?thesis using ok by (simp add: stash_ok_def unsigned_of_nat take_bit_nat_eq_self)
qed

lemma get_crashstash_contents: "stash_ok s \<Longrightarrow> tight s \<Longrightarrow> get_crashstash s = Some (contents s)"
  using stash_pages [of s]
  by (simp add: get_crashstash_def tight_def contents_def dump_pages_take stash_ok_def)

section \<open>Properties\<close>

text \<open>
  C11: In every reachable state, whatever programs do with the file in whatever order
  and with whatever buffers, at most one file is open, the stash stays within its
  limit, releasing it and reading it never crash, and a write crashes only on the
  page of an \<open>alloc_page\<close> that returned NULL, which \<open>crashstash_write\<close> does not check:
  no \<open>BUG_ON\<close> fires, and it happens only when the allocator has fewer pages left than
  the amount to be written fills.
\<close>

theorem crashstash_safe:
  assumes "sys_start x" and "sys_step\<^sup>*\<^sup>* x y"
  shows "length (sys_files y) \<le> 1 \<and> st_size (sys_stash y) \<le> MAXSIZE \<and>
    (\<forall>(flags, off) \<in> set (sys_files y). \<forall>env data amt. copies env \<and> unat amt < 2 ^ 63 \<longrightarrow>
       (\<exists>r. crashstash_release (sys_stash y) = Inr r) \<and>
       (\<exists>r. crashstash_read env data amt off (sys_stash y) = Inr r) \<and>
       (\<forall>e. crashstash_write env data amt off (sys_stash y) = Inl e \<longrightarrow>
         e = Null_page \<and> 4096 * length (st_free (sys_stash y)) < unat amt))"
proof -
  have inv: "sys_inv y" by (rule crashstash.inv_reachable [OF assms])
  then have ok: "stash_ok (sys_stash y)" by (simp add: sys_inv_def)
  have "(\<exists>r. crashstash_release (sys_stash y) = Inr r) \<and>
      (\<exists>r. crashstash_read env data amt off (sys_stash y) = Inr r) \<and>
      (\<forall>e. crashstash_write env data amt off (sys_stash y) = Inl e \<longrightarrow>
         e = Null_page \<and> 4096 * length (st_free (sys_stash y)) < unat amt)"
    if f: "(flags, off) \<in> set (sys_files y)" and c: "copies env" "unat amt < 2 ^ 63"
    for flags off env data amt
  proof (intro conjI allI impI)
    have "st_count (sys_stash y) > 0" using inv f by (cases "sys_files y") (auto simp: sys_inv_def)
    then show "\<exists>r. crashstash_release (sys_stash y) = Inr r" by (simp add: crashstash_release_def)
    have "off \<le> st_size (sys_stash y)" using inv f by (auto simp: sys_inv_def list_all_iff)
    from crashstash_read_slice [OF ok this c(2), where env = env and data = data]
    show "\<exists>r. crashstash_read env data amt off (sys_stash y) = Inr r" by blast
    show "e = Null_page" "4096 * length (st_free (sys_stash y)) < unat amt" if "crashstash_write env data amt off (sys_stash y) = Inl e" for e
      using crashstash_write_safe [OF ok c, where data = data and off = off] that by simp_all
  qed
  then show ?thesis using inv ok by (auto simp: sys_inv_def stash_ok_def)
qed

definition ex_env :: "byte list \<Rightarrow> user_env" where
  "ex_env bs = \<lparr>copy_from = (\<lambda>u n. if u + n \<le> length bs then Inr (take n (drop u bs))
     else Inl (replicate n 0)), copy_to_ok = (\<lambda>u n. True)\<rparr>"

lemma ex_env_copies: "copies (ex_env bs)"
  by (simp add: copies_def ex_env_def)

lemma ex_env_readable: "readable (ex_env bs) 0 bs"
  by (simp add: readable_def ex_env_def)

definition ex_stash :: stash where
  "ex_stash = \<lparr>st_count = 0, st_crashstash = [], st_size = 0, st_pages = 0, st_pde_size = 0,
     st_free = [replicate 4096 0xAA, replicate 4096 0]\<rparr>"

lemma ex_stash_ok: "stash_ok ex_stash" "tight ex_stash"
  by (simp_all add: stash_ok_def tight_def ex_stash_def pages_for_eq)

theorem crashstash_safe_witness:
  "(\<exists>r. crashstash_read (ex_env [7]) 0 5 0 (ex_stash\<lparr>st_count := 1\<rparr>) = Inr r)"
proof -
  let ?x = "\<lparr>sys_stash = ex_stash, sys_files = []\<rparr>"
  let ?y = "\<lparr>sys_stash = ex_stash\<lparr>st_count := 1\<rparr>, sys_files = [(0, 0)]\<rparr>"
  have "sys_start ?x" by (auto simp: sys_start_def ex_stash_def)
  moreover have "crashstash_open 0 ex_stash = (0, ex_stash\<lparr>st_count := 1\<rparr>)"
    by (simp add: crashstash_open_def ex_stash_def)
  then have "sys_step ?x ?y" using sys_step.open_ok [of 0 ?x] by simp
  then have "sys_step\<^sup>*\<^sup>* ?x ?y" by (rule r_into_rtranclp)
  ultimately have "\<forall>(flags, off) \<in> set (sys_files ?y). \<forall>env data amt. copies env \<and> unat amt < 2 ^ 63 \<longrightarrow>
       (\<exists>r. crashstash_release (sys_stash ?y) = Inr r) \<and>
       (\<exists>r. crashstash_read env data amt off (sys_stash ?y) = Inr r) \<and>
       (\<forall>e. crashstash_write env data amt off (sys_stash ?y) = Inl e \<longrightarrow>
         e = Null_page \<and> 4096 * length (st_free (sys_stash ?y)) < unat amt)"
    using crashstash_safe by blast
  then show ?thesis using ex_env_copies by simp
qed

text \<open>
  C13: On a stash without a page left over from a faulted write (\<open>tight\<close>), a write at
  the end, from a buffer that can be read and with enough free pages for the bytes,
  appends the buffer's bytes up to the limit of ten megabytes, returns their number
  and moves the offset. Whatever the stash and the buffer, a write at the limit
  returns \<open>-ENOSPC\<close> and one elsewhere than at the end \<open>-EINVAL\<close>, with nothing changed.
\<close>

theorem crashstash_write_appends:
  shows "(off \<noteq> st_size s \<longrightarrow> crashstash_write env data amt off s = Inr (- EINVAL, off, s)) \<and>
    (off = st_size s \<and> MAXSIZE \<le> st_size s \<longrightarrow>
       crashstash_write env data amt off s = Inr (- ENOSPC, off, s)) \<and>
    (\<forall>bs n. off = st_size s \<and> st_size s < MAXSIZE \<and> stash_ok s \<and> tight s \<and>
       readable env data bs \<and> unat amt = length bs \<and> length bs < 2 ^ 63 \<and>
       n = min (length bs) (10485760 - unat (st_size s)) \<and>
       pages_for (unat (st_size s) + n) \<le> pages_for (unat (st_size s)) + length (st_free s) \<longrightarrow>
       (\<exists>s'. crashstash_write env data amt off s = Inr (int n, off + of_nat n, s') \<and>
          contents s' = contents s @ take n bs \<and> stash_ok s' \<and> tight s'))"
proof (intro conjI allI impI)
  show "crashstash_write env data amt off s = Inr (- EINVAL, off, s)" if "off \<noteq> st_size s"
    using that by (simp add: crashstash_write_def)
  show "crashstash_write env data amt off s = Inr (- ENOSPC, off, s)"
    if "off = st_size s \<and> MAXSIZE \<le> st_size s"
    using that by (simp add: crashstash_write_def)
  show "\<exists>s'. crashstash_write env data amt off s = Inr (int n, off + of_nat n, s') \<and>
      contents s' = contents s @ take n bs \<and> stash_ok s' \<and> tight s'"
    if *: "off = st_size s \<and> st_size s < MAXSIZE \<and> stash_ok s \<and> tight s \<and>
       readable env data bs \<and> unat amt = length bs \<and> length bs < 2 ^ 63 \<and>
       n = min (length bs) (10485760 - unat (st_size s)) \<and>
       pages_for (unat (st_size s) + n) \<le> pages_for (unat (st_size s)) + length (st_free s)" for bs n
    using crashstash_write_all [of s off env data bs amt] * by auto
qed

theorem crashstash_write_appends_witness:
  "(\<exists>s'. crashstash_write (ex_env [1, 2, 3]) 0 3 0 ex_stash = Inr (3, 3, s') \<and> contents s' = [1, 2, 3]) \<and>
    (\<exists>s'. crashstash_write (ex_env (replicate 4097 5)) 0 4097 0 ex_stash = Inr (4097, 4097, s') \<and>
      contents s' = replicate 4097 5)"
  (is "?A \<and> ?B")
proof
  note app = crashstash_write_appends [of 0 ex_stash, THEN conjunct2, THEN conjunct2, rule_format, OF conjI]
  show ?A
    using app [where env = "ex_env [1, 2, 3]" and data = 0 and amt = 3 and bs = "[1, 2, 3]" and n = 3] ex_stash_ok ex_env_readable
    by (auto simp: ex_stash_def contents_def pages_for_eq)
  show ?B
    using app [where env = "ex_env (replicate 4097 5)" and data = 0 and amt = 4097 and
        bs = "replicate 4097 5" and n = 4097] ex_stash_ok ex_env_readable
    by (auto simp: ex_stash_def contents_def pages_for_eq)
qed

text \<open>
  C14: Let \<open>n\<close> be as many bytes as asked for and present behind an offset within the
  file. A read copies them page by page and stops at the first page whose copy to the
  user fails, \<open>k\<close> bytes on: the \<open>k\<close> bytes stored from the offset on are delivered,
  and the result is \<open>-EFAULT\<close>. When no copy fails, all \<open>n\<close> are delivered and counted.
\<close>

theorem crashstash_read_correct:
  assumes "stash_ok s" and "off \<le> st_size s" and "unat amt < 2 ^ 63"
  shows "let n = min (unat amt) (unat (st_size s) - unat off) in
    \<exists>k. crashstash_read env data amt off s =
        Inr (if k = n then int k else - EFAULT, off + of_nat k, take k (drop (unat off) (contents s))) \<and>
      k \<le> n \<and>
      (k < n \<longrightarrow> page_start (unat off) k \<and> page_fails env data (unat off) n k) \<and>
      (\<forall>j<k. page_start (unat off) j \<longrightarrow> \<not> page_fails env data (unat off) n j)"
  using crashstash_read_slice [OF assms, where env = env and data = data] by (simp only: Let_def)

text \<open>Two pages, of ones and of twos, and a buffer with room for 96 bytes.\<close>

definition two_pages :: stash where
  "two_pages = \<lparr>st_count = 1, st_crashstash = [replicate 4096 1, replicate 4096 2],
     st_size = 5000, st_pages = 2, st_pde_size = 5000, st_free = []\<rparr>"

definition room96 :: user_env where
  "room96 = \<lparr>copy_from = (\<lambda>u n. Inl (replicate n 0)), copy_to_ok = (\<lambda>u n. u + n \<le> 96)\<rparr>"

theorem crashstash_read_correct_witness:
  "crashstash_read room96 0 500 4000 two_pages = Inr (- EFAULT, 4096, replicate 96 1)"
proof -
  have "stash_ok two_pages"
    by (simp add: stash_ok_def two_pages_def pages_for_eq list_all_iff)
  from crashstash_read_correct [OF this, of 4000 500 room96 0] obtain k where
    k: "crashstash_read room96 0 500 4000 two_pages =
      Inr (if k = 500 then int k else - EFAULT, 4000 + of_nat k, take k (drop 4000 (contents two_pages)))"
    "k \<le> 500" "k < 500 \<longrightarrow> page_start 4000 k \<and> page_fails room96 0 4000 500 k"
    "\<forall>j<k. page_start 4000 j \<longrightarrow> \<not> page_fails room96 0 4000 500 j"
    by (auto simp: two_pages_def)
  have "k \<le> 96" using k(4) by (auto simp: page_start_def page_fails_def room96_def not_less [symmetric])
  moreover have "k = 0 \<or> (4000 + k) mod 4096 = 0" and "\<not> k + min (500 - k) (4096 - (4000 + k) mod 4096) \<le> 96"
    using k(3) calculation by (auto simp: page_start_def page_fails_def room96_def)
  ultimately have "k = 96" by (cases "k < 96") auto
  then show ?thesis
    using k(1) by (simp add: contents_def two_pages_def take_replicate drop_replicate)
qed

text \<open>
  C12: What is written comes back: a writer that opens the file and writes a buffer,
  then a reader with room for it, then the vmcore script, all see exactly its bytes.
\<close>

theorem crashstash_roundtrip:
  assumes s: "stash_ok s" "st_count s = 0" and fl: "flags AND O_ACCMODE = O_WRONLY"
      "flags' AND O_ACCMODE = 0"
    and r: "readable env data bs" and n: "length bs \<le> 10485760"
    and mem: "pages_for (length bs) \<le> length (st_free s) + length (st_crashstash s)"
    and w: "\<forall>u n. copy_to_ok env' u n" and amt: "length bs \<le> unat amt" "unat amt < 2 ^ 63"
  shows "\<exists>s1 s2 s3 s4. crashstash_open flags s = (0, s1) \<and>
    crashstash_write env data (of_nat (length bs)) 0 s1 =
      Inr (int (length bs), of_nat (length bs), s2) \<and>
    crashstash_release s2 = Inr (0, s3) \<and> crashstash_open flags' s3 = (0, s4) \<and>
    crashstash_read env' data' amt 0 s4 = Inr (int (length bs), of_nat (length bs), bs) \<and>
    get_crashstash s4 = Some bs"
proof -
  define s1 where "s1 = (crashstash_free s)\<lparr>st_count := 1\<rparr>"
  have o1: "crashstash_open flags s = (0, s1)"
    using s(2) fl(1) by (simp add: crashstash_open_def s1_def crashstash_free_def)
  have ok1: "stash_ok s1" "tight s1" "st_size s1 = 0" "contents s1 = []"
    using stash_ok_free [OF s(1)]
    by (simp_all add: s1_def crashstash_free_def stash_ok_def tight_def contents_def pages_for_eq)
  have ub: "unat (of_nat (length bs) :: u64) = length bs"
    using n by (simp add: unsigned_of_nat take_bit_nat_eq_self)
  have mem1: "pages_for (unat (0 :: u64) + min (length bs) (10485760 - unat (st_size s1))) \<le>
      pages_for (unat (0 :: u64)) + length (st_free s1)"
    using mem n ok1(3) by (simp add: s1_def crashstash_free_def pages_for_eq)
  from crashstash_write_all [OF ok1(1,2) _ _ r ub _ mem1] ok1(3,4) n obtain s2 where
    s2: "crashstash_write env data (of_nat (length bs)) 0 s1 =
        Inr (int (length bs), of_nat (length bs), s2)"
      "stash_ok s2" "tight s2" "contents s2 = bs" "st_count s2 = st_count s1"
    by (auto simp: min_def)
  define s3 where "s3 = s2\<lparr>st_count := 0\<rparr>"
  have r2: "crashstash_release s2 = Inr (0, s3)"
    using s2(5) by (simp add: crashstash_release_def s3_def s1_def)
  define s4 where "s4 = s2\<lparr>st_count := 1\<rparr>"
  have o4: "crashstash_open flags' s3 = (0, s4)"
    using fl(2) by (simp add: crashstash_open_def s3_def s4_def)
  have ok4: "stash_ok s4" "tight s4" "contents s4 = bs"
    using s2(2-4) by (simp_all add: s4_def stash_ok_def tight_def contents_def)
  then have sz: "unat (st_size s4) = length bs" using length_contents by metis
  from crashstash_read_all [OF ok4(1) _ amt(2) w, of 0 data'] sz amt(1) ok4(3)
  have "crashstash_read env' data' amt 0 s4 = Inr (int (length bs), of_nat (length bs), bs)"
    by auto
  then show ?thesis using o1 s2(1) r2 o4 get_crashstash_contents [OF ok4(1,2)] ok4(3) by metis
qed

theorem crashstash_roundtrip_witness:
  "\<exists>s1 s2 s3 s4. crashstash_open 0x8001 ex_stash = (0, s1) \<and>
    crashstash_write (ex_env [104, 105]) 0 2 0 s1 = Inr (2, 2, s2) \<and>
    crashstash_release s2 = Inr (0, s3) \<and> crashstash_open 0x8000 s3 = (0, s4) \<and>
    crashstash_read (ex_env []) 0 100 0 s4 = Inr (2, 2, [104, 105]) \<and>
    get_crashstash s4 = Some [104, 105]"
proof -
  have "stash_ok ex_stash" "st_count ex_stash = 0" using ex_stash_ok(1) by (simp_all add: ex_stash_def)
  from crashstash_roundtrip [OF this, where flags = "0x8001" and flags' = "0x8000" and data = 0 and
      env = "ex_env [104, 105]" and bs = "[104, 105]" and env' = "ex_env []" and amt = 100 and data' = 0]
  show ?thesis
    using ex_env_readable by (simp add: ex_env_def [of "[]"] pages_for_eq ex_stash_def)
qed

section \<open>A fault at a page boundary\<close>

text \<open>
  C15: A write to an empty stash that faults in its first page leaves the page behind:
  the writer gets \<open>-EFAULT\<close> and offset and size stay, but the next write, though it succeeds, fills
  another page, a read then delivers what the first page happens to hold instead of
  the bytes written, and the vmcore script rejects the stash.
\<close>

theorem crashstash_fault_misplaces:
  assumes s: "st_crashstash s = []" "st_size s = 0" "st_pages s = 0" "st_free s = p # q # ps"
      "list_all (\<lambda>p. length p = 4096) (p # q # ps)"
    and f: "copy_from env data (unat amt) = Inl junk" "amt \<noteq> 0" "amt \<le> PAGE_SIZE"
      "length junk = unat amt"
    and r: "copy_from envb datab (length bs) = Inr bs" "bs \<noteq> []" "length bs \<le> 4096"
    and w: "\<forall>u n. copy_to_ok envc u n"
  shows "\<exists>s1 s2. crashstash_write env data amt 0 s = Inr (- EFAULT, 0, s1) \<and>
    crashstash_write envb datab (of_nat (length bs)) 0 s1 =
      Inr (int (length bs), of_nat (length bs), s2) \<and>
    crashstash_read envc datac (of_nat (length bs)) 0 s2 = Inr (int (length bs), of_nat (length bs),
      take (length bs) (junk @ drop (unat amt) p)) \<and>
    get_crashstash s2 = None"
proof -
  have c: "min amt (PAGE_SIZE - 0 mod PAGE_SIZE) = amt" using f(3) by (simp add: min_def)
  let ?n = "of_nat (length bs) :: u64"
  have un: "unat ?n = length bs" using r(3) by (simp add: unsigned_of_nat take_bit_nat_eq_self)
  have n0: "?n \<noteq> 0" using r(2) un by auto
  have nle: "?n \<le> PAGE_SIZE" using un r(3) by (simp add: word_le_nat_alt)
  then have c2: "min ?n (PAGE_SIZE - 0 mod PAGE_SIZE) = ?n" by (simp add: min_def)
  have lim: "\<not> MAXSIZE < amt" "\<not> MAXSIZE < ?n"
    using f(3) nle by (auto simp: not_less intro: order_trans)
  let ?s1 = "s\<lparr>st_crashstash := [patch_page p 0 junk], st_pages := 1, st_free := q # ps, st_pde_size := 0\<rparr>"
  have w1: "crashstash_write env data amt 0 s = Inr (- EFAULT, 0, ?s1)"
    using s f c lim(1)
    by (simp add: crashstash_write_def write_loop.simps [of env amt] write_page_def add_page_def
        fill_last_def Let_def)
  let ?s2 = "s\<lparr>st_crashstash := [patch_page p 0 junk, patch_page q 0 bs], st_pages := 2,
    st_size := ?n, st_free := ps, st_pde_size := ?n\<rparr>"
  have w2: "crashstash_write envb datab ?n 0 ?s1 = Inr (int (length bs), ?n, ?s2)"
    using s r(1) n0 c2 lim(2) un
    by (simp add: crashstash_write_def write_loop.simps [of envb ?n] write_page_def add_page_def
        fill_last_def Let_def write_loop.simps [of envb 0])
  have lp: "length p = 4096" "length q = 4096" "unat amt \<le> 4096"
    using s(5) f(3) by (simp_all add: word_le_nat_alt)
  have pf: "pages_for (length bs) = 1"
    using pages_for_add(1) [of 0 0 "length bs"] r(2,3) by simp
  have ok: "stash_ok ?s2"
    using lp f(4) r(3) un pf s(5) nle
    by (simp add: stash_ok_def patch_page_def) (auto intro: order_trans)
  have ct: "take (length bs) (contents ?s2) = take (length bs) (junk @ drop (unat amt) p)"
    using un lp f(4) r(3) by (auto simp: contents_def patch_page_def min_def)
  have "crashstash_read envc datac ?n 0 ?s2 = Inr (int (length bs), ?n,
      take (length bs) (junk @ drop (unat amt) p))"
    using crashstash_read_all [OF ok _ _ w, of 0 ?n datac] un r(3) ct by simp
  moreover have "get_crashstash ?s2 = None" using un pf by (simp add: get_crashstash_def)
  ultimately show ?thesis using w1 w2 by blast
qed

theorem crashstash_fault_misplaces_witness:
  "\<exists>s1 s2. crashstash_write (ex_env []) 0 1 0 ex_stash = Inr (- EFAULT, 0, s1) \<and>
    crashstash_write (ex_env [104, 105]) 0 2 0 s1 = Inr (2, 2, s2) \<and>
    crashstash_read (ex_env []) 0 2 0 s2 = Inr (2, 2, [0, 0xAA]) \<and>
    get_crashstash s2 = None"
  using crashstash_fault_misplaces [where s = ex_stash and p = "replicate 4096 0xAA" and
      q = "replicate 4096 0" and ps = "[]" and env = "ex_env []" and data = 0 and amt = 1 and
      junk = "[0]" and envb = "ex_env [104, 105]" and bs = "[104, 105]" and datab = 0 and
      envc = "ex_env []" and datac = 0]
  by (simp add: ex_stash_def ex_env_def)

section \<open>A fault behind the first page, and no memory\<close>

text \<open>
  After a write that failed behind its first page, the size has moved and the offset
  of the file has not: every later write on this file is refused.
\<close>

lemma crashstash_fault_stalls:
  assumes ok: "stash_ok s" and c: "copies env" and amt: "unat amt < 2 ^ 63"
    and w: "crashstash_write env data amt off s = Inr (rv, off', s')" and f: "rv < 0" "off' \<noteq> off"
  shows "crashstash_write env' data' amt' (f_pos_after rv off off') s' = Inr (- EINVAL, off, s')"
proof -
  have "off = st_size s \<longrightarrow> off' = st_size s'" "off \<noteq> st_size s \<longrightarrow> off' = off"
    using crashstash_write_safe [OF ok c amt, where data = data and off = off] w by simp_all
  with f show ?thesis by (auto simp: f_pos_after_def crashstash_write_def)
qed

lemma crashstash_fault_stalls_example:
  "\<exists>s'. crashstash_write (ex_env (replicate 4096 7)) 0 5000 0 ex_stash = Inr (- EFAULT, 4096, s') \<and>
    crashstash_write (ex_env [8]) 0 1 (f_pos_after (- EFAULT) 0 4096) s' = Inr (- EINVAL, 0, s')"
proof -
  let ?env = "ex_env (replicate 4096 7)"
  have c: "copy_from ?env 0 4096 = Inr (replicate 4096 7)" "copy_from ?env 4096 904 = Inl (replicate 904 0)"
    by (simp_all add: ex_env_def)
  have "\<exists>s'. write_loop ?env 5000 0 0 0 ex_stash = Inr (- EFAULT, 4096, s')"
    by (simp add: write_loop.simps [of ?env 5000] write_loop.simps [of ?env 904] write_page_def add_page_def
        fill_last_def ex_stash_def c)
  then obtain s' where w: "crashstash_write ?env 0 5000 0 ex_stash = Inr (- EFAULT, 4096, s')"
    by (auto simp: crashstash_write_def) (simp add: ex_stash_def)
  show ?thesis
    using crashstash_fault_stalls [OF ex_stash_ok(1) ex_env_copies _ w] w by auto
qed

text \<open>A page that \<open>alloc_page\<close> does not give is used all the same.\<close>

lemma crashstash_write_null:
  assumes "st_free s = []" and "unat (st_size s) mod 4096 = 0" and "st_size s < MAXSIZE" and "amt \<noteq> 0"
  shows "crashstash_write env data amt (st_size s) s = Inl Null_page"
proof -
  have "st_size s mod PAGE_SIZE = 0" using assms(2) by (simp only: page_offset_0)
  then have "write_loop env a data (st_size s) 0 s = Inl Null_page" if "a \<noteq> 0" for a
    using that assms(1) by (subst write_loop.simps) (simp add: write_page_def add_page_def)
  then show ?thesis using assms(3,4) by (simp add: crashstash_write_def Let_def)
qed

end
