(* ===== verification/Bytes.thy ===== *)
theory Bytes
  imports Prelude
begin

text \<open>
  What the programs that edit ELF files share. Numbers in memory: the bytes of a
  number in either byte order and the byte swaps of \<open>byteswap.h\<close>. Windows of a byte
  list, with the interface of a store that is read and written by windows (locale
  \<open>byte_store\<close>) and its instance, the image of a file. Buffers, string comparisons on
  them, and runs that may crash or not return.
\<close>

section \<open>Numbers in memory\<close>

primrec le_nat :: "u8 list \<Rightarrow> nat" where
  "le_nat [] = 0"
| "le_nat (b # bs) = unat b + 256 * le_nat bs"

primrec le_bytes :: "nat \<Rightarrow> nat \<Rightarrow> u8 list" where
  "le_bytes 0 x = []"
| "le_bytes (Suc n) x = of_nat (x mod 256) # le_bytes n (x div 256)"

lemma unat_u8_less: "unat (b :: u8) < 256"
  using unsigned_less [of b] by simp

lemma length_le_bytes [simp]: "length (le_bytes n x) = n"
  by (induction n arbitrary: x) simp_all

lemma le_nat_bytes: "le_nat (le_bytes n x) = x mod 256 ^ n"
proof (induction n arbitrary: x)
  case 0
  then show ?case by simp
next
  case (Suc n)
  have "unat (of_nat (x mod 256) :: u8) = x mod 256"
    by (simp add: unsigned_of_nat take_bit_nat_eq_self)
  then show ?case using Suc by (simp add: mod_mult2_eq)
qed

lemma le_nat_less: "le_nat bs < 256 ^ length bs"
proof (induction bs)
  case Nil
  then show ?case by simp
next
  case (Cons b bs)
  have "unat b < 256" by (rule unat_u8_less)
  with Cons show ?case by simp
qed

lemma le_bytes_nat: "le_bytes (length bs) (le_nat bs) = bs"
proof (induction bs)
  case Nil
  then show ?case by simp
next
  case (Cons b bs)
  have "unat b < 256" by (rule unat_u8_less)
  with Cons show ?case by simp
qed

lemma le_nat_inj: "length xs = length ys \<Longrightarrow> le_nat xs = le_nat ys \<longleftrightarrow> xs = ys"
  using le_bytes_nat [of xs] le_bytes_nat [of ys] by metis

text \<open>The values of \<open>e_ident[EI_DATA]\<close> and \<open>e_ident[EI_CLASS]\<close> in \<open>elf.h\<close>.\<close>

abbreviation (input) ELFDATA2LSB :: int where "ELFDATA2LSB \<equiv> 1"
abbreviation (input) ELFDATA2MSB :: int where "ELFDATA2MSB \<equiv> 2"
abbreviation (input) ELFCLASS32 :: int where "ELFCLASS32 \<equiv> 1"
abbreviation (input) ELFCLASS64 :: int where "ELFCLASS64 \<equiv> 2"

text \<open>
  The number that bytes hold on a machine of the given byte order, and the bytes
  of a number there.
\<close>

definition mem_nat :: "int \<Rightarrow> u8 list \<Rightarrow> nat" where
  "mem_nat e bs = le_nat (if e = ELFDATA2MSB then rev bs else bs)"

definition mem_bytes :: "int \<Rightarrow> nat \<Rightarrow> nat \<Rightarrow> u8 list" where
  "mem_bytes e n x = (if e = ELFDATA2MSB then rev (le_bytes n x) else le_bytes n x)"

lemma length_mem_bytes [simp]: "length (mem_bytes e n x) = n"
  by (simp add: mem_bytes_def)

lemma mem_nat_bytes: "mem_nat e (mem_bytes e n x) = x mod 256 ^ n"
  by (simp add: mem_nat_def mem_bytes_def le_nat_bytes)

lemma mem_nat_less: "mem_nat e bs < 256 ^ length bs"
  using le_nat_less [of bs] le_nat_less [of "rev bs"] by (simp add: mem_nat_def)

text \<open>\<open>bswap_16\<close>, \<open>bswap_32\<close> and \<open>bswap_64\<close>: the bytes of the number in the other order.\<close>

definition bswap :: "nat \<Rightarrow> nat \<Rightarrow> nat" where
  "bswap n x = le_nat (rev (le_bytes n x))"

lemma bswap_less: "bswap n x < 256 ^ n"
  using le_nat_less [of "rev (le_bytes n x)"] by (simp add: bswap_def)

lemma bswap_bswap: "x < 256 ^ n \<Longrightarrow> bswap n (bswap n x) = x"
proof -
  assume x: "x < 256 ^ n"
  have "le_bytes n (le_nat (rev (le_bytes n x))) = rev (le_bytes n x)"
    using le_bytes_nat [of "rev (le_bytes n x)"] by simp
  then show ?thesis using x by (simp add: bswap_def le_nat_bytes)
qed

lemma bswap_mem:
  assumes "length bs = n" and "e \<in> {ELFDATA2LSB, ELFDATA2MSB}" and "p \<in> {ELFDATA2LSB, ELFDATA2MSB}"
  shows "(if e \<noteq> p then bswap n (mem_nat p bs) else mem_nat p bs) = mem_nat e bs"
proof -
  have "le_bytes n (le_nat bs) = bs" "le_bytes n (le_nat (rev bs)) = rev bs"
    using assms(1) le_bytes_nat [of bs] le_bytes_nat [of "rev bs"] by simp_all
  then show ?thesis using assms(2,3) by (auto simp: mem_nat_def bswap_def)
qed

section \<open>Byte stores\<close>

text \<open>
  A store of bytes that is read and overwritten by windows: what a read returns
  after a write, inside and outside of it. The clients are the editors, which
  overwrite a window of the file and leave the rest alone.
\<close>

locale byte_store =
  fixes extent :: "'s \<Rightarrow> nat"
    and get :: "'s \<Rightarrow> nat \<Rightarrow> nat \<Rightarrow> 'b list"
    and put :: "'s \<Rightarrow> nat \<Rightarrow> 'b list \<Rightarrow> 's"
  assumes length_get: "p + n \<le> extent s \<Longrightarrow> length (get s p n) = n"
    and extent_put: "p + length xs \<le> extent s \<Longrightarrow> extent (put s p xs) = extent s"
    and get_put_same: "p + length xs \<le> extent s \<Longrightarrow> get (put s p xs) p (length xs) = xs"
    and get_put_other: "p + length xs \<le> extent s \<Longrightarrow> q + n \<le> p \<or> p + length xs \<le> q \<Longrightarrow>
      get (put s p xs) q n = get s q n"
    and get_append: "get s p (m + n) = get s p m @ get s (p + m) n"
    and store_eqI: "extent s = extent t \<Longrightarrow> get s 0 (extent s) = get t 0 (extent t) \<Longrightarrow> s = t"
begin

lemma get_split3:
  assumes "p + n \<le> extent s"
  shows "get s 0 (extent s) = get s 0 p @ get s p n @ get s (p + n) (extent s - (p + n))"
proof -
  have "extent s = p + (n + (extent s - (p + n)))" using assms by simp
  then have "get s 0 (extent s) = get s 0 (p + (n + (extent s - (p + n))))" by simp
  then show ?thesis by (simp add: get_append)
qed

lemma put_put_same:
  assumes "p + length xs \<le> extent s" and "length ys = length xs"
  shows "put (put s p xs) p ys = put s p ys"
proof (rule store_eqI)
  let ?t = "put (put s p xs) p ys"
  show e: "extent ?t = extent (put s p ys)" using assms by (simp add: extent_put)
  have x: "extent ?t = extent s" "extent (put s p ys) = extent s" using assms by (simp_all add: extent_put)
  have "get ?t 0 p = get (put s p ys) 0 p" "get ?t p (length xs) = get (put s p ys) p (length xs)"
    "get ?t (p + length xs) k = get (put s p ys) (p + length xs) k" for k
    using assms get_put_same [of p ys s] get_put_same [of p ys "put s p xs"]
    by (simp_all add: get_put_other extent_put)
  then show "get ?t 0 (extent ?t) = get (put s p ys) 0 (extent (put s p ys))"
    using assms(1) x get_split3 [of p "length xs" ?t] get_split3 [of p "length xs" "put s p ys"]
    by simp
qed

lemma put_get_same:
  assumes "p + n \<le> extent s"
  shows "put s p (get s p n) = s"
proof (rule store_eqI)
  let ?t = "put s p (get s p n)"
  have l: "length (get s p n) = n" using assms by (rule length_get)
  then have fit: "p + length (get s p n) \<le> extent s" using assms by simp
  show e: "extent ?t = extent s" using fit by (rule extent_put)
  have "get ?t 0 p = get s 0 p" "get ?t p n = get s p n"
    "get ?t (p + n) k = get s (p + n) k" for k
    using fit l get_put_same [OF fit] by (simp_all add: get_put_other)
  then show "get ?t 0 (extent ?t) = get s 0 (extent s)"
    using assms e get_split3 [of p n ?t] get_split3 [of p n s] by simp
qed

lemma put_restore:
  assumes "p + length xs \<le> extent s"
  shows "put (put s p xs) p (get s p (length xs)) = s"
  using assms length_get [of p "length xs" s] put_put_same [of p xs s "get s p (length xs)"]
    put_get_same [of p "length xs" s] by simp

end

text \<open>The instance: the image of a file, a list of bytes.\<close>

definition window :: "'b list \<Rightarrow> nat \<Rightarrow> nat \<Rightarrow> 'b list" where
  "window bs p n = take n (drop p bs)"

definition patch :: "u8 list \<Rightarrow> nat \<Rightarrow> u8 list \<Rightarrow> u8 list" where
  "patch bs p xs = (if xs = [] then bs
    else take p bs @ replicate (p - length bs) 0 @ xs @ drop (p + length xs) bs)"

lemma length_window: "length (window bs p n) = min n (length bs - p)"
  by (simp add: window_def)

lemma length_window_fit [simp]: "p + n \<le> length bs \<Longrightarrow> length (window bs p n) = n"
  by (simp add: window_def)

lemma length_patch [simp]: "p + length xs \<le> length bs \<Longrightarrow> length (patch bs p xs) = length bs"
  by (simp add: patch_def)

lemma window_append: "window bs p (m + n) = window bs p m @ window bs (p + m) n"
  by (simp add: window_def take_add add.commute)

lemma window_patch_same:
  "p + length xs \<le> length bs \<Longrightarrow> window (patch bs p xs) p (length xs) = xs"
  by (simp add: window_def patch_def)

lemma window_patch_other:
  assumes "p + length xs \<le> length bs" and "q + n \<le> p \<or> p + length xs \<le> q"
  shows "window (patch bs p xs) q n = window bs q n"
proof (rule nth_equalityI)
  show "length (window (patch bs p xs) q n) = length (window bs q n)"
    using assms(1) by (simp add: length_window)
  fix i assume "i < length (window (patch bs p xs) q n)"
  then have i: "i < n" "q + i < length bs" using assms(1) by (auto simp: length_window)
  from assms(2) i(1) have "q + i < p \<or> p + length xs \<le> q + i" by auto
  then have "patch bs p xs ! (q + i) = bs ! (q + i)"
    using assms(1) i(2) by (auto simp: patch_def nth_append)
  then show "window (patch bs p xs) q n ! i = window bs q n ! i"
    using assms(1) i by (simp add: window_def)
qed

interpretation image: byte_store length window patch
proof (unfold_locales, goal_cases)
  case (1 p n s)
  then show ?case by simp
next
  case (2 p xs s)
  then show ?case by simp
next
  case (3 p xs s)
  then show ?case by (rule window_patch_same)
next
  case (4 p xs s q n)
  then show ?case by (rule window_patch_other)
next
  case (5 s p m n)
  show ?case by (rule window_append)
next
  case (6 s t)
  then show ?case by (simp add: window_def)
qed

lemma window_mid: "length pre = p \<Longrightarrow> length xs = n \<Longrightarrow> window (pre @ xs @ rest) p n = xs"
  by (simp add: window_def)

lemma patch_mid: "length pre = p \<Longrightarrow> length ys = length xs \<Longrightarrow> patch (pre @ xs @ rest) p ys = pre @ ys @ rest"
  by (auto simp: patch_def)

lemma patch_end: "patch xs (length xs) ys = xs @ ys"
  by (simp add: patch_def)

lemma window_patch_inside:
  assumes "q + length xs \<le> n" and "p + n \<le> length bs"
  shows "window (patch bs (p + q) xs) p n = patch (window bs p n) q xs"
proof -
  define A where "A = take p bs"
  define S where "S = window bs p n"
  define B where "B = drop (p + n) bs"
  have bs: "bs = A @ S @ B"
    by (simp add: A_def S_def B_def window_def) (metis append_take_drop_id drop_drop add.commute)
  have l: "length A = p" "length S = n" using assms by (simp_all add: A_def S_def)
  have "patch bs (p + q) xs = A @ patch S q xs @ B"
    using l assms by (simp add: bs patch_def)
  moreover have "length (patch S q xs) = n" using l assms by simp
  ultimately show ?thesis using l window_mid [of A p "patch S q xs" n B] by (simp add: S_def)
qed

section \<open>Buffers\<close>

text \<open>
  How a program can go wrong without a return value: a read outside of a buffer or of
  what a null pointer points to, a
  failed \<open>assert\<close>, a call of \<open>exit\<close>, a signed multiplication that overflows.
\<close>

datatype crash = Overread | Null_pointer | Assert_failed | Exit_failure | Overflow

definition load :: "u8 list \<Rightarrow> nat \<Rightarrow> nat \<Rightarrow> crash + u8 list" where
  "load buf p n = (if p + n \<le> length buf then Inr (window buf p n) else Inl Overread)"

lemma load_fit [simp]: "p + n \<le> length buf \<Longrightarrow> load buf p n = Inr (window buf p n)"
  by (simp add: load_def)

lemma load_eq_Inr: "load buf p n = Inr xs \<longleftrightarrow> p + n \<le> length buf \<and> xs = window buf p n"
  by (auto simp: load_def)

text \<open>A string constant as C stores it, without the final zero.\<close>

definition ascii :: "string \<Rightarrow> u8 list" where
  "ascii s = List.map of_char s"

text \<open>
  \<open>strcmp (s, buf + p) == 0\<close> for a constant \<open>s\<close>: the bytes are compared one by one up
  to the first difference or the final zero, so no more than these are read.
\<close>

fun strcmp_is :: "u8 list \<Rightarrow> u8 list \<Rightarrow> nat \<Rightarrow> crash + bool" where
  "strcmp_is [] buf p = bindR (load buf p 1) (\<lambda>b. Inr (b = [0]))"
| "strcmp_is (c # cs) buf p =
    bindR (load buf p 1) (\<lambda>b. if b = [c] then strcmp_is cs buf (p + 1) else Inr False)"

lemma window_Suc: "p < length bs \<Longrightarrow> window bs p (Suc n) = bs ! p # window bs (p + 1) n"
  by (simp add: window_def Cons_nth_drop_Suc [symmetric])

lemma window_0 [simp]: "window bs p 0 = []"
  by (simp add: window_def)

lemma window_1: "p < length bs \<Longrightarrow> window bs p (Suc 0) = [bs ! p]"
  by (simp add: window_Suc)

text \<open>Inside the buffer the comparison is one of the window with the string and its zero.\<close>

lemma strcmp_is_window:
  assumes "p + length s < length buf"
  shows "strcmp_is s buf p = Inr (window buf p (length s + 1) = s @ [0])"
  using assms
proof (induction s arbitrary: p)
  case Nil
  then show ?case by (simp add: window_1)
next
  case (Cons c s)
  then show ?case by (simp add: window_1 window_Suc)
qed

lemma strcmp_is_True:
  assumes "strcmp_is s buf p = Inr True"
  shows "p + length s < length buf \<and> window buf p (length s + 1) = s @ [0]"
  using assms
proof (induction s arbitrary: p)
  case Nil
  then show ?case by (auto simp: bindR_eq_Inr load_eq_Inr)
next
  case (Cons c s)
  from Cons.prems obtain b where b: "load buf p 1 = Inr b"
    "(if b = [c] then strcmp_is s buf (p + 1) else Inr False) = Inr True"
    by (auto simp: bindR_eq_Inr)
  then have c: "b = [c]" and s: "strcmp_is s buf (p + 1) = Inr True" by (auto split: if_splits)
  from Cons.IH [OF s] b(1) c show ?case by (auto simp: load_eq_Inr window_1 window_Suc)
qed

text \<open>The comparison reads at most the string and its zero: only this window matters.\<close>

lemma strcmp_is_cong:
  assumes "length buf = length buf'" and "\<And>i. i \<le> length s \<Longrightarrow> p + i < length buf \<Longrightarrow> buf ! (p + i) = buf' ! (p + i)"
  shows "strcmp_is s buf p = strcmp_is s buf' p"
  using assms
proof (induction s arbitrary: p)
  case Nil
  from Nil(2) [of 0] Nil(1) show ?case by (cases "p < length buf") (auto simp: load_def window_1)
next
  case (Cons c s)
  have "strcmp_is s buf (p + 1) = strcmp_is s buf' (p + 1)"
    using Cons.prems(2) [of "Suc i" for i] by (intro Cons.IH) (simp_all add: Cons.prems(1))
  with Cons.prems(2) [of 0] Cons.prems(1) show ?case
    by (cases "p < length buf") (auto simp: load_def window_1)
qed

section \<open>Runs that may not return\<close>

text \<open>
  A computation with an unbounded loop is \<open>None\<close> when it does not return; else it
  crashes or returns a value. \<open>bindO\<close> composes two of them.
\<close>

type_synonym 'a run = "(crash + 'a) option"

definition bindO :: "'a run \<Rightarrow> ('a \<Rightarrow> 'b run) \<Rightarrow> 'b run" where
  "bindO m f = (case m of None \<Rightarrow> None | Some (Inl e) \<Rightarrow> Some (Inl e) | Some (Inr x) \<Rightarrow> f x)"

lemma bindO_simps [simp]:
  "bindO None f = None"
  "bindO (Some (Inl e)) f = Some (Inl e)"
  "bindO (Some (Inr x)) f = f x"
  by (simp_all add: bindO_def)

lemma bindO_cong [fundef_cong]:
  "m = m' \<Longrightarrow> (\<And>x. m' = Some (Inr x) \<Longrightarrow> f x = g x) \<Longrightarrow> bindO m f = bindO m' g"
  by (simp add: bindO_def split: option.split sum.split)

lemma bindO_eq_None: "bindO m f = None \<longleftrightarrow> m = None \<or> (\<exists>x. m = Some (Inr x) \<and> f x = None)"
  by (auto simp: bindO_def split: option.splits sum.splits)

lemma bindO_eq_Inr: "bindO m f = Some (Inr y) \<longleftrightarrow> (\<exists>x. m = Some (Inr x) \<and> f x = Some (Inr y))"
  by (auto simp: bindO_def split: option.splits sum.splits)

end
