(* ===== verification/FileIO.thy ===== *)
theory FileIO
  imports Bytes
begin

text \<open>
  Open files. A file is its image, the position of the descriptor, and an
  environment that decides the outcome of each system call on it by its number: the
  call does what it can (\<open>Full\<close>), fails (\<open>Fail\<close>, the call returns -1 and changes
  nothing), or transfers at most so many bytes (\<open>Short\<close>, as on a full disk). The
  calls are the ones the programs make, with their POSIX behaviour: reading stops at
  the end of the file, writing past it fills the gap with zeros, a negative offset is
  refused, and Linux transfers at most \<open>MAX_RW_COUNT\<close> bytes at once.
\<close>

datatype io = Full | Fail | Short nat

record ofile =
  file_bytes :: "u8 list"
  file_pos :: nat
  file_calls :: nat
  file_env :: "nat \<Rightarrow> io"

definition MAX_RW_COUNT :: nat where
  "MAX_RW_COUNT = 2147479552"

definition file_tick :: "ofile \<Rightarrow> ofile" where
  "file_tick f = f\<lparr>file_calls := file_calls f + 1\<rparr>"

definition outcome :: "ofile \<Rightarrow> io" where
  "outcome f = file_env f (file_calls f)"

text \<open>How many bytes a transfer of \<open>n\<close> may move.\<close>

fun allowed :: "io \<Rightarrow> nat \<Rightarrow> nat" where
  "allowed Fail n = 0"
| "allowed Full n = min n MAX_RW_COUNT"
| "allowed (Short k) n = min k (min n MAX_RW_COUNT)"

text \<open>\<open>lseek\<close> to an offset, a signed 64-bit integer, and to the end of the file.\<close>

definition lseek_set :: "ofile \<Rightarrow> u64 \<Rightarrow> ofile \<times> int" where
  "lseek_set f o1 =
    (if outcome f = Fail \<or> sint o1 < 0 then (file_tick f, -1)
     else ((file_tick f)\<lparr>file_pos := unat o1\<rparr>, sint o1))"

definition lseek_end :: "ofile \<Rightarrow> ofile \<times> int" where
  "lseek_end f =
    (if outcome f = Fail then (file_tick f, -1)
     else ((file_tick f)\<lparr>file_pos := length (file_bytes f)\<rparr>, int (length (file_bytes f))))"

text \<open>\<open>read\<close>: the bytes that were read and the value it returns.\<close>

definition file_read :: "ofile \<Rightarrow> nat \<Rightarrow> ofile \<times> int \<times> u8 list" where
  "file_read f n =
    (if outcome f = Fail then (file_tick f, -1, [])
     else let got = window (file_bytes f) (file_pos f) (allowed (outcome f) n)
       in ((file_tick f)\<lparr>file_pos := file_pos f + length got\<rparr>, int (length got), got))"

text \<open>\<open>fread\<close>, which goes on reading until it has all or the file ends, and its count of bytes.\<close>

definition file_fread :: "ofile \<Rightarrow> nat \<Rightarrow> ofile \<times> nat \<times> u8 list" where
  "file_fread f n =
    (let got = window (file_bytes f) (file_pos f)
         (case outcome f of Full \<Rightarrow> n | Fail \<Rightarrow> 0 | Short k \<Rightarrow> min k n)
     in ((file_tick f)\<lparr>file_pos := file_pos f + length got\<rparr>, length got, got))"

text \<open>\<open>write\<close> and the value it returns.\<close>

definition file_write :: "ofile \<Rightarrow> u8 list \<Rightarrow> ofile \<times> int" where
  "file_write f xs =
    (if outcome f = Fail then (file_tick f, -1)
     else let ys = take (allowed (outcome f) (length xs)) xs
       in ((file_tick f)\<lparr>file_bytes := patch (file_bytes f) (file_pos f) ys,
             file_pos := file_pos f + length ys\<rparr>, int (length ys)))"

definition ftruncate :: "ofile \<Rightarrow> u64 \<Rightarrow> ofile \<times> int" where
  "ftruncate f n =
    (if outcome f = Fail \<or> sint n < 0 then (file_tick f, -1)
     else ((file_tick f)\<lparr>file_bytes := take (unat n) (file_bytes f) @
             replicate (unat n - length (file_bytes f)) 0\<rparr>, 0))"

text \<open>
  \<open>sendfile (dst, src, NULL, n)\<close>, which moves both positions. Linux refuses a count
  that is negative as a \<open>ssize_t\<close> (EINVAL).
\<close>

definition sendfile :: "ofile \<Rightarrow> ofile \<Rightarrow> nat \<Rightarrow> ofile \<times> ofile \<times> int" where
  "sendfile dst src n =
    (if outcome src = Fail \<or> 2 ^ 63 \<le> n then (dst, file_tick src, -1)
     else let got = window (file_bytes src) (file_pos src) (allowed (outcome src) n)
       in (dst\<lparr>file_bytes := patch (file_bytes dst) (file_pos dst) got,
             file_pos := file_pos dst + length got\<rparr>,
           (file_tick src)\<lparr>file_pos := file_pos src + length got\<rparr>, int (length got)))"

section \<open>What the calls keep\<close>

lemma file_tick_simps [simp]:
  "file_bytes (file_tick f) = file_bytes f" "file_pos (file_tick f) = file_pos f"
  "file_env (file_tick f) = file_env f" "file_calls (file_tick f) = file_calls f + 1"
  by (simp_all add: file_tick_def)

lemma allowed_le [simp]: "allowed r n \<le> n"
  by (cases r) auto

lemma lseek_set_bytes [mem_simps]:
  "lseek_set f o1 = (f', r) \<Longrightarrow> file_bytes f' = file_bytes f \<and> file_env f' = file_env f"
  by (auto simp: lseek_set_def split: if_splits)

lemma file_read_bytes [mem_simps]:
  "file_read f n = (f', r, d) \<Longrightarrow> file_bytes f' = file_bytes f \<and> file_env f' = file_env f"
  by (auto simp: file_read_def Let_def split: if_splits)

text \<open>A read returns its whole length only with the window at the position.\<close>

lemma file_read_all:
  assumes "file_read f n = (f', r, d)" and "r = int n"
  shows "d = window (file_bytes f) (file_pos f) n \<and> file_pos f + n \<le> length (file_bytes f) \<or> n = 0 \<and> d = []"
proof -
  let ?a = "allowed (outcome f) n"
  from assms have d: "d = window (file_bytes f) (file_pos f) ?a" and l: "length d = n"
    by (auto simp: file_read_def Let_def split: if_splits)
  from l d have a: "?a = n" using allowed_le [of "outcome f" n] by (auto simp: length_window min_def split: if_splits)
  with l d show ?thesis by (auto simp: length_window window_def min_def split: if_splits)
qed

text \<open>A file whose environment lets every call succeed.\<close>

definition reliable :: "ofile \<Rightarrow> bool" where
  "reliable f \<longleftrightarrow> (\<forall>k. file_env f k = Full)"

lemma reliable_outcome [simp]: "reliable f \<Longrightarrow> outcome f = Full"
  by (simp add: reliable_def outcome_def)

lemma reliable_cong: "file_env f' = file_env f \<Longrightarrow> reliable f' = reliable f"
  by (simp add: reliable_def)

text \<open>The next \<open>n\<close> calls on the file succeed.\<close>

definition works :: "nat \<Rightarrow> ofile \<Rightarrow> bool" where
  "works n f \<longleftrightarrow> (\<forall>k. k < n \<longrightarrow> file_env f (file_calls f + k) = Full)"

lemma reliable_works [intro]: "reliable f \<Longrightarrow> works n f"
  by (simp add: reliable_def works_def)

lemma works_outcome: "works n f \<Longrightarrow> 0 < n \<Longrightarrow> outcome f = Full"
  by (auto simp: works_def outcome_def)

lemma works_after:
  "works (m + n) f \<Longrightarrow> file_env f' = file_env f \<Longrightarrow> file_calls f' = file_calls f + m \<Longrightarrow> works n f'"
  by (simp add: works_def add.assoc)

lemma read_Full:
  assumes "outcome f = Full" and "file_pos f + n \<le> length (file_bytes f)" and "n \<le> MAX_RW_COUNT"
  shows "file_read f n = ((file_tick f)\<lparr>file_pos := file_pos f + n\<rparr>, int n, window (file_bytes f) (file_pos f) n)"
  using assms by (simp add: file_read_def Let_def min_def)

lemma write_Full:
  assumes "outcome f = Full" and "length xs \<le> MAX_RW_COUNT"
  shows "file_write f xs = ((file_tick f)\<lparr>file_bytes := patch (file_bytes f) (file_pos f) xs,
    file_pos := file_pos f + length xs\<rparr>, int (length xs))"
  using assms by (simp add: file_write_def Let_def min_def)

lemma sint_small: "unat (x :: u64) < 2 ^ 63 \<Longrightarrow> sint x = int (unat x)"
proof -
  assume x: "unat x < 2 ^ 63"
  have "int (unat x) < int (2 ^ 63)" using x by (simp only: of_nat_less_iff)
  then have "uint x < 2 ^ 63" by simp
  then have "signed_take_bit 63 (uint x) = uint x"
    by (intro signed_take_bit_int_eq_self) (simp_all add: order_trans [OF _ uint_ge_0])
  then show ?thesis by (simp add: sint_uint)
qed

lemma lseek_Full:
  assumes "outcome f = Full" and "unat o1 < 2 ^ 63"
  shows "lseek_set f o1 = ((file_tick f)\<lparr>file_pos := unat o1\<rparr>, int (unat o1))"
  using assms sint_small [of o1] by (simp add: lseek_set_def)

section \<open>The calls on a reliable file\<close>

text \<open>What each call leaves of the state of a file on which nothing fails.\<close>

lemma reliable_lseek:
  assumes "reliable f" and "unat o1 < 2 ^ 63"
  shows "\<exists>f'. lseek_set f o1 = (f', int (unat o1)) \<and> file_bytes f' = file_bytes f \<and> reliable f' \<and> file_pos f' = unat o1"
  using lseek_Full [of f o1] assms by (simp add: reliable_def)

lemma reliable_lseek_end:
  assumes "reliable f"
  shows "\<exists>f'. lseek_end f = (f', int (length (file_bytes f))) \<and> file_bytes f' = file_bytes f \<and> reliable f' \<and>
    file_pos f' = length (file_bytes f)"
  using assms by (simp add: lseek_end_def reliable_def outcome_def)

lemma reliable_read:
  assumes "reliable f" and "file_pos f + n \<le> length (file_bytes f)" and "n \<le> MAX_RW_COUNT"
  shows "\<exists>f'. file_read f n = (f', int n, window (file_bytes f) (file_pos f) n) \<and> file_bytes f' = file_bytes f \<and>
    reliable f' \<and> file_pos f' = file_pos f + n"
  using read_Full [of f n] assms by (simp add: reliable_def)

lemma reliable_write:
  assumes "reliable f" and "length xs \<le> MAX_RW_COUNT"
  shows "\<exists>f'. file_write f xs = (f', int (length xs)) \<and> file_bytes f' = patch (file_bytes f) (file_pos f) xs \<and>
    reliable f' \<and> file_pos f' = file_pos f + length xs"
  using write_Full [of f xs] assms by (simp add: reliable_def)

lemma reliable_truncate:
  assumes "reliable f" and "unat n \<le> length (file_bytes f)" and "unat n < 2 ^ 63"
  shows "\<exists>f'. ftruncate f n = (f', 0) \<and> file_bytes f' = take (unat n) (file_bytes f) \<and> reliable f'"
  using assms sint_small [of n] by (simp add: ftruncate_def reliable_def outcome_def)

lemma reliable_fread:
  assumes "reliable f"
  shows "\<exists>f'. file_fread f n = (f', length (window (file_bytes f) (file_pos f) n), window (file_bytes f) (file_pos f) n) \<and>
    file_bytes f' = file_bytes f \<and> reliable f'"
  using assms by (simp add: file_fread_def Let_def reliable_def outcome_def)

end
