(* ===== verification/BuildId.thy ===== *)
theory BuildId
  imports FileIO
begin

text \<open>
  \<open>editbuildid\<close> (\<open>src/editbuildid/editbuildid.c\<close>): find the build ID note of an ELF
  file of either class and byte order, and print it or overwrite it. Pointers into a
  buffer are offsets, a C string is its bytes without the final zero, a variable that
  is read before it is set is a parameter (\<open>junk\<close>), and so is the byte order of the
  machine (\<open>pe\<close>). A null pointer result is \<open>None\<close>.
\<close>

section \<open>Generic ELF fields\<close>

record elfinfo =
  endian :: int
  bits :: int

text \<open>A field of an ELF structure: its offset in the 64-bit and in the 32-bit variant.\<close>

type_synonym field = "nat \<times> nat"

definition getfield :: "nat \<Rightarrow> int \<Rightarrow> elfinfo \<Rightarrow> u8 list \<Rightarrow> nat \<Rightarrow> field \<Rightarrow> crash + nat" where
  "getfield n pe info buf ptr fld =
    bindR (if bits info = ELFCLASS64 then load buf (ptr + fst fld) n
           else if bits info = ELFCLASS32 then load buf (ptr + snd fld) n
           else Inl Exit_failure)
      (\<lambda>bs. let r = mem_nat pe bs in Inr (if endian info \<noteq> pe then bswap n r else r))"

definition getfield16 :: "int \<Rightarrow> elfinfo \<Rightarrow> u8 list \<Rightarrow> nat \<Rightarrow> field \<Rightarrow> crash + u16" where
  "getfield16 pe info buf ptr fld = bindR (getfield 2 pe info buf ptr fld) (\<lambda>x. Inr (of_nat x))"

definition getfield32 :: "int \<Rightarrow> elfinfo \<Rightarrow> u8 list \<Rightarrow> nat \<Rightarrow> field \<Rightarrow> crash + u32" where
  "getfield32 pe info buf ptr fld = bindR (getfield 4 pe info buf ptr fld) (\<lambda>x. Inr (of_nat x))"

text \<open>A field whose size depends on the class.\<close>

definition getaddr :: "int \<Rightarrow> elfinfo \<Rightarrow> u8 list \<Rightarrow> nat \<Rightarrow> field \<Rightarrow> crash + u64" where
  "getaddr pe info buf ptr fld =
    (if bits info = ELFCLASS64 then
       bindR (load buf (ptr + fst fld) 8) (\<lambda>bs. let r = mem_nat pe bs in
         Inr (of_nat (if endian info \<noteq> pe then bswap 8 r else r)))
     else if bits info = ELFCLASS32 then
       bindR (load buf (ptr + snd fld) 4) (\<lambda>bs. let r = mem_nat pe bs in
         Inr (of_nat (if endian info \<noteq> pe then bswap 4 r else r)))
     else Inl Exit_failure)"

text \<open>The offsets of the fields in the structures of \<open>elf.h\<close>.\<close>

abbreviation (input) Ehdr_e_phoff :: field where "Ehdr_e_phoff \<equiv> (32, 28)"
abbreviation (input) Ehdr_e_shoff :: field where "Ehdr_e_shoff \<equiv> (40, 32)"
abbreviation (input) Ehdr_e_phentsize :: field where "Ehdr_e_phentsize \<equiv> (54, 42)"
abbreviation (input) Ehdr_e_phnum :: field where "Ehdr_e_phnum \<equiv> (56, 44)"
abbreviation (input) Ehdr_e_shentsize :: field where "Ehdr_e_shentsize \<equiv> (58, 46)"
abbreviation (input) Ehdr_e_shnum :: field where "Ehdr_e_shnum \<equiv> (60, 48)"
abbreviation (input) Phdr_p_type :: field where "Phdr_p_type \<equiv> (0, 0)"
abbreviation (input) Phdr_p_offset :: field where "Phdr_p_offset \<equiv> (8, 4)"
abbreviation (input) Phdr_p_filesz :: field where "Phdr_p_filesz \<equiv> (32, 16)"
abbreviation (input) Shdr_sh_type :: field where "Shdr_sh_type \<equiv> (4, 4)"
abbreviation (input) Shdr_sh_offset :: field where "Shdr_sh_offset \<equiv> (24, 16)"
abbreviation (input) Shdr_sh_size :: field where "Shdr_sh_size \<equiv> (32, 20)"
abbreviation (input) Nhdr_n_namesz :: field where "Nhdr_n_namesz \<equiv> (0, 0)"
abbreviation (input) Nhdr_n_descsz :: field where "Nhdr_n_descsz \<equiv> (4, 4)"
abbreviation (input) Nhdr_n_type :: field where "Nhdr_n_type \<equiv> (8, 8)"
abbreviation (input) PT_NOTE :: u32 where "PT_NOTE \<equiv> 4"
abbreviation (input) SHT_NOTE :: u32 where "SHT_NOTE \<equiv> 7"
abbreviation (input) NT_GNU_BUILD_ID :: u32 where "NT_GNU_BUILD_ID \<equiv> 3"

section \<open>Notes\<close>

definition pad4 :: "u64 \<Rightarrow> u64" where
  "pad4 v = (if v AND 3 \<noteq> 0 then (v AND NOT 3) + 4 else v)"

definition note_desc :: "nat \<Rightarrow> u16 \<Rightarrow> nat" where
  "note_desc nhdr namesz = nhdr + 12 + unat (pad4 (ucast namesz))"

definition next_note :: "nat \<Rightarrow> u16 \<Rightarrow> u16 \<Rightarrow> nat" where
  "next_note nhdr namesz descsz = nhdr + 12 + unat (pad4 (ucast namesz)) + unat (pad4 (ucast descsz))"

definition end_notes :: "nat \<Rightarrow> nat \<Rightarrow> bool" where
  "end_notes len ptr \<longleftrightarrow> ptr \<ge> len"

section \<open>Hexadecimal\<close>

definition nibble_to_hex :: "u8 \<Rightarrow> crash + u8" where
  "nibble_to_hex input =
    (if input < 10 then Inr (0x30 + input)
     else if input \<ge> 10 \<and> input < 16 then Inr (0x61 + input - 10)
     else Inl Assert_failed)"

definition hex_to_nibble :: "u8 \<Rightarrow> bool \<Rightarrow> u8 \<times> bool" where
  "hex_to_nibble input error =
    (if input \<ge> 0x30 \<and> input \<le> 0x39 then (input - 0x30, error)
     else if input \<ge> 0x61 \<and> input \<le> 0x66 then (input - 0x61 + 10, error)
     else if input \<ge> 0x41 \<and> input \<le> 0x46 then (input - 0x41 + 10, error)
     else (0, True))"

fun to_hex :: "u8 list \<Rightarrow> crash + u8 list" where
  "to_hex [] = Inr []"
| "to_hex (byte # data) =
    bindR (nibble_to_hex (drop_bit 4 (byte AND 0xF0))) (\<lambda>hi.
    bindR (nibble_to_hex (byte AND 0xF)) (\<lambda>lo.
    bindR (to_hex data) (\<lambda>hex. Inr (hi # lo # hex))))"

fun from_hex_loop :: "u8 list \<Rightarrow> u8 list option" where
  "from_hex_loop (h # l # rest) =
    (let (hi, error) = hex_to_nibble h False;
         (lo, error) = hex_to_nibble l error;
         byte = push_bit 4 hi OR lo
     in if error then None
        else case from_hex_loop rest of None \<Rightarrow> None | Some data \<Rightarrow> Some (byte # data))"
| "from_hex_loop _ = Some []"

definition from_hex :: "u8 list \<Rightarrow> crash + u8 list option" where
  "from_hex hex_data =
    (if length hex_data mod 2 \<noteq> 0 then Inl Assert_failed else Inr (from_hex_loop hex_data))"

section \<open>Finding the build ID\<close>

abbreviation (input) MAX_BUILDID_SIZE :: u32 where "MAX_BUILDID_SIZE \<equiv> 512"

record buildid_info =
  data_offset :: u64
  bytes_size :: u64
  hex :: "u8 list option"

text \<open>
  \<open>fetch_data\<close> compares the \<open>int\<close> that \<open>read\<close> returned with a \<open>size_t\<close>; \<open>calloc\<close>
  has no memory for a length of \<open>2\<^sup>6\<^sup>3\<close> or more. (Less memory than that shows
  as a \<open>read\<close> that fails, for it is given a null pointer.)
\<close>

definition fetch_data :: "ofile \<Rightarrow> u64 \<Rightarrow> u64 \<Rightarrow> ofile \<times> u8 list option" where
  "fetch_data fd offset len =
    (let (fd, pos) = lseek_set fd offset in
     if pos = -1 then (fd, None)
     else let (fd, rv, data) = file_read fd (unat len) in
       if word_of_int rv \<noteq> len then (fd, None)
       else if unat len \<ge> 2 ^ 63 then (fd, None)
       else (fd, Some data))"

partial_function (option) notes_loop ::
  "int \<Rightarrow> elfinfo \<Rightarrow> u8 list \<Rightarrow> u64 \<Rightarrow> buildid_info \<Rightarrow> nat \<Rightarrow> (int \<times> buildid_info) run" where
  "notes_loop pe info data offset out nhdr =
    (if end_notes (length data) nhdr then Some (Inr (0, out))
     else case getfield32 pe info data nhdr Nhdr_n_descsz of Inl e \<Rightarrow> Some (Inl e) | Inr descsz \<Rightarrow>
     (case getfield32 pe info data nhdr Nhdr_n_namesz of Inl e \<Rightarrow> Some (Inl e) | Inr namesz \<Rightarrow>
     (case getfield32 pe info data nhdr Nhdr_n_type of Inl e \<Rightarrow> Some (Inl e) | Inr type1 \<Rightarrow>
     (case strcmp_is (ascii ''GNU'') data (nhdr + 12) of Inl e \<Rightarrow> Some (Inl e) | Inr same \<Rightarrow>
       (if same \<and> type1 = NT_GNU_BUILD_ID then
          (if descsz > MAX_BUILDID_SIZE then notes_loop pe info data offset out nhdr
           else
             let desc = note_desc nhdr (ucast namesz) in
             (case bindR (load data desc (unat descsz)) to_hex of Inl e \<Rightarrow> Some (Inl e) | Inr h \<Rightarrow>
               Some (Inr (1, \<lparr>data_offset = offset + of_nat desc, bytes_size = ucast descsz, hex = Some h\<rparr>))))
        else notes_loop pe info data offset out (next_note nhdr (ucast namesz) (ucast descsz)))))))"

declare notes_loop.simps [code]

definition find_buildid ::
  "int \<Rightarrow> elfinfo \<Rightarrow> ofile \<Rightarrow> u64 \<Rightarrow> u64 \<Rightarrow> buildid_info \<Rightarrow> (int \<times> ofile \<times> buildid_info) run" where
  "find_buildid pe info fd offset len out =
    (case fetch_data fd offset len of
       (fd, None) \<Rightarrow> Some (Inr (-1, fd, out))
     | (fd, Some data) \<Rightarrow>
         bindO (notes_loop pe info data offset out 0) (\<lambda>(rv, out). Some (Inr (rv, fd, out))))"

section \<open>Program headers\<close>

text \<open>The index of the next note entry, its offset and its size; \<open>None\<close> is the value -1.\<close>

function find_notes_phdr ::
  "int \<Rightarrow> u8 list \<Rightarrow> elfinfo \<Rightarrow> nat \<Rightarrow> u16 \<Rightarrow> u16 \<Rightarrow> crash + (nat \<times> u64 \<times> u64) option" where
  "find_notes_phdr pe entries info i e_phnum e_phentsize =
    (if i < unat e_phnum then
       let phdr = i * unat e_phentsize in
       bindR (getfield32 pe info entries phdr Phdr_p_type) (\<lambda>p_type.
         if p_type \<noteq> PT_NOTE then find_notes_phdr pe entries info (i + 1) e_phnum e_phentsize
         else bindR (getaddr pe info entries phdr Phdr_p_offset) (\<lambda>offset.
           bindR (getaddr pe info entries phdr Phdr_p_filesz) (\<lambda>filesz.
             Inr (Some (i, offset, filesz)))))
     else Inr None)"
  by pat_completeness auto
termination
  by (relation "measure (\<lambda>(pe, entries, info, i, e_phnum, e_phentsize). unat e_phnum - i)") auto

declare find_notes_phdr.simps [simp del]

lemma find_notes_phdr_bounds:
  "find_notes_phdr pe entries info start e_phnum e_phentsize = Inr (Some (i, off, sz)) \<Longrightarrow>
    start \<le> i \<and> i < unat e_phnum"
proof (induction pe entries info start e_phnum e_phentsize rule: find_notes_phdr.induct)
  case (1 pe entries info start e_phnum e_phentsize)
  from "1.prems" show ?case
    by (subst (asm) find_notes_phdr.simps)
      (auto simp: bindR_eq_Inr Let_def split: if_splits dest!: "1.IH" [rotated 2])
qed

function phdr_loop ::
  "int \<Rightarrow> elfinfo \<Rightarrow> u8 list \<Rightarrow> u16 \<Rightarrow> u16 \<Rightarrow> nat \<Rightarrow> int \<Rightarrow> ofile \<Rightarrow> buildid_info \<Rightarrow>
    (int \<times> ofile \<times> buildid_info) run" where
  "phdr_loop pe info phdr e_phnum e_phentsize start rv fd out =
    bindO (Some (find_notes_phdr pe phdr info start e_phnum e_phentsize)) (\<lambda>r.
      case r of None \<Rightarrow> Some (Inr (rv, fd, out))
      | Some (i, offset, size1) \<Rightarrow>
          bindO (find_buildid pe info fd offset size1 out) (\<lambda>(rv, fd, out).
            if rv \<noteq> 0 then Some (Inr (rv, fd, out))
            else phdr_loop pe info phdr e_phnum e_phentsize (i + 1) rv fd out))"
  by pat_completeness auto
termination
  by (relation "measure (\<lambda>(pe, info, phdr, e_phnum, e_phentsize, start, rv, fd, out). unat e_phnum - start)")
    (auto dest!: find_notes_phdr_bounds)

declare phdr_loop.simps [simp del]

text \<open>The product of two promoted \<open>uint16_t\<close> is a signed \<open>int\<close>.\<close>

definition mul16 :: "u16 \<Rightarrow> u16 \<Rightarrow> crash + u64" where
  "mul16 a b = (if unat a * unat b < 2 ^ 31 then Inr (of_nat (unat a * unat b)) else Inl Overflow)"

definition find_buildid_phdr ::
  "int \<Rightarrow> int \<Rightarrow> ofile \<Rightarrow> elfinfo \<Rightarrow> u8 list \<Rightarrow> buildid_info \<Rightarrow> (int \<times> ofile \<times> buildid_info) run" where
  "find_buildid_phdr pe junk fd info ehdr out =
    bindO (Some (getfield16 pe info ehdr 0 Ehdr_e_phnum)) (\<lambda>e_phnum.
    bindO (Some (getaddr pe info ehdr 0 Ehdr_e_phoff)) (\<lambda>e_phoff.
    bindO (Some (getfield16 pe info ehdr 0 Ehdr_e_phentsize)) (\<lambda>e_phentsize.
      if e_phnum = 0 then Some (Inr (0, fd, out))
      else bindO (Some (mul16 e_phnum e_phentsize)) (\<lambda>len.
        case fetch_data fd e_phoff len of
          (fd, None) \<Rightarrow> Some (Inr (-1, fd, out))
        | (fd, Some phdr) \<Rightarrow> phdr_loop pe info phdr e_phnum e_phentsize 0 junk fd out))))"

section \<open>Section headers\<close>

function find_notes_shdr ::
  "int \<Rightarrow> u8 list \<Rightarrow> elfinfo \<Rightarrow> nat \<Rightarrow> u16 \<Rightarrow> u16 \<Rightarrow> crash + (nat \<times> u64 \<times> u64) option" where
  "find_notes_shdr pe entries info i e_shnum e_shentsize =
    (if i < unat e_shnum then
       let shdr = i * unat e_shentsize in
       bindR (getfield32 pe info entries shdr Shdr_sh_type) (\<lambda>sh_type.
         if sh_type \<noteq> SHT_NOTE then find_notes_shdr pe entries info (i + 1) e_shnum e_shentsize
         else bindR (getaddr pe info entries shdr Shdr_sh_offset) (\<lambda>offset.
           bindR (getaddr pe info entries shdr Shdr_sh_size) (\<lambda>size1.
             Inr (Some (i, offset, size1)))))
     else Inr None)"
  by pat_completeness auto
termination
  by (relation "measure (\<lambda>(pe, entries, info, i, e_shnum, e_shentsize). unat e_shnum - i)") auto

declare find_notes_shdr.simps [simp del]

lemma find_notes_shdr_bounds:
  "find_notes_shdr pe entries info start e_shnum e_shentsize = Inr (Some (i, off, sz)) \<Longrightarrow>
    start \<le> i \<and> i < unat e_shnum"
proof (induction pe entries info start e_shnum e_shentsize rule: find_notes_shdr.induct)
  case (1 pe entries info start e_shnum e_shentsize)
  from "1.prems" show ?case
    by (subst (asm) find_notes_shdr.simps)
      (auto simp: bindR_eq_Inr Let_def split: if_splits dest!: "1.IH" [rotated 2])
qed

function shdr_loop ::
  "int \<Rightarrow> elfinfo \<Rightarrow> u8 list \<Rightarrow> u16 \<Rightarrow> u16 \<Rightarrow> nat \<Rightarrow> int \<Rightarrow> ofile \<Rightarrow> buildid_info \<Rightarrow>
    (int \<times> ofile \<times> buildid_info) run" where
  "shdr_loop pe info shdr e_shnum e_shentsize start rv fd out =
    bindO (Some (find_notes_shdr pe shdr info start e_shnum e_shentsize)) (\<lambda>r.
      case r of None \<Rightarrow> Some (Inr (rv, fd, out))
      | Some (i, offset, size1) \<Rightarrow>
          bindO (find_buildid pe info fd offset size1 out) (\<lambda>(rv, fd, out).
            if rv \<noteq> 0 then Some (Inr (rv, fd, out))
            else shdr_loop pe info shdr e_shnum e_shentsize (i + 1) rv fd out))"
  by pat_completeness auto
termination
  by (relation "measure (\<lambda>(pe, info, shdr, e_shnum, e_shentsize, start, rv, fd, out). unat e_shnum - start)")
    (auto dest!: find_notes_shdr_bounds)

declare shdr_loop.simps [simp del]

definition find_buildid_shdr ::
  "int \<Rightarrow> int \<Rightarrow> ofile \<Rightarrow> elfinfo \<Rightarrow> u8 list \<Rightarrow> buildid_info \<Rightarrow> (int \<times> ofile \<times> buildid_info) run" where
  "find_buildid_shdr pe junk fd info ehdr out =
    bindO (Some (getfield16 pe info ehdr 0 Ehdr_e_shnum)) (\<lambda>e_shnum.
    bindO (Some (getaddr pe info ehdr 0 Ehdr_e_shoff)) (\<lambda>e_shoff.
    bindO (Some (getfield16 pe info ehdr 0 Ehdr_e_shentsize)) (\<lambda>e_shentsize.
      if e_shnum = 0 then Some (Inr (0, fd, out))
      else bindO (Some (mul16 e_shnum e_shentsize)) (\<lambda>len.
        case fetch_data fd e_shoff len of
          (fd, None) \<Rightarrow> Some (Inr (-1, fd, out))
        | (fd, Some shdr) \<Rightarrow> shdr_loop pe info shdr e_shnum e_shentsize 0 junk fd out))))"

text \<open>\<open>junk_ph\<close> and \<open>junk_sh\<close>: the values of \<open>rv\<close> in the two searches before it is set.\<close>

definition find_build_id ::
  "int \<Rightarrow> int \<Rightarrow> int \<Rightarrow> ofile \<Rightarrow> buildid_info \<Rightarrow> (int \<times> ofile \<times> buildid_info) run" where
  "find_build_id pe junk_ph junk_sh fd out =
    (case file_read fd 64 of (fd, rv, ehdrbuf) \<Rightarrow>
     if rv \<noteq> 64 then Some (Inr (-1, fd, out))
     else if \<not> (ehdrbuf ! 0 = 0x7f \<and> ehdrbuf ! 1 = 0x45 \<and> ehdrbuf ! 2 = 0x4c \<and> ehdrbuf ! 3 = 0x46) then
       Some (Inr (-1, fd, out))
     else
       let info = \<lparr>endian = uint (ehdrbuf ! 5), bits = uint (ehdrbuf ! 4)\<rparr> in
       if \<not> (bits info = ELFCLASS32 \<or> bits info = ELFCLASS64) then Some (Inr (-1, fd, out))
       else if \<not> (endian info = ELFDATA2LSB \<or> endian info = ELFDATA2MSB) then Some (Inr (-1, fd, out))
       else bindO (find_buildid_phdr pe junk_ph fd info ehdrbuf out) (\<lambda>(rv, fd, out).
         if rv \<noteq> 0 then Some (Inr (rv, fd, out))
         else find_buildid_shdr pe junk_sh fd info ehdrbuf out))"

section \<open>Editing\<close>

definition write_new_buildid :: "ofile \<Rightarrow> u64 \<Rightarrow> u8 list \<Rightarrow> u64 \<Rightarrow> ofile \<times> int" where
  "write_new_buildid fd offset data data_size =
    (case lseek_set fd offset of (fd, r) \<Rightarrow>
     if r < 0 then (fd, -1)
     else case file_write fd (take (unat data_size) data) of (fd, w) \<Rightarrow> (fd, 0))"

text \<open>
  The options that \<open>getopt_long\<close> returns, in order, each with its argument.
  \<open>None\<close>: \<open>help\<close> was called, and the program has exited.
\<close>

record options =
  verbose :: bool
  print :: bool
  newid_hex :: "u8 list option"

fun parse_options :: "(char \<times> u8 list) list \<Rightarrow> options \<Rightarrow> options option" where
  "parse_options [] opts = Some opts"
| "parse_options ((c, optarg) # rest) opts =
    (if c = CHR ''h'' \<or> c = CHR ''?'' then None
     else if c = CHR ''v'' then parse_options rest (opts\<lparr>verbose := True\<rparr>)
     else if c = CHR ''p'' then parse_options rest (opts\<lparr>print := True\<rparr>)
     else if c = CHR ''n'' then parse_options rest (opts\<lparr>newid_hex := Some optarg\<rparr>)
     else parse_options rest opts)"

text \<open>
  \<open>main\<close>, from the options on: \<open>args\<close> are the remaining arguments, \<open>open_file\<close> the result
  of \<open>open\<close> (\<open>None\<close> when it fails). The result is the exit value, the file (if it was
  opened) and what was printed to the standard output.
\<close>

definition edit_buildid :: "u8 list \<Rightarrow> buildid_info \<Rightarrow> ofile \<Rightarrow> crash + int \<times> ofile" where
  "edit_buildid new_hex info fd =
    bindR (if length new_hex mod 2 = 0 then from_hex new_hex else Inr None) (\<lambda>newid_bytes.
      case newid_bytes of None \<Rightarrow> Inr (1, fd)
      | Some bytes \<Rightarrow>
          if of_nat (length new_hex div 2) \<noteq> bytes_size info then Inr (1, fd)
          else (case write_new_buildid fd (data_offset info) bytes (bytes_size info) of (fd, rv) \<Rightarrow> Inr (rv, fd)))"

definition editbuildid_main :: "int \<Rightarrow> int \<Rightarrow> int \<Rightarrow> (char \<times> u8 list) list \<Rightarrow> u8 list list \<Rightarrow>
    (u8 list \<Rightarrow> ofile option) \<Rightarrow> (int \<times> ofile option \<times> u8 list) run" where
  "editbuildid_main pe junk_ph junk_sh optlist args open_file =
    (case parse_options optlist \<lparr>verbose = False, print = False, newid_hex = None\<rparr> of
       None \<Rightarrow> Some (Inr (0, None, []))
     | Some opts \<Rightarrow>
       if length args \<noteq> 1 then Some (Inr (1, None, []))
       else if print opts \<and> newid_hex opts \<noteq> None then Some (Inr (1, None, []))
       else if \<not> (print opts \<or> newid_hex opts \<noteq> None) then Some (Inr (1, None, []))
       else case open_file (args ! 0) of None \<Rightarrow> Some (Inr (1, None, []))
       | Some fd \<Rightarrow>
         bindO (find_build_id pe junk_ph junk_sh fd \<lparr>data_offset = 0, bytes_size = 0, hex = None\<rparr>)
           (\<lambda>(rv, fd, info).
             if rv \<le> 0 then Some (Inr (rv, Some fd, []))
             else if print opts then
               (case hex info of None \<Rightarrow> Some (Inl Null_pointer)
                | Some h \<Rightarrow> Some (Inr (0, Some fd, h @ [0x0a])))
             else bindO (Some (edit_buildid (the (newid_hex opts)) info fd)) (\<lambda>(rv, fd).
               Some (Inr (rv, Some fd, [])))))"

end
