(* ===== verification/BuildIdProps.thy ===== *)
theory BuildIdProps
  imports BuildId
begin

text \<open>
  Properties of the parts of \<open>editbuildid\<close>: hexadecimal strings parse and print back;
  \<open>pad4\<close> rounds up; a field is read in the byte order of the file whatever the machine's
  is, so the whole program does the same on both; and the walk over a note segment
  returns unless it meets an oversized build ID note.
\<close>

section \<open>Hexadecimal\<close>

text \<open>The digit of a nibble, and the digits of a string in lower case.\<close>

definition digit :: "u8 \<Rightarrow> u8" where
  "digit n = (if n < 10 then 0x30 + n else 0x57 + n)"

definition is_hex :: "u8 \<Rightarrow> bool" where
  "is_hex c \<longleftrightarrow> 0x30 \<le> c \<and> c \<le> 0x39 \<or> 0x61 \<le> c \<and> c \<le> 0x66 \<or> 0x41 \<le> c \<and> c \<le> 0x46"

definition lower :: "u8 \<Rightarrow> u8" where
  "lower c = (if 0x41 \<le> c \<and> c \<le> 0x46 then c + 0x20 else c)"

lemma nibble_digit: "n < 16 \<Longrightarrow> nibble_to_hex n = Inr (digit n)"
  by (auto simp: nibble_to_hex_def digit_def)

lemma unat_digit:
  assumes "n < 16"
  shows "unat (digit n) = (if unat n < 10 then 48 + unat n else 87 + unat n)"
proof -
  have "unat n < 16" using assms by (simp add: word_less_nat_alt)
  then show ?thesis by (simp add: digit_def word_less_nat_alt unat_word_ariths)
qed

lemma digit_nibble:
  assumes "n < 16"
  shows "hex_to_nibble (digit n) e = (n, e)"
proof -
  have n: "unat n < 16" using assms by (simp add: word_less_nat_alt)
  show ?thesis
  proof (cases "unat n < 10")
    case True
    then show ?thesis using unat_digit [OF assms]
      by (simp add: hex_to_nibble_def word_le_nat_alt) (simp add: digit_def word_less_nat_alt)
  next
    case False
    then show ?thesis using n unat_digit [OF assms]
      by (simp add: hex_to_nibble_def word_le_nat_alt) (simp add: digit_def word_less_nat_alt)
  qed
qed

lemma hex_to_nibble_error: "snd (hex_to_nibble c e) \<longleftrightarrow> e \<or> \<not> is_hex c"
  by (auto simp: hex_to_nibble_def is_hex_def)

lemma hex_to_nibble_lower:
  assumes "is_hex c"
  shows "fst (hex_to_nibble c e) < 16 \<and> digit (fst (hex_to_nibble c e)) = lower c"
proof -
  note nat_simps = word_le_nat_alt word_less_nat_alt
  from assms consider "48 \<le> unat c \<and> unat c \<le> 57" | "97 \<le> unat c \<and> unat c \<le> 102" | "65 \<le> unat c \<and> unat c \<le> 70"
    by (auto simp: is_hex_def word_le_nat_alt)
  then show ?thesis
  proof cases
    case 1
    then have "unat (c - 0x30) = unat c - 48" by (subst unat_sub) (simp_all add: nat_simps)
    moreover have "unat c - 48 < 10" using 1 by linarith
    ultimately show ?thesis using 1 by (simp add: hex_to_nibble_def digit_def lower_def nat_simps)
  next
    case 2
    then have "unat (c - 0x61) = unat c - 97" by (subst unat_sub) (simp_all add: nat_simps)
    with 2 have "unat (c - 0x61 + 10) = unat c - 87" 
      by (subst unat_add_lem [THEN iffD1]) (simp_all, linarith?)
    moreover have "\<not> unat c - 87 < 10" "unat c - 87 < 16" using 2 by arith+
    ultimately show ?thesis using 2 by (simp add: hex_to_nibble_def digit_def lower_def nat_simps)
  next
    case 3
    then have "unat (c - 0x41) = unat c - 65" by (subst unat_sub) (simp_all add: nat_simps)
    with 3 have "unat (c - 0x41 + 10) = unat c - 55" 
      by (subst unat_add_lem [THEN iffD1]) (simp_all, linarith?)
    moreover have "\<not> unat c - 55 < 10" "unat c - 55 < 16" using 3 by arith+
    ultimately show ?thesis using 3 by (simp add: hex_to_nibble_def digit_def lower_def nat_simps)
  qed
qed

lemma mask_F: "(0xF :: u8) = mask 4" "(0xF0 :: u8) = push_bit 4 (mask 4)"
  by (simp_all add: mask_eq_exp_minus_1)

lemma nibble_take: "(n :: u8) < 16 \<Longrightarrow> take_bit 4 n = n"
  by (simp add: word_unat_eq_iff unsigned_take_bit_eq word_less_nat_alt take_bit_nat_eq_self)

lemma take_nibble: "take_bit 4 (n :: u8) < 16"
  using take_bit_nat_less_exp [of 4 "unat n"] by (simp add: word_less_nat_alt unsigned_take_bit_eq)

lemma low_nibble_eq: "(b :: u8) AND 0xF = take_bit 4 b"
  by (simp add: mask_F take_bit_eq_mask)

lemma high_nibble_eq: "drop_bit 4 ((b :: u8) AND 0xF0) = take_bit 4 (drop_bit 4 b)"
  unfolding mask_F by (rule bit_word_eqI) (auto simp: bit_simps)

lemma nibbles_byte: "push_bit 4 (take_bit 4 (drop_bit 4 (b :: u8))) OR take_bit 4 b = b"
  by (rule bit_word_eqI) (auto simp: bit_simps)

lemma byte_nibbles:
  assumes "h < 16" and "l < 16"
  shows "take_bit 4 (drop_bit 4 (push_bit 4 h OR l)) = (h :: u8)" and "take_bit 4 (push_bit 4 h OR l) = (l :: u8)"
proof -
  have h: "h = take_bit 4 h" and l: "l = take_bit 4 l" using assms by (simp_all add: nibble_take)
  have "take_bit 4 (drop_bit 4 (push_bit 4 (take_bit 4 h) OR take_bit 4 l)) = take_bit 4 h"
    by (rule bit_word_eqI) (auto simp: bit_simps)
  then show "take_bit 4 (drop_bit 4 (push_bit 4 h OR l)) = h" using h l by simp
  have "take_bit 4 (push_bit 4 h OR take_bit 4 l) = take_bit 4 l"
    by (rule bit_word_eqI) (auto simp: bit_simps)
  then show "take_bit 4 (push_bit 4 h OR l) = l" using l by simp
qed

lemma to_hex_Cons:
  "to_hex (b # bs) = bindR (to_hex bs)
    (\<lambda>hex. Inr (digit (take_bit 4 (drop_bit 4 b)) # digit (take_bit 4 b) # hex))"
  by (simp add: low_nibble_eq high_nibble_eq nibble_digit take_nibble)

lemma to_hex_parses:
  "\<exists>h. to_hex data = Inr h \<and> length h = 2 * length data \<and> from_hex h = Inr (Some data)"
proof (induction data)
  case Nil
  show ?case by (simp add: from_hex_def)
next
  case (Cons b data)
  then obtain h where h: "to_hex data = Inr h" "length h = 2 * length data" "from_hex h = Inr (Some data)"
    by blast
  from h(2,3) have l: "from_hex_loop h = Some data" by (auto simp: from_hex_def split: if_splits)
  then show ?case using h(1,2)
    by (simp add: to_hex_Cons del: to_hex.simps)
      (simp add: from_hex_def digit_nibble take_nibble nibbles_byte)
qed

text \<open>Every byte string prints, and parses back to itself.\<close>

theorem hex_roundtrip:
  "\<exists>h. to_hex data = Inr h \<and> length h = 2 * length data \<and> from_hex h = Inr (Some data)"
  by (rule to_hex_parses)

lemma from_hex_cases:
  "case from_hex s of
     Inl e \<Rightarrow> e = Assert_failed \<and> odd (length s)
   | Inr None \<Rightarrow> even (length s) \<and> \<not> list_all is_hex s
   | Inr (Some data) \<Rightarrow> even (length s) \<and> list_all is_hex s \<and> to_hex data = Inr (map lower s)"
proof (cases "odd (length s)")
  case True
  then show ?thesis by (simp add: from_hex_def odd_iff_mod_2_eq_one)
next
  case False
  have "case from_hex_loop s of None \<Rightarrow> \<not> list_all is_hex s
    | Some data \<Rightarrow> list_all is_hex s \<and> to_hex data = Inr (map lower s)"
    using False
  proof (induction s rule: from_hex_loop.induct)
    case (1 h l rest)
    obtain hi e where hi: "hex_to_nibble h False = (hi, e)" by force
    obtain lo e' where lo: "hex_to_nibble l e = (lo, e')" by force
    have e: "e' \<longleftrightarrow> \<not> is_hex h \<or> \<not> is_hex l"
      using hex_to_nibble_error [of h False] hex_to_nibble_error [of l e] hi lo by simp
    show ?case
    proof (cases e')
      case True
      with hi lo e show ?thesis by auto
    next
      case False
      with e have hl: "is_hex h" "is_hex l" by auto
      have "hi < 16" "digit hi = lower h" using hex_to_nibble_lower [OF hl(1), of False] hi by simp_all
      moreover have "lo < 16" "digit lo = lower l" using hex_to_nibble_lower [OF hl(2), of e] lo by simp_all
      moreover have "case from_hex_loop rest of None \<Rightarrow> \<not> list_all is_hex rest
          | Some data \<Rightarrow> list_all is_hex rest \<and> to_hex data = Inr (map lower rest)"
        using "1.IH" hi lo False "1.prems" by simp
      moreover obtain b where b: "b = push_bit 4 hi OR lo" by blast
      ultimately show ?thesis using hi lo False hl byte_nibbles [of hi lo, folded b]
        by (auto simp: to_hex_Cons b [symmetric] simp del: to_hex.simps(2) split: option.splits)
    qed
  qed simp_all
  with False show ?thesis by (simp add: from_hex_def split: option.split_asm)
qed

text \<open>C21: which strings are refused, and what the others parse to.\<close>

theorem from_hex_correct:
  "case from_hex s of
     Inl e \<Rightarrow> e = Assert_failed \<and> odd (length s)
   | Inr None \<Rightarrow> even (length s) \<and> \<not> list_all is_hex s
   | Inr (Some data) \<Rightarrow> even (length s) \<and> list_all is_hex s \<and> to_hex data = Inr (map lower s)"
  by (rule from_hex_cases)

section \<open>Padding and note positions\<close>

lemma and_not_3: "(v :: u64) AND NOT 3 = v - take_bit 2 v"
proof -
  have "v - take_bit 2 v = v AND NOT (take_bit 2 v)"
    by (rule disjunctive_diff_eq_and_not) (rule bit_word_eqI, auto simp: bit_simps)
  also have "\<dots> = v AND NOT (mask 2)"
    by (rule bit_word_eqI) (auto simp: bit_simps)
  finally show ?thesis by (simp add: mask_eq_exp_minus_1)
qed

lemma unat_take2: "unat (take_bit 2 (v :: u64)) = unat v mod 4"
proof -
  have "unat (take_bit 2 v) = take_bit 2 (unat v)" by (rule unsigned_take_bit_eq)
  then show ?thesis by (simp only: take_bit_eq_mod) simp
qed

lemma pad4_nat: "pad4 v = of_nat (4 * ((unat v + 3) div 4))"
proof -
  define r where "r = take_bit 2 v"
  have m: "v AND 3 = r" by (simp add: r_def take_bit_eq_mask mask_eq_exp_minus_1)
  have r: "unat r = unat v mod 4" unfolding r_def by (rule unat_take2)
  have d: "v - r = of_nat (unat v - unat v mod 4)"
  proof -
    have "r \<le> v" using r by (simp add: word_le_nat_alt)
    then have "unat (v - r) = unat v - unat v mod 4" using r by (simp add: unat_sub)
    then have "of_nat (unat (v - r)) = (of_nat (unat v - unat v mod 4) :: u64)" by simp
    then show ?thesis by (simp only: of_nat_unat ucast_id)
  qed
  obtain q m where q: "unat v = 4 * q + m" "m < 4" "unat v mod 4 = m"
    using div_mult_mod_eq [of "unat v" 4] mod_less_divisor [of 4 "unat v"] by (metis mult.commute zero_less_numeral)
  show ?thesis
  proof (cases "m = 0")
    case True
    then have "r = 0" using r q(3) by (simp add: unat_eq_0)
    moreover have "4 * ((unat v + 3) div 4) = unat v" using q(1) True by simp
    ultimately show ?thesis using m by (simp only: pad4_def) simp
  next
    case False
    then have "r \<noteq> 0" using r q(3) by auto
    then have "pad4 v = of_nat (unat v - unat v mod 4) + of_nat 4"
      using m d and_not_3 [of v] by (simp add: pad4_def r_def)
    also have "\<dots> = of_nat (unat v - unat v mod 4 + 4)" by (simp only: of_nat_add)
    also have "unat v - unat v mod 4 + 4 = 4 * ((unat v + 3) div 4)"
    proof -
      have "(4 * q + m + 3) div 4 = q + 1" using False q(2) by (intro div_nat_eqI) simp_all
      then show ?thesis using q by simp
    qed
    finally show ?thesis .
  qed
qed

text \<open>Rounded up to a multiple of four, for a length that leaves room for it.\<close>

definition round4 :: "nat \<Rightarrow> nat" where
  "round4 n = 4 * ((n + 3) div 4)"

lemma round4_bounds: "n \<le> round4 n \<and> round4 n < n + 4 \<and> 4 dvd round4 n"
  unfolding round4_def by auto

lemma unat_pad4: "unat v \<le> 2 ^ 64 - 4 \<Longrightarrow> unat (pad4 v) = round4 (unat v)"
proof -
  assume "unat v \<le> 2 ^ 64 - 4"
  with round4_bounds [of "unat v"] have "round4 (unat v) < 2 ^ 64" by auto
  then have "unat (of_nat (round4 (unat v)) :: u64) = round4 (unat v)"
    by (simp add: unsigned_of_nat take_bit_nat_eq_self)
  then show ?thesis by (simp only: pad4_nat round4_def)
qed

text \<open>\<open>pad4\<close> rounds up to a multiple of four, and wraps around to 0 at the very end.\<close>

theorem pad4_correct:
  "unat (pad4 v) = (if unat v \<le> 2 ^ 64 - 4 then round4 (unat v) else 0)"
proof (cases "unat v \<le> 2 ^ 64 - 4")
  case True
  then show ?thesis using unat_pad4 by simp
next
  case False
  moreover have "unat v < 2 ^ 64" using unsigned_less [of v] by simp
  ultimately have "(unat v + 3) div 4 = 2 ^ 62" by (intro div_nat_eqI) simp_all
  then have "unat (pad4 v) = 0" unfolding pad4_nat by (simp add: unsigned_of_nat)
  with False show ?thesis by simp
qed

lemma unat_pad4_u16: "unat (pad4 (ucast (n :: u16))) = round4 (unat n)"
proof -
  have "unat n < 2 ^ 16" using unsigned_less [of n] by simp
  then show ?thesis using unat_pad4 [of "ucast n"] by (simp add: unsigned_ucast_eq take_bit_nat_eq_self)
qed

section \<open>Fields in the byte order of the file\<close>

definition valid_info :: "elfinfo \<Rightarrow> bool" where
  "valid_info info \<longleftrightarrow> (bits info = ELFCLASS32 \<or> bits info = ELFCLASS64) \<and>
    (endian info = ELFDATA2LSB \<or> endian info = ELFDATA2MSB)"

abbreviation byte_order :: "int \<Rightarrow> bool" where
  "byte_order pe \<equiv> pe = ELFDATA2LSB \<or> pe = ELFDATA2MSB"

definition offset_of :: "elfinfo \<Rightarrow> field \<Rightarrow> nat" where
  "offset_of info fld = (if bits info = ELFCLASS64 then fst fld else snd fld)"

definition addr_size :: "elfinfo \<Rightarrow> nat" where
  "addr_size info = (if bits info = ELFCLASS64 then 8 else 4)"

lemma swap_mem:
  assumes "valid_info info" and "byte_order pe" and "length bs = n"
  shows "(if endian info \<noteq> pe then bswap n (mem_nat pe bs) else mem_nat pe bs) = mem_nat (endian info) bs"
  using assms by (intro bswap_mem) (auto simp: valid_info_def)

lemma swap_window:
  assumes "valid_info info" and "byte_order pe" and "p + n \<le> length buf"
    and "k = n"
  shows "(let r = mem_nat pe (window buf p n) in Inr (if endian info \<noteq> pe then bswap k r else r)) =
    Inr (mem_nat (endian info) (window buf p n))"
    and "(let r = mem_nat pe (window buf p n) in Inr (of_nat (if endian info \<noteq> pe then bswap k r else r))) =
    Inr (of_nat (mem_nat (endian info) (window buf p n)))"
  using swap_mem [OF assms(1,2) length_window_fit [OF assms(3)]] assms(4) by (simp_all only: Let_def)

lemma getfield_eq:
  assumes "valid_info info" and "byte_order pe"
  shows "getfield n pe info buf p fld =
    bindR (load buf (p + offset_of info fld) n) (\<lambda>bs. Inr (mem_nat (endian info) bs))"
proof (cases "p + offset_of info fld + n \<le> length buf")
  case True
  then show ?thesis using swap_window(1) [OF assms True refl] assms(1)
    by (auto simp: getfield_def offset_of_def valid_info_def)
next
  case False
  then show ?thesis using assms(1)
    by (auto simp: getfield_def offset_of_def valid_info_def load_def)
qed

lemma getfield32_eq:
  "valid_info info \<Longrightarrow> byte_order pe \<Longrightarrow> getfield32 pe info buf p fld =
    bindR (load buf (p + offset_of info fld) 4) (\<lambda>bs. Inr (of_nat (mem_nat (endian info) bs)))"
  by (simp add: getfield32_def getfield_eq bindR_assoc)

lemma getfield16_eq:
  "valid_info info \<Longrightarrow> byte_order pe \<Longrightarrow> getfield16 pe info buf p fld =
    bindR (load buf (p + offset_of info fld) 2) (\<lambda>bs. Inr (of_nat (mem_nat (endian info) bs)))"
  by (simp add: getfield16_def getfield_eq bindR_assoc)

lemma getaddr_eq:
  assumes "valid_info info" and "byte_order pe"
  shows "getaddr pe info buf p fld =
    bindR (load buf (p + offset_of info fld) (addr_size info)) (\<lambda>bs. Inr (of_nat (mem_nat (endian info) bs)))"
proof (cases "p + offset_of info fld + addr_size info \<le> length buf")
  case True
  then show ?thesis using swap_window(2) [OF assms True, of 8] swap_window(2) [OF assms True, of 4] assms(1)
    by (auto simp: getaddr_def offset_of_def addr_size_def valid_info_def)
next
  case False
  then show ?thesis using assms(1)
    by (auto simp: getaddr_def offset_of_def addr_size_def valid_info_def load_def)
qed

lemmas fields_eq = getfield16_eq getfield32_eq getaddr_eq

section \<open>The walk over the notes\<close>

text \<open>What the loop sees at a position: the end, a crash, a build ID note, another note.\<close>

datatype sight = At_end | Crashes crash | Build_id u32 u32 | Other u32 u32

definition sight_at :: "int \<Rightarrow> elfinfo \<Rightarrow> u8 list \<Rightarrow> nat \<Rightarrow> sight" where
  "sight_at pe info data p =
    (if end_notes (length data) p then At_end
     else case bindR (getfield32 pe info data p Nhdr_n_descsz) (\<lambda>descsz.
         bindR (getfield32 pe info data p Nhdr_n_namesz) (\<lambda>namesz.
         bindR (getfield32 pe info data p Nhdr_n_type) (\<lambda>type1.
         bindR (strcmp_is (ascii ''GNU'') data (p + 12)) (\<lambda>same.
           Inr (descsz, namesz, same \<and> type1 = NT_GNU_BUILD_ID))))) of
       Inl e \<Rightarrow> Crashes e
     | Inr (descsz, namesz, found) \<Rightarrow> if found then Build_id namesz descsz else Other namesz descsz)"

definition found_at :: "u8 list \<Rightarrow> u64 \<Rightarrow> nat \<Rightarrow> u32 \<Rightarrow> u32 \<Rightarrow> crash + int \<times> buildid_info" where
  "found_at data offset p namesz descsz =
    (let desc = note_desc p (ucast namesz) in
     bindR (load data desc (unat descsz)) (\<lambda>d. bindR (to_hex d) (\<lambda>h.
       Inr (1, \<lparr>data_offset = offset + of_nat desc, bytes_size = ucast descsz, hex = Some h\<rparr>))))"

lemma notes_loop_sight:
  "notes_loop pe info data offset out p =
    (case sight_at pe info data p of
       At_end \<Rightarrow> Some (Inr (0, out))
     | Crashes e \<Rightarrow> Some (Inl e)
     | Build_id namesz descsz \<Rightarrow>
         if descsz > MAX_BUILDID_SIZE then notes_loop pe info data offset out p
         else Some (found_at data offset p namesz descsz)
     | Other namesz descsz \<Rightarrow> notes_loop pe info data offset out (next_note p (ucast namesz) (ucast descsz)))"
  by (subst notes_loop.simps, unfold sight_at_def found_at_def Let_def bindR_def)
    (simp split: sum.split)

text \<open>A build ID note whose size is over the limit: the loop comes back to it for ever.\<close>

definition oversized :: "int \<Rightarrow> elfinfo \<Rightarrow> u8 list \<Rightarrow> nat \<Rightarrow> bool" where
  "oversized pe info data p \<longleftrightarrow>
    (case sight_at pe info data p of Build_id namesz descsz \<Rightarrow> descsz > MAX_BUILDID_SIZE | _ \<Rightarrow> False)"

lemma notes_loop_not_oversized:
  assumes "notes_loop pe info data offset out p = Some r"
  shows "\<not> oversized pe info data p"
proof (rule notes_loop.raw_induct [where P = "\<lambda>pe info data offset out p r. \<not> oversized pe info data p", OF _ assms])
  fix f :: "int \<Rightarrow> elfinfo \<Rightarrow> u8 list \<Rightarrow> u64 \<Rightarrow> buildid_info \<Rightarrow> nat \<Rightarrow> (int \<times> buildid_info) run"
  fix pe info data offset out p r
  assume IH: "\<And>pe info data offset out p r. f pe info data offset out p = Some r \<Longrightarrow> \<not> oversized pe info data p"
  assume body: "(if end_notes (length data) p then Some (Inr (0, out))
     else case getfield32 pe info data p Nhdr_n_descsz of Inl e \<Rightarrow> Some (Inl e) | Inr descsz \<Rightarrow>
     (case getfield32 pe info data p Nhdr_n_namesz of Inl e \<Rightarrow> Some (Inl e) | Inr namesz \<Rightarrow>
     (case getfield32 pe info data p Nhdr_n_type of Inl e \<Rightarrow> Some (Inl e) | Inr type1 \<Rightarrow>
     (case strcmp_is (ascii ''GNU'') data (p + 12) of Inl e \<Rightarrow> Some (Inl e) | Inr same \<Rightarrow>
       (if same \<and> type1 = NT_GNU_BUILD_ID then
          (if descsz > MAX_BUILDID_SIZE then f pe info data offset out p
           else
             let desc = note_desc p (ucast namesz) in
             (case bindR (load data desc (unat descsz)) to_hex of Inl e \<Rightarrow> Some (Inl e) | Inr h \<Rightarrow>
               Some (Inr (1, \<lparr>data_offset = offset + of_nat desc, bytes_size = ucast descsz, hex = Some h\<rparr>))))
        else f pe info data offset out (next_note p (ucast namesz) (ucast descsz))))))) = Some r"
  show "\<not> oversized pe info data p"
  proof
    assume o1: "oversized pe info data p"
    with body have "f pe info data offset out p = Some r"
      by (auto simp: oversized_def sight_at_def bindR_def split: sum.splits if_splits)
    from IH [OF this] o1 show False ..
  qed
qed

inductive note_step :: "int \<Rightarrow> elfinfo \<Rightarrow> u8 list \<Rightarrow> nat \<Rightarrow> nat \<Rightarrow> bool" for pe info data where
  "sight_at pe info data p = Other namesz descsz \<Longrightarrow>
    note_step pe info data p (next_note p (ucast namesz) (ucast descsz))"

inductive_cases note_stepE: "note_step pe info data p q"

lemma note_step_grows: "note_step pe info data p q \<Longrightarrow> p < length data \<and> p < q"
  by (auto simp: next_note_def sight_at_def end_notes_def elim!: note_stepE split: if_splits)

lemma notes_loop_step:
  "note_step pe info data p q \<Longrightarrow> notes_loop pe info data offset out p = notes_loop pe info data offset out q"
  by (erule note_stepE) (subst notes_loop_sight, simp)

lemma notes_loop_steps:
  "(note_step pe info data)\<^sup>*\<^sup>* p q \<Longrightarrow>
    notes_loop pe info data offset out p = notes_loop pe info data offset out q"
  by (induction rule: rtranclp_induct) (simp_all add: notes_loop_step)

lemma notes_loop_returns:
  assumes "\<And>q. (note_step pe info data)\<^sup>*\<^sup>* p q \<Longrightarrow> \<not> oversized pe info data q"
  shows "notes_loop pe info data offset out p \<noteq> None"
  using assms
proof (induction "length data - p" arbitrary: p rule: less_induct)
  case less
  show ?case
  proof (cases "sight_at pe info data p")
    case (Other n d)
    then have s: "note_step pe info data p (next_note p (ucast n) (ucast d))" by (rule note_step.intros)
    let ?q = "next_note p (ucast n) (ucast d)"
    have "\<not> oversized pe info data q" if "(note_step pe info data)\<^sup>*\<^sup>* ?q q" for q
      by (rule less.prems) (rule converse_rtranclp_into_rtranclp [where r = "note_step pe info data", OF s that])
    moreover have "length data - ?q < length data - p"
      using note_step_grows [OF s] by (intro diff_less_mono2) simp_all
    ultimately have "notes_loop pe info data offset out ?q \<noteq> None" by (intro less.hyps)
    then show ?thesis using notes_loop_step [OF s] by simp
  next
    case (Build_id n d)
    moreover have "\<not> oversized pe info data p" by (rule less.prems) simp
    ultimately show ?thesis by (subst notes_loop_sight) (simp add: oversized_def)
  qed (subst notes_loop_sight, simp)+
qed

text \<open>
  C19: the search of a note segment does not return exactly when the walk reaches a
  build ID note of more than 512 bytes: it means to skip the note, and stays at it.
\<close>

theorem notes_loop_terminates_iff:
  "notes_loop pe info data offset out 0 = None \<longleftrightarrow>
    (\<exists>p. (note_step pe info data)\<^sup>*\<^sup>* 0 p \<and> oversized pe info data p)"
proof
  assume "notes_loop pe info data offset out 0 = None"
  then show "\<exists>p. (note_step pe info data)\<^sup>*\<^sup>* 0 p \<and> oversized pe info data p"
    using notes_loop_returns by blast
next
  assume "\<exists>p. (note_step pe info data)\<^sup>*\<^sup>* 0 p \<and> oversized pe info data p"
  then obtain p where p: "(note_step pe info data)\<^sup>*\<^sup>* 0 p" "oversized pe info data p" by blast
  from p(2) have "notes_loop pe info data offset out p = None"
    using notes_loop_not_oversized by (cases "notes_loop pe info data offset out p") auto
  then show "notes_loop pe info data offset out 0 = None" using notes_loop_steps [OF p(1)] by simp
qed

section \<open>The byte order of the machine does not matter\<close>

lemma sight_at_portable:
  "valid_info info \<Longrightarrow> byte_order pe \<Longrightarrow> byte_order pe' \<Longrightarrow> sight_at pe info data p = sight_at pe' info data p"
  by (simp add: sight_at_def getfield32_eq)

lemma notes_loop_portable:
  assumes "valid_info info" and "byte_order pe" and "byte_order pe'"
  shows "notes_loop pe info data offset out p = notes_loop pe' info data offset out p"
proof (induction "length data - p" arbitrary: p rule: less_induct)
  case less
  note same = sight_at_portable [OF assms, of data p]
  show ?case
  proof (cases "oversized pe info data p")
    case True
    moreover have "oversized pe' info data p" using True same by (simp add: oversized_def)
    ultimately show ?thesis using notes_loop_not_oversized
      by (cases "notes_loop pe info data offset out p"; cases "notes_loop pe' info data offset out p") auto
  next
    case False
    show ?thesis
    proof (cases "sight_at pe info data p")
      case (Other n d)
      then have "note_step pe info data p (next_note p (ucast n) (ucast d))" by (rule note_step.intros)
      from note_step_grows [OF this] have "length data - next_note p (ucast n) (ucast d) < length data - p"
        by (intro diff_less_mono2) simp_all
      from less [OF this] Other same show ?thesis by (simp add: notes_loop_sight [of _ info data offset out p])
    next
      case (Build_id n d)
      moreover have "sight_at pe' info data p = Build_id n d" using Build_id same by simp
      ultimately show ?thesis using False
        by (simp add: notes_loop_sight [of _ info data offset out p] oversized_def)
    qed (use same in \<open>simp add: notes_loop_sight [of _ info data offset out p]\<close>)+
  qed
qed

lemma find_buildid_portable:
  "valid_info info \<Longrightarrow> byte_order pe \<Longrightarrow> byte_order pe' \<Longrightarrow>
    find_buildid pe info fd offset len out = find_buildid pe' info fd offset len out"
  by (simp add: find_buildid_def notes_loop_portable [of info pe pe'] split: prod.split option.split)

lemma find_notes_phdr_portable:
  assumes "valid_info info" and "byte_order pe" and "byte_order pe'"
  shows "find_notes_phdr pe entries info i n sz = find_notes_phdr pe' entries info i n sz"
proof (induction "unat n - i" arbitrary: i rule: less_induct)
  case less
  show ?case using less [of "i + 1"] assms
    by (simp add: find_notes_phdr.simps [of _ entries info i] fields_eq cong: if_cong)
qed

lemma find_notes_shdr_portable:
  assumes "valid_info info" and "byte_order pe" and "byte_order pe'"
  shows "find_notes_shdr pe entries info i n sz = find_notes_shdr pe' entries info i n sz"
proof (induction "unat n - i" arbitrary: i rule: less_induct)
  case less
  show ?case using less [of "i + 1"] assms
    by (simp add: find_notes_shdr.simps [of _ entries info i] fields_eq cong: if_cong)
qed

lemma phdr_loop_portable:
  assumes "valid_info info" and "byte_order pe" and "byte_order pe'"
  shows "phdr_loop pe info phdr n sz i rv fd out = phdr_loop pe' info phdr n sz i rv fd out"
proof (induction "unat n - i" arbitrary: i rv fd out rule: less_induct)
  case less
  have "phdr_loop pe info phdr n sz (j + 1) rv fd out = phdr_loop pe' info phdr n sz (j + 1) rv fd out"
    if "find_notes_phdr pe' phdr info i n sz = Inr (Some (j, off, size1))" for j off size1 rv fd out
    using find_notes_phdr_bounds [OF that] by (intro less diff_less_mono2) simp_all
  then show ?case
    by (subst (1 2) phdr_loop.simps)
      (auto simp: find_notes_phdr_portable [OF assms] find_buildid_portable [OF assms]
        split: option.split intro!: bindO_cong)
qed

lemma shdr_loop_portable:
  assumes "valid_info info" and "byte_order pe" and "byte_order pe'"
  shows "shdr_loop pe info shdr n sz i rv fd out = shdr_loop pe' info shdr n sz i rv fd out"
proof (induction "unat n - i" arbitrary: i rv fd out rule: less_induct)
  case less
  have "shdr_loop pe info shdr n sz (j + 1) rv fd out = shdr_loop pe' info shdr n sz (j + 1) rv fd out"
    if "find_notes_shdr pe' shdr info i n sz = Inr (Some (j, off, size1))" for j off size1 rv fd out
    using find_notes_shdr_bounds [OF that] by (intro less diff_less_mono2) simp_all
  then show ?case
    by (subst (1 2) shdr_loop.simps)
      (auto simp: find_notes_shdr_portable [OF assms] find_buildid_portable [OF assms]
        split: option.split intro!: bindO_cong)
qed

lemma find_build_id_portable:
  assumes "byte_order pe" and "byte_order pe'"
  shows "find_build_id pe j1 j2 fd out = find_build_id pe' j1 j2 fd out"
proof -
  have p: "find_buildid_phdr pe j1 fd info ehdr out = find_buildid_phdr pe' j1 fd info ehdr out"
    if v: "valid_info info" for info fd ehdr out
  proof -
    have l: "phdr_loop pe info = phdr_loop pe' info"
      by (intro ext phdr_loop_portable [OF v assms])
    show ?thesis
      unfolding find_buildid_phdr_def fields_eq [OF v assms(1)] fields_eq [OF v assms(2)] l by (rule refl)
  qed
  have s: "find_buildid_shdr pe j2 fd info ehdr out = find_buildid_shdr pe' j2 fd info ehdr out"
    if v: "valid_info info" for info fd ehdr out
  proof -
    have l: "shdr_loop pe info = shdr_loop pe' info"
      by (intro ext shdr_loop_portable [OF v assms])
    show ?thesis
      unfolding find_buildid_shdr_def fields_eq [OF v assms(1)] fields_eq [OF v assms(2)] l by (rule refl)
  qed
  show ?thesis
    using p s by (auto simp: find_build_id_def Let_def valid_info_def split: prod.split intro!: bindO_cong)
qed

text \<open>C20: the program does the same on machines of either byte order.\<close>

theorem editbuildid_portable:
  "editbuildid_main ELFDATA2LSB j1 j2 opts args open_file =
   editbuildid_main ELFDATA2MSB j1 j2 opts args open_file"
proof -
  have "find_build_id ELFDATA2LSB j1 j2 = find_build_id ELFDATA2MSB j1 j2"
    by (intro ext find_build_id_portable) simp_all
  then show ?thesis unfolding editbuildid_main_def by (rule arg_cong)
qed

end
