(* ===== verification/BuildIdEdit.thy ===== *)
theory BuildIdEdit
  imports BuildIdProps
begin

text \<open>
  What \<open>editbuildid\<close> does to files: on a segment that holds a list of notes the search
  refines the search of the list; the edit replaces the descriptor of the build ID note
  and nothing else; what it does when calls fail.
\<close>

section \<open>Note segments as lists of notes\<close>

text \<open>A note, its bytes in a segment, and the notes the search is for.\<close>

datatype elfnote = Note (n_name: "u8 list") (n_type: u32) (n_desc: "u8 list")

definition padded :: "u8 list \<Rightarrow> u8 list" where
  "padded xs = xs @ replicate (round4 (length xs) - length xs) 0"

definition note_header :: "int \<Rightarrow> elfnote \<Rightarrow> u8 list" where
  "note_header e n = mem_bytes e 4 (length (n_name n)) @ mem_bytes e 4 (length (n_desc n)) @
    mem_bytes e 4 (unat (n_type n))"

definition encode_note :: "int \<Rightarrow> elfnote \<Rightarrow> u8 list" where
  "encode_note e n = note_header e n @ padded (n_name n) @ padded (n_desc n)"

definition encode_notes :: "int \<Rightarrow> elfnote list \<Rightarrow> u8 list" where
  "encode_notes e ns = concat (map (encode_note e) ns)"

definition is_build_id :: "elfnote \<Rightarrow> bool" where
  "is_build_id n \<longleftrightarrow> takeWhile (\<lambda>c. c \<noteq> 0) (n_name n) = ascii ''GNU'' \<and> n_type n = NT_GNU_BUILD_ID"

text \<open>
  Sizes fit in 16 bits, the name is a C string, a build ID has at most 512 bytes.
\<close>

definition wf_note :: "elfnote \<Rightarrow> bool" where
  "wf_note n \<longleftrightarrow> length (n_name n) < 2 ^ 16 \<and> length (n_desc n) < 2 ^ 16 \<and> 0 \<in> set (n_name n) \<and>
    (is_build_id n \<longrightarrow> length (n_desc n) \<le> 512)"

fun locate_build_id :: "nat \<Rightarrow> elfnote list \<Rightarrow> (nat \<times> u8 list) option" where
  "locate_build_id p [] = None"
| "locate_build_id p (n # ns) =
    (if is_build_id n then Some (p + 12 + round4 (length (n_name n)), n_desc n)
     else locate_build_id (p + 12 + round4 (length (n_name n)) + round4 (length (n_desc n))) ns)"

lemma length_padded [simp]: "length (padded xs) = round4 (length xs)"
  using round4_bounds [of "length xs"] by (simp add: padded_def)

lemma length_note_header [simp]: "length (note_header e n) = 12"
  by (simp add: note_header_def)

lemma load_mid: "length pre = p \<Longrightarrow> length xs = n \<Longrightarrow> load (pre @ xs @ rest) p n = Inr xs"
  using window_mid [of pre p xs n rest] by (simp add: load_def)

lemma strcmp_is_cstring:
  assumes "0 \<in> set name" and "0 \<notin> set s" and "length pre = p"
  shows "strcmp_is s (pre @ name @ rest) p = Inr (takeWhile (\<lambda>c. c \<noteq> 0) name = s)"
  using assms
proof (induction s arbitrary: pre p name)
  case Nil
  then obtain c name' where "name = c # name'" by (cases name) auto
  then show ?case using Nil load_mid [of pre p "[c]" 1 "name' @ rest"] by simp
next
  case (Cons a s)
  then obtain c name' where n: "name = c # name'" by (cases name) auto
  have l: "load (pre @ name @ rest) p 1 = Inr [c]"
    using n Cons.prems(3) load_mid [of pre p "[c]" 1 "name' @ rest"] by simp
  show ?case
  proof (cases "c = a")
    case True
    with Cons.prems n have "strcmp_is s ((pre @ [c]) @ name' @ rest) (p + 1) = Inr (takeWhile (\<lambda>c. c \<noteq> 0) name' = s)"
      by (intro Cons.IH) auto
    then show ?thesis using l n True Cons.prems(2) by auto
  next
    case False
    then show ?thesis using l n by simp
  qed
qed

lemma header_fields:
  assumes v: "valid_info info" "byte_order pe" and p: "length pre = p"
    and d: "data = pre @ note_header (endian info) n @ rest"
    and n: "length (n_name n) < 2 ^ 32" "length (n_desc n) < 2 ^ 32"
  shows "getfield32 pe info data p Nhdr_n_namesz = Inr (of_nat (length (n_name n)))"
    and "getfield32 pe info data p Nhdr_n_descsz = Inr (of_nat (length (n_desc n)))"
    and "getfield32 pe info data p Nhdr_n_type = Inr (n_type n)"
proof -
  let ?e = "endian info"
  let ?a = "mem_bytes ?e 4 (length (n_name n))" and ?b = "mem_bytes ?e 4 (length (n_desc n))"
    and ?c = "mem_bytes ?e 4 (unat (n_type n))"
  have "data = pre @ ?a @ (?b @ ?c @ rest)" "data = (pre @ ?a) @ ?b @ (?c @ rest)"
    "data = (pre @ ?a @ ?b) @ ?c @ rest"
    by (simp_all add: d note_header_def)
  then have l: "load data p 4 = Inr ?a" "load data (p + 4) 4 = Inr ?b" "load data (p + 8) 4 = Inr ?c"
    using p load_mid [of pre p ?a 4] load_mid [of "pre @ ?a" "p + 4" ?b 4]
      load_mid [of "pre @ ?a @ ?b" "p + 8" ?c 4] by simp_all
  have o1: "offset_of info Nhdr_n_namesz = 0" "offset_of info Nhdr_n_descsz = 4" "offset_of info Nhdr_n_type = 8"
    by (simp_all add: offset_of_def)
  have t: "unat (n_type n) < 256 ^ 4" using unsigned_less [of "n_type n"] by simp
  show "getfield32 pe info data p Nhdr_n_namesz = Inr (of_nat (length (n_name n)))"
    using n(1) l(1) by (simp only: getfield32_eq [OF v] o1 add_0_right bindR_simps) (simp add: mem_nat_bytes)
  show "getfield32 pe info data p Nhdr_n_descsz = Inr (of_nat (length (n_desc n)))"
    using n(2) l(2) by (simp only: getfield32_eq [OF v] o1 bindR_simps) (simp add: mem_nat_bytes)
  show "getfield32 pe info data p Nhdr_n_type = Inr (n_type n)"
    using t l(3) by (simp only: getfield32_eq [OF v] o1 bindR_simps) (simp add: mem_nat_bytes)
qed

lemma ascii_GNU: "ascii ''GNU'' = [0x47, 0x4e, 0x55]"
  by (simp add: ascii_def)

lemma sight_note:
  assumes v: "valid_info info" "byte_order pe" and p: "length pre = p"
    and d: "data = pre @ encode_note (endian info) n @ rest" and n: "wf_note n"
  shows "sight_at pe info data p =
    (if is_build_id n then Build_id (of_nat (length (n_name n))) (of_nat (length (n_desc n)))
     else Other (of_nat (length (n_name n))) (of_nat (length (n_desc n))))"
proof -
  let ?h = "note_header (endian info) n"
  have e: "\<not> end_notes (length data) p" using d p by (simp add: end_notes_def encode_note_def)
  have d1: "data = pre @ ?h @ (padded (n_name n) @ padded (n_desc n) @ rest)"
    using d by (simp add: encode_note_def)
  have d2: "data = (pre @ ?h) @ n_name n @
      (replicate (round4 (length (n_name n)) - length (n_name n)) 0 @ padded (n_desc n) @ rest)"
    using d by (simp add: encode_note_def padded_def)
  have s: "strcmp_is (ascii ''GNU'') data (p + 12) = Inr (takeWhile (\<lambda>c. c \<noteq> 0) (n_name n) = ascii ''GNU'')"
    unfolding d2 by (rule strcmp_is_cstring) (use n p in \<open>simp_all add: wf_note_def ascii_GNU\<close>)
  from n have sz: "length (n_name n) < 2 ^ 32" "length (n_desc n) < 2 ^ 32" by (simp_all add: wf_note_def)
  show ?thesis
    using e s header_fields [OF v p d1 sz] by (simp add: sight_at_def is_build_id_def)
qed

lemma next_note_encoded:
  assumes "a < 2 ^ 16" and "b < 2 ^ 16"
  shows "next_note p (ucast (of_nat a :: u32)) (ucast (of_nat b :: u32)) = p + 12 + round4 a + round4 b"
    and "note_desc p (ucast (of_nat a :: u32)) = p + 12 + round4 a"
proof -
  have "unat (ucast (of_nat a :: u32) :: u16) = a" "unat (ucast (of_nat b :: u32) :: u16) = b"
    using assms by (simp_all add: unsigned_ucast_eq unsigned_of_nat take_bit_nat_eq_self)
  then show "next_note p (ucast (of_nat a :: u32)) (ucast (of_nat b :: u32)) = p + 12 + round4 a + round4 b"
    and "note_desc p (ucast (of_nat a :: u32)) = p + 12 + round4 a"
    by (simp_all only: next_note_def note_desc_def unat_pad4_u16)
qed

definition found_info :: "u64 \<Rightarrow> nat \<times> u8 list \<Rightarrow> buildid_info" where
  "found_info offset f = (case f of (p, d) \<Rightarrow>
    \<lparr>data_offset = offset + of_nat p, bytes_size = of_nat (length d),
     hex = (case to_hex d of Inl e \<Rightarrow> None | Inr h \<Rightarrow> Some h)\<rparr>)"

lemma notes_loop_encoded:
  assumes v: "valid_info info" "byte_order pe" and "list_all wf_note ns" and "length pre = p"
    and "data = pre @ encode_notes (endian info) ns"
  shows "notes_loop pe info data offset out p =
    Some (Inr (case locate_build_id p ns of None \<Rightarrow> (0, out) | Some f \<Rightarrow> (1, found_info offset f)))"
  using assms(3-5)
proof (induction ns arbitrary: pre p)
  case Nil
  then show ?case by (subst notes_loop_sight) (simp add: sight_at_def end_notes_def encode_notes_def)
next
  case (Cons n ns)
  let ?e = "endian info"
  from Cons.prems have n: "wf_note n" and ns: "list_all wf_note ns" by simp_all
  have d: "data = pre @ encode_note ?e n @ encode_notes ?e ns"
    using Cons.prems(3) by (simp add: encode_notes_def)
  from n have sz: "length (n_name n) < 2 ^ 16" "length (n_desc n) < 2 ^ 16" by (simp_all add: wf_note_def)
  note sight = sight_note [OF v Cons.prems(2) d n]
  show ?case
  proof (cases "is_build_id n")
    case False
    let ?p = "p + 12 + round4 (length (n_name n)) + round4 (length (n_desc n))"
    have "notes_loop pe info data offset out ?p =
        Some (Inr (case locate_build_id ?p ns of None \<Rightarrow> (0, out) | Some f \<Rightarrow> (1, found_info offset f)))"
      using Cons.prems(2) d
      by (intro Cons.IH [where pre = "pre @ encode_note ?e n"] ns) (simp_all add: encode_note_def)
    then show ?thesis using False sight by (subst notes_loop_sight) (simp add: next_note_encoded [OF sz])
  next
    case True
    let ?p = "p + 12 + round4 (length (n_name n))"
    from True n have 512: "length (n_desc n) \<le> 512" by (simp add: wf_note_def)
    then have "\<not> (of_nat (length (n_desc n)) :: u32) > MAX_BUILDID_SIZE"
      by (simp add: word_less_nat_alt unsigned_of_nat take_bit_nat_eq_self)
    moreover have "load data ?p (length (n_desc n)) = Inr (n_desc n)"
      using load_mid [of "pre @ note_header ?e n @ padded (n_name n)" ?p "n_desc n" "length (n_desc n)"
          "replicate (round4 (length (n_desc n)) - length (n_desc n)) 0 @ encode_notes ?e ns"] Cons.prems(2)
      by (simp add: d encode_note_def padded_def [of "n_desc n"])
    moreover obtain h where "to_hex (n_desc n) = Inr h" using to_hex_parses [of "n_desc n"] by blast
    moreover have "unat (of_nat (length (n_desc n)) :: u32) = length (n_desc n)"
      "ucast (of_nat (length (n_desc n)) :: u32) = (of_nat (length (n_desc n)) :: u64)"
      using 512 by (simp_all add: unsigned_of_nat take_bit_nat_eq_self)
    ultimately show ?thesis using True sight
      by (subst notes_loop_sight) (simp add: found_at_def Let_def next_note_encoded(2) [OF sz] found_info_def)
  qed
qed

section \<open>Reading a part of the file\<close>

lemma fetch_data_bytes:
  assumes "fetch_data fd offset len = (fd', r)"
  shows "file_bytes fd' = file_bytes fd \<and> file_env fd' = file_env fd"
  using assms unfolding fetch_data_def
  by (auto split: prod.splits if_splits dest!: lseek_set_bytes file_read_bytes)

lemma lseek_set_pos:
  "lseek_set fd offset = (fd', r) \<Longrightarrow> r \<noteq> -1 \<Longrightarrow> file_pos fd' = unat offset"
  by (auto simp: lseek_set_def split: if_splits)

lemma file_read_result:
  assumes "file_read fd n = (fd', r, d)"
  shows "r = -1 \<or> 0 \<le> r \<and> r \<le> int n"
  using assms allowed_le [of "outcome fd" n]
  by (auto simp: file_read_def Let_def length_window min.coboundedI1 split: if_splits)

text \<open>What was fetched is the part of the file that was asked for.\<close>

lemma fetch_data_Some:
  assumes f: "fetch_data fd offset len = (fd', Some data)"
  shows "length data = unat len \<and> (unat len = 0 \<or>
    unat offset + unat len \<le> length (file_bytes fd) \<and> data = window (file_bytes fd) (unat offset) (unat len))"
proof -
  obtain f1 p where l: "lseek_set fd offset = (f1, p)" by force
  obtain f2 rv d where r: "file_read f1 (unat len) = (f2, rv, d)" by (metis prod_cases3)
  from f l r have p: "p \<noteq> -1" and rv: "word_of_int rv = len" and s: "unat len < 2 ^ 63" and d: "d = data"
    by (auto simp: fetch_data_def split: if_splits)
  have "rv \<noteq> -1"
  proof
    assume "rv = -1"
    with rv have "unat len = unat (-1 :: u64)" by simp
    also have "\<dots> = 2 ^ 64 - 1" by (simp add: unsigned_minus_1_eq_mask mask_eq_exp_minus_1)
    finally show False using s by simp
  qed
  with file_read_result [OF r] have rv2: "0 \<le> rv" "rv \<le> int (unat len)" by auto
  then obtain k where k: "rv = int k" "k \<le> unat len" using nonneg_int_cases by fastforce
  with rv have "unat len = unat (of_nat k :: u64)" by simp
  also have "\<dots> = k" using k(2) s by (simp add: unsigned_of_nat take_bit_nat_eq_self)
  finally have "rv = int (unat len)" using k(1) by simp
  from file_read_all [OF r this] show ?thesis
    using d lseek_set_pos [OF l p] lseek_set_bytes [OF l] by auto
qed

lemma fetch_data_works:
  assumes "works 2 fd" and "length (file_bytes fd) \<le> MAX_RW_COUNT"
    and "unat offset + unat len \<le> length (file_bytes fd)"
  shows "\<exists>fd'. fetch_data fd offset len = (fd', Some (window (file_bytes fd) (unat offset) (unat len))) \<and>
    file_bytes fd' = file_bytes fd \<and> file_env fd' = file_env fd \<and> file_calls fd' = file_calls fd + 2"
proof -
  have m: "length (file_bytes fd) < 2 ^ 63" using assms(2) by (simp add: MAX_RW_COUNT_def)
  have o: "unat offset < 2 ^ 63" and l: "unat len < 2 ^ 63" "unat len \<le> MAX_RW_COUNT"
    using assms(2,3) m by linarith+
  let ?f1 = "(file_tick fd)\<lparr>file_pos := unat offset\<rparr>"
  have s: "lseek_set fd offset = (?f1, int (unat offset))"
    by (rule lseek_Full) (use works_outcome [OF assms(1)] o in simp_all)
  have "outcome ?f1 = Full" using works_after [of 1 1 fd ?f1] assms(1) by (intro works_outcome [of 1]) (simp_all add: numeral_2_eq_2)
  then have "file_read ?f1 (unat len) = ((file_tick ?f1)\<lparr>file_pos := unat offset + unat len\<rparr>, int (unat len),
      window (file_bytes fd) (unat offset) (unat len))"
    using read_Full [of ?f1 "unat len"] assms(3) l(2) by simp
  moreover have "int (unat offset) \<noteq> -1" by linarith
  ultimately show ?thesis using s l(1) by (simp add: fetch_data_def)
qed

section \<open>The search leaves the file alone and finds a part of it\<close>

text \<open>
  The place a search reports lies inside the file: no byte that the edit writes can
  extend it.
\<close>

definition info_ok :: "u8 list \<Rightarrow> buildid_info \<Rightarrow> bool" where
  "info_ok bs info \<longleftrightarrow> unat (data_offset info) + unat (bytes_size info) \<le> length bs"

definition search_ok :: "ofile \<Rightarrow> ofile \<Rightarrow> buildid_info \<Rightarrow> bool" where
  "search_ok fd fd' out \<longleftrightarrow> file_bytes fd' = file_bytes fd \<and> file_env fd' = file_env fd \<and>
    info_ok (file_bytes fd) out"

lemma search_ok_trans: "search_ok fd1 fd2 out1 \<Longrightarrow> search_ok fd2 fd3 out2 \<Longrightarrow> search_ok fd1 fd3 out2"
  by (simp add: search_ok_def)

definition stops_at :: "int \<Rightarrow> elfinfo \<Rightarrow> u8 list \<Rightarrow> u64 \<Rightarrow> buildid_info \<Rightarrow> nat \<Rightarrow>
    crash + int \<times> buildid_info \<Rightarrow> bool" where
  "stops_at pe info data offset out q r \<longleftrightarrow>
    (case sight_at pe info data q of
       At_end \<Rightarrow> r = Inr (0, out)
     | Crashes e \<Rightarrow> r = Inl e
     | Build_id n d \<Rightarrow> d \<le> MAX_BUILDID_SIZE \<and> r = found_at data offset q n d
     | Other n d \<Rightarrow> False)"

lemma notes_loop_result:
  assumes "notes_loop pe info data offset out p = Some r"
  shows "\<exists>q. (note_step pe info data)\<^sup>*\<^sup>* p q \<and> stops_at pe info data offset out q r"
  using assms
proof (induction "length data - p" arbitrary: p rule: less_induct)
  case less
  have o: "\<not> oversized pe info data p" using less.prems by (rule notes_loop_not_oversized)
  note eq = trans [OF notes_loop_sight [symmetric] less.prems]
  show ?case
  proof (cases "\<exists>n d. sight_at pe info data p = Other n d")
    case True
    then obtain n d where Other: "sight_at pe info data p = Other n d" by blast
    let ?q = "next_note p (ucast n) (ucast d)"
    from Other have s: "note_step pe info data p ?q" by (rule note_step.intros)
    have "length data - ?q < length data - p"
      using note_step_grows [OF s] by (intro diff_less_mono2) simp_all
    moreover have "notes_loop pe info data offset out ?q = Some r" using eq Other by simp
    ultimately obtain q where q: "(note_step pe info data)\<^sup>*\<^sup>* ?q q \<and> stops_at pe info data offset out q r"
      using less.hyps [of ?q] by blast
    from q have "(note_step pe info data)\<^sup>*\<^sup>* p q"
      by (intro converse_rtranclp_into_rtranclp [where r = "note_step pe info data", OF s]) (rule conjunct1)
    with q show ?thesis by (intro exI [of _ q] conjI) simp_all
  next
    case False
    then have "stops_at pe info data offset out p r" using eq o
      by (cases "sight_at pe info data p") (simp_all add: stops_at_def oversized_def)
    then show ?thesis by (intro exI [of _ p] conjI) simp_all
  qed
qed

lemma found_at_ok:
  assumes f: "found_at data offset q n d = Inr (rv, out)"
    and w: "unat offset + length data \<le> length bs" "length bs < 2 ^ 64"
  shows "rv = 1 \<and> info_ok bs out"
proof -
  let ?p = "note_desc q (ucast n)"
  from f have l: "?p + unat d \<le> length data" and rv: "rv = 1"
    and o: "data_offset out = offset + of_nat ?p" "bytes_size out = ucast d"
    by (auto simp: found_at_def Let_def bindR_eq_Inr load_eq_Inr)
  have "?p < 2 ^ 64" using l w by linarith
  then have "unat (of_nat ?p :: u64) = ?p" by (simp add: unsigned_of_nat take_bit_nat_eq_self)
  moreover have "unat offset + ?p < 2 ^ 64" using l w by linarith
  ultimately have "unat (data_offset out) = unat offset + ?p"
    unfolding o(1) by (subst unat_add_lem [THEN iffD1]) simp_all
  moreover have "unat (ucast d :: u64) = unat d"
  proof -
    have "unat d < 2 ^ 32" using unsigned_less [of d] by simp
    then show ?thesis by (simp add: unsigned_ucast_eq take_bit_nat_eq_self)
  qed
  ultimately show ?thesis using rv o(2) l w(1) by (simp add: info_ok_def)
qed

lemma find_buildid_ok:
  assumes f: "find_buildid pe info fd offset len out = Some (Inr (rv, fd', out'))"
    and out: "info_ok (file_bytes fd) out" and len: "length (file_bytes fd) < 2 ^ 64"
  shows "search_ok fd fd' out'"
proof -
  obtain f1 r where fetch: "fetch_data fd offset len = (f1, r)" by force
  note same = fetch_data_bytes [OF fetch]
  show ?thesis
  proof (cases r)
    case None
    then show ?thesis using f fetch out same by (simp add: find_buildid_def search_ok_def)
  next
    case (Some data)
    with f fetch have l: "notes_loop pe info data offset out 0 = Some (Inr (rv, out'))" and fd: "fd' = f1"
      by (auto simp: find_buildid_def bindO_eq_Inr)
    from notes_loop_result [OF l] obtain q where q: "stops_at pe info data offset out q (Inr (rv, out'))"
      by blast
    note data = fetch_data_Some [OF fetch [unfolded Some]]
    show ?thesis
    proof (cases "sight_at pe info data q")
      case At_end
      then show ?thesis using q out same fd by (simp add: search_ok_def stops_at_def)
    next
      case (Build_id n d)
      then have "q < length data" by (auto simp: sight_at_def end_notes_def split: if_splits)
      with data have "unat offset + length data \<le> length (file_bytes fd)" by auto
      moreover have "found_at data offset q n d = Inr (rv, out')" using q Build_id by (simp add: stops_at_def)
      ultimately show ?thesis using found_at_ok [of data offset q n d rv out' "file_bytes fd"] len same fd
        by (simp add: search_ok_def)
    qed (use q in \<open>simp_all add: stops_at_def\<close>)
  qed
qed

lemma phdr_loop_ok:
  assumes "phdr_loop pe info phdr n sz i rv0 fd out = Some (Inr (rv, fd', out'))"
    and "info_ok (file_bytes fd) out" and "length (file_bytes fd) < 2 ^ 64"
  shows "search_ok fd fd' out'"
  using assms
proof (induction "unat n - i" arbitrary: i rv0 fd out rule: less_induct)
  case less
  note eq = less.prems(1) [unfolded phdr_loop.simps [of pe info phdr n sz i]]
  then obtain r where r: "find_notes_phdr pe phdr info i n sz = Inr r" by (auto simp: bindO_eq_Inr)
  show ?case
  proof (cases r)
    case None
    then show ?thesis using eq r less.prems(2) by (simp add: search_ok_def)
  next
    case (Some t)
    obtain j off size1 where t: "t = (j, off, size1)" by (cases t)
    from eq r Some t obtain rv1 f1 out1 where
      s: "find_buildid pe info fd off size1 out = Some (Inr (rv1, f1, out1))"
      and rest: "(if rv1 \<noteq> 0 then Some (Inr (rv1, f1, out1))
        else phdr_loop pe info phdr n sz (j + 1) rv1 f1 out1) = Some (Inr (rv, fd', out'))"
      by (auto simp: bindO_eq_Inr)
    from s less.prems(2,3) have ok: "search_ok fd f1 out1" by (rule find_buildid_ok)
    show ?thesis
    proof (cases "rv1 = 0")
      case True
      have "unat n - (j + 1) < unat n - i"
        using find_notes_phdr_bounds [of pe phdr info i n sz j off size1] r Some t
        by (intro diff_less_mono2) simp_all
      moreover have "phdr_loop pe info phdr n sz (j + 1) rv1 f1 out1 = Some (Inr (rv, fd', out'))"
        using rest True by simp
      ultimately have "search_ok f1 fd' out'"
        using ok less.prems(3) by (intro less.hyps [of "j + 1" rv1 f1 out1]) (simp_all add: search_ok_def)
      with ok show ?thesis by (rule search_ok_trans)
    qed (use rest ok in simp)
  qed
qed

lemma shdr_loop_ok:
  assumes "shdr_loop pe info shdr n sz i rv0 fd out = Some (Inr (rv, fd', out'))"
    and "info_ok (file_bytes fd) out" and "length (file_bytes fd) < 2 ^ 64"
  shows "search_ok fd fd' out'"
  using assms
proof (induction "unat n - i" arbitrary: i rv0 fd out rule: less_induct)
  case less
  note eq = less.prems(1) [unfolded shdr_loop.simps [of pe info shdr n sz i]]
  then obtain r where r: "find_notes_shdr pe shdr info i n sz = Inr r" by (auto simp: bindO_eq_Inr)
  show ?case
  proof (cases r)
    case None
    then show ?thesis using eq r less.prems(2) by (simp add: search_ok_def)
  next
    case (Some t)
    obtain j off size1 where t: "t = (j, off, size1)" by (cases t)
    from eq r Some t obtain rv1 f1 out1 where
      s: "find_buildid pe info fd off size1 out = Some (Inr (rv1, f1, out1))"
      and rest: "(if rv1 \<noteq> 0 then Some (Inr (rv1, f1, out1))
        else shdr_loop pe info shdr n sz (j + 1) rv1 f1 out1) = Some (Inr (rv, fd', out'))"
      by (auto simp: bindO_eq_Inr)
    from s less.prems(2,3) have ok: "search_ok fd f1 out1" by (rule find_buildid_ok)
    show ?thesis
    proof (cases "rv1 = 0")
      case True
      have "unat n - (j + 1) < unat n - i"
        using find_notes_shdr_bounds [of pe shdr info i n sz j off size1] r Some t
        by (intro diff_less_mono2) simp_all
      moreover have "shdr_loop pe info shdr n sz (j + 1) rv1 f1 out1 = Some (Inr (rv, fd', out'))"
        using rest True by simp
      ultimately have "search_ok f1 fd' out'"
        using ok less.prems(3) by (intro less.hyps [of "j + 1" rv1 f1 out1]) (simp_all add: search_ok_def)
      with ok show ?thesis by (rule search_ok_trans)
    qed (use rest ok in simp)
  qed
qed

text \<open>Both searches fetch a table and run their loop on it.\<close>

lemma table_ok:
  assumes r: "(if n = (0 :: u16) then Some (Inr (0, fd, out))
      else bindO (Some m) (\<lambda>len. case fetch_data fd off len of
          (fd, None) \<Rightarrow> Some (Inr (-1, fd, out))
        | (fd, Some tbl) \<Rightarrow> loop tbl fd)) = Some (Inr (rv, fd', out'))"
    and ok: "info_ok (file_bytes fd) out"
    and loop: "\<And>tbl fd1. loop tbl fd1 = Some (Inr (rv, fd', out')) \<Longrightarrow>
      file_bytes fd1 = file_bytes fd \<Longrightarrow> search_ok fd1 fd' out'"
  shows "search_ok fd fd' out'"
proof (cases "n = 0")
  case True
  then show ?thesis using r ok by (simp add: search_ok_def)
next
  case False
  then obtain len where m: "m = Inr len" using r by (auto simp: bindO_eq_Inr)
  obtain fd1 t where f: "fetch_data fd off len = (fd1, t)" by force
  have s: "search_ok fd fd1 out" using fetch_data_bytes [OF f] ok by (simp add: search_ok_def)
  show ?thesis
  proof (cases t)
    case None
    then show ?thesis using r False m f s by simp
  next
    case (Some tbl)
    then have "loop tbl fd1 = Some (Inr (rv, fd', out'))" using r False m f by simp
    then show ?thesis using s by (intro search_ok_trans [OF s loop]) (simp_all add: search_ok_def)
  qed
qed

lemma find_buildid_phdr_ok:
  assumes "find_buildid_phdr pe junk fd info ehdr out = Some (Inr (rv, fd', out'))"
    and ok: "info_ok (file_bytes fd) out" "length (file_bytes fd) < 2 ^ 64"
  shows "search_ok fd fd' out'"
proof -
  from assms(1) obtain n off sz where
    "(if n = 0 then Some (Inr (0, fd, out))
      else bindO (Some (mul16 n sz)) (\<lambda>len. case fetch_data fd off len of
          (fd, None) \<Rightarrow> Some (Inr (-1, fd, out))
        | (fd, Some phdr) \<Rightarrow> phdr_loop pe info phdr n sz 0 junk fd out)) = Some (Inr (rv, fd', out'))"
    unfolding find_buildid_phdr_def bindO_eq_Inr [of "Some _ :: _ run"] by (auto simp del: bindO_simps)
  then show ?thesis by (rule table_ok [OF _ ok(1)]) (use ok in \<open>auto intro: phdr_loop_ok\<close>)
qed

lemma find_buildid_shdr_ok:
  assumes "find_buildid_shdr pe junk fd info ehdr out = Some (Inr (rv, fd', out'))"
    and ok: "info_ok (file_bytes fd) out" "length (file_bytes fd) < 2 ^ 64"
  shows "search_ok fd fd' out'"
proof -
  from assms(1) obtain n off sz where
    "(if n = 0 then Some (Inr (0, fd, out))
      else bindO (Some (mul16 n sz)) (\<lambda>len. case fetch_data fd off len of
          (fd, None) \<Rightarrow> Some (Inr (-1, fd, out))
        | (fd, Some shdr) \<Rightarrow> shdr_loop pe info shdr n sz 0 junk fd out)) = Some (Inr (rv, fd', out'))"
    unfolding find_buildid_shdr_def bindO_eq_Inr [of "Some _ :: _ run"] by (auto simp del: bindO_simps)
  then show ?thesis by (rule table_ok [OF _ ok(1)]) (use ok in \<open>auto intro: shdr_loop_ok\<close>)
qed

lemma find_build_id_ok:
  assumes f: "find_build_id pe j1 j2 fd out = Some (Inr (rv, fd', out'))"
    and ok: "info_ok (file_bytes fd) out" "length (file_bytes fd) < 2 ^ 64"
  shows "search_ok fd fd' out'"
proof -
  obtain fd1 n ehdr where r: "file_read fd 64 = (fd1, n, ehdr)" by (metis prod_cases3)
  have s1: "search_ok fd fd1 out" using file_read_bytes [OF r] ok(1) by (simp add: search_ok_def)
  let ?info = "\<lparr>endian = uint (ehdr ! 5), bits = uint (ehdr ! 4)\<rparr>"
  have p: "search_ok fd f2 out2" if "find_buildid_phdr pe j1 fd1 ?info ehdr out = Some (Inr (rv2, f2, out2))" for rv2 f2 out2
    using s1 ok(2) by (intro search_ok_trans [OF s1 find_buildid_phdr_ok [OF that]]) (simp_all add: search_ok_def)
  have "search_ok fd fd' out'" if a: "find_buildid_phdr pe j1 fd1 ?info ehdr out = Some (Inr (rv2, f2, out2))"
      and b: "find_buildid_shdr pe j2 f2 ?info ehdr out2 = Some (Inr (rv, fd', out'))" for rv2 f2 out2
    using p [OF a] ok(2) by (intro search_ok_trans [OF p [OF a] find_buildid_shdr_ok [OF b]]) (simp_all add: search_ok_def)
  with f s1 p show ?thesis unfolding find_build_id_def r
    by (auto simp: bindO_eq_Inr Let_def split: if_splits prod.splits)
qed

section \<open>What the program writes\<close>

lemma write_new_buildid_cases:
  assumes "write_new_buildid fd offset data n = (fd', rv)"
  shows "(file_bytes fd' = file_bytes fd \<or>
      (\<exists>k \<le> unat n. file_bytes fd' = patch (file_bytes fd) (unat offset) (take k data))) \<and> (rv = 0 \<or> rv = -1 \<and> file_bytes fd' = file_bytes fd)"
proof -
  obtain f1 p where l: "lseek_set fd offset = (f1, p)" by force
  show ?thesis
  proof (cases "p < 0")
    case True
    then show ?thesis using assms l lseek_set_bytes [OF l] by (simp add: write_new_buildid_def)
  next
    case False
    obtain f2 w where w: "file_write f1 (take (unat n) data) = (f2, w)" by force
    have r: "fd' = f2" "rv = 0" using assms l w False by (simp_all add: write_new_buildid_def)
    have f1: "file_bytes f1 = file_bytes fd" "file_pos f1 = unat offset"
      using lseek_set_bytes [OF l] lseek_set_pos [OF l] False by simp_all
    show ?thesis
    proof (cases "outcome f1 = Fail")
      case True
      then show ?thesis using w r f1 by (auto simp: file_write_def)
    next
      case ok: False
      let ?xs = "take (unat n) data"
      let ?a = "allowed (outcome f1) (length ?xs)"
      have "file_bytes f2 = patch (file_bytes fd) (unat offset) (take ?a ?xs)"
        using w f1 ok by (auto simp: file_write_def Let_def)
      moreover have "take ?a ?xs = take (min ?a (unat n)) data" by simp
      ultimately have "\<exists>k \<le> unat n. file_bytes f2 = patch (file_bytes fd) (unat offset) (take k data)"
        by (intro exI [of _ "min ?a (unat n)"]) simp
      then show ?thesis using r by blast
    qed
  qed
qed

lemma parse_options_newid:
  "parse_options l opts = Some opts' \<Longrightarrow> newid_hex opts' = Some h \<Longrightarrow>
    newid_hex opts = Some h \<or> (CHR ''n'', h) \<in> set l"
  by (induction l opts rule: parse_options.induct) (auto split: if_splits)

abbreviation no_info :: buildid_info where
  "no_info \<equiv> \<lparr>data_offset = 0, bytes_size = 0, hex = None\<rparr>"

text \<open>The ways through \<open>main\<close> that end with an open file.\<close>

lemma main_cases:
  assumes m: "editbuildid_main pe j1 j2 opts args open_file = Some (Inr (rv, Some fd', stdout))"
    and o: "open_file (args ! 0) = Some fd"
  obtains (missing) info where "find_build_id pe j1 j2 fd no_info = Some (Inr (rv, fd', info))" "rv \<le> 0"
  | (printed) r info h where "find_build_id pe j1 j2 fd no_info = Some (Inr (r, fd', info))" "0 < r"
      "rv = 0" "hex info = Some h" "stdout = h @ [0x0a]"
  | (edited) r fd1 info h where "find_build_id pe j1 j2 fd no_info = Some (Inr (r, fd1, info))" "0 < r"
      "(CHR ''n'', h) \<in> set opts" "edit_buildid h info fd1 = Inr (rv, fd')"
proof -
  from m obtain op where p: "parse_options opts \<lparr>verbose = False, print = False, newid_hex = None\<rparr> = Some op"
    by (auto simp: editbuildid_main_def split: option.splits)
  with m o have a: "print op \<or> newid_hex op \<noteq> None" "length args = 1" and
    b: "bindO (find_build_id pe j1 j2 fd no_info) (\<lambda>(rv, fd, info).
             if rv \<le> 0 then Some (Inr (rv, Some fd, []))
             else if print op then
               (case hex info of None \<Rightarrow> Some (Inl Null_pointer)
                | Some h \<Rightarrow> Some (Inr (0, Some fd, h @ [0x0a])))
             else bindO (Some (edit_buildid (the (newid_hex op)) info fd)) (\<lambda>(rv, fd).
               Some (Inr (rv, Some fd, [])))) = Some (Inr (rv, Some fd', stdout))"
    by (auto simp: editbuildid_main_def split: if_splits)
  then obtain r fd1 info where f: "find_build_id pe j1 j2 fd no_info = Some (Inr (r, fd1, info))"
    by (auto simp: bindO_eq_Inr)
  show ?thesis
  proof (cases "r \<le> 0")
    case True
    then show ?thesis using b f by (intro missing [of info]) simp_all
  next
    case False
    show ?thesis
    proof (cases "print op")
      case True
      with b f False obtain h where "hex info = Some h" "fd1 = fd'" "rv = 0" "stdout = h @ [0x0a]"
        by (auto split: option.splits)
      then show ?thesis using f False by (intro printed [of r info h]) simp_all
    next
      case noprint: False
      with a obtain h where h: "newid_hex op = Some h" by auto
      with b f False noprint have "edit_buildid h info fd1 = Inr (rv, fd')"
        by (auto simp: bindO_eq_Inr)
      moreover have "(CHR ''n'', h) \<in> set opts" using parse_options_newid [OF p h] by simp
      ultimately show ?thesis using f False by (intro edited [of r fd1 info h]) simp_all
    qed
  qed
qed

lemma edit_buildid_cases:
  assumes "edit_buildid h info fd = Inr (rv, fd')"
  shows "file_bytes fd' = file_bytes fd \<or>
    rv = 0 \<and> (\<exists>data. from_hex h = Inr (Some data) \<and> of_nat (length h div 2) = bytes_size info \<and>
      (\<exists>k \<le> unat (bytes_size info). file_bytes fd' = patch (file_bytes fd) (unat (data_offset info)) (take k data)))"
proof -
  from assms obtain b where b: "(if length h mod 2 = 0 then from_hex h else Inr None) = Inr b"
    by (auto simp: edit_buildid_def bindR_eq_Inr)
  show ?thesis
  proof (cases b)
    case None
    then show ?thesis using assms b by (simp add: edit_buildid_def)
  next
    case (Some data)
    then have hex: "from_hex h = Inr (Some data)" using b by (simp split: if_splits)
    show ?thesis
    proof (cases "of_nat (length h div 2) = bytes_size info")
      case True
      obtain f w where w: "write_new_buildid fd (data_offset info) data (bytes_size info) = (f, w)" by force
      with assms b Some True have "rv = w" "fd' = f" by (simp_all add: edit_buildid_def)
      then show ?thesis using write_new_buildid_cases [OF w] hex True by blast
    next
      case False
      then show ?thesis using assms b Some by (simp add: edit_buildid_def)
    qed
  qed
qed


end
