(* ===== verification/BuildIdRoundtrip.thy ===== *)
theory BuildIdRoundtrip
  imports BuildIdEdit
begin

text \<open>
  \<open>editbuildid\<close> on ELF files whose first note segment holds a list of notes: the search
  returns what the search of the list returns, and an edit followed by a search gives
  the new build ID back, in a file where nothing else has changed.
\<close>

section \<open>Replacing the build ID of a list of notes\<close>

fun set_build_id :: "u8 list \<Rightarrow> elfnote list \<Rightarrow> elfnote list" where
  "set_build_id new [] = []"
| "set_build_id new (n # ns) =
    (if is_build_id n then Note (n_name n) (n_type n) new # ns else n # set_build_id new ns)"

lemma locate_set:
  "locate_build_id p ns = Some (q, old) \<Longrightarrow> locate_build_id p (set_build_id new ns) = Some (q, new)"
proof (induction ns arbitrary: p)
  case (Cons n ns)
  then show ?case by (auto simp: is_build_id_def split: if_splits)
qed simp

lemma wf_set:
  assumes "list_all wf_note ns" and "locate_build_id p ns = Some (q, old)" and "length new = length old"
  shows "list_all wf_note (set_build_id new ns)"
  using assms
proof (induction ns arbitrary: p)
  case (Cons n ns)
  then show ?case by (auto simp: wf_note_def is_build_id_def split: if_splits)
qed simp

lemma encode_set:
  assumes "locate_build_id p ns = Some (q, old)" and "length new = length old" and "length pre = p"
  shows "patch (pre @ encode_notes e ns) q new = pre @ encode_notes e (set_build_id new ns) \<and>
    q + length old \<le> length (pre @ encode_notes e ns)"
  using assms
proof (induction ns arbitrary: pre p)
  case (Cons n ns)
  let ?h = "note_header e n"
  show ?case
  proof (cases "is_build_id n")
    case True
    then have q: "q = p + 12 + round4 (length (n_name n))" and old: "old = n_desc n" using Cons.prems(1) by auto
    let ?z = "replicate (round4 (length old) - length old) 0"
    have "pre @ encode_notes e (n # ns) = (pre @ ?h @ padded (n_name n)) @ old @ (?z @ encode_notes e ns)"
      by (simp add: encode_notes_def encode_note_def padded_def [of "n_desc n"] old)
    moreover have "pre @ encode_notes e (set_build_id new (n # ns)) =
        (pre @ ?h @ padded (n_name n)) @ new @ (?z @ encode_notes e ns)"
      using True Cons.prems(2)
      by (simp add: encode_notes_def encode_note_def note_header_def padded_def [of new] old)
    moreover have "length (pre @ ?h @ padded (n_name n)) = q" using q Cons.prems(3) by simp
    ultimately show ?thesis
      using Cons.prems(2) patch_mid [of "pre @ ?h @ padded (n_name n)" q new old "?z @ encode_notes e ns"] by simp
  next
    case False
    then have "locate_build_id (p + 12 + round4 (length (n_name n)) + round4 (length (n_desc n))) ns = Some (q, old)"
      using Cons.prems(1) by simp
    from Cons.IH [OF this Cons.prems(2), of "pre @ encode_note e n"] Cons.prems(3) False
    show ?thesis by (simp add: encode_notes_def encode_note_def)
  qed
qed simp

section \<open>Files with a note segment\<close>

text \<open>
  An ELF file whose first \<open>PT_NOTE\<close> program header describes a segment that holds the
  notes \<open>ns\<close>, behind the ELF header and apart from the program headers.
\<close>

definition has_table :: "int \<Rightarrow> u8 list \<Rightarrow> elfinfo \<Rightarrow> u64 \<Rightarrow> u64 \<Rightarrow> u16 \<Rightarrow> u64 \<Rightarrow> u16 \<Rightarrow> bool" where
  "has_table pe bs info off len n phoff sz \<longleftrightarrow>
    getfield16 pe info (window bs 0 64) 0 Ehdr_e_phnum = Inr n \<and>
    getaddr pe info (window bs 0 64) 0 Ehdr_e_phoff = Inr phoff \<and>
    getfield16 pe info (window bs 0 64) 0 Ehdr_e_phentsize = Inr sz \<and>
    n \<noteq> 0 \<and> unat phoff + unat n * unat sz \<le> length bs \<and>
    (unat phoff + unat n * unat sz \<le> unat off \<or> unat off + unat len \<le> unat phoff) \<and>
    (\<exists>j. find_notes_phdr pe (window bs (unat phoff) (unat n * unat sz)) info 0 n sz = Inr (Some (j, off, len)))"

definition elf_ident :: "u8 list \<Rightarrow> elfinfo \<Rightarrow> bool" where
  "elf_ident ehdr info \<longleftrightarrow> ehdr ! 0 = 0x7f \<and> ehdr ! 1 = 0x45 \<and> ehdr ! 2 = 0x4c \<and> ehdr ! 3 = 0x46 \<and>
    info = \<lparr>endian = uint (ehdr ! 5), bits = uint (ehdr ! 4)\<rparr> \<and> valid_info info"

definition note_file :: "int \<Rightarrow> u8 list \<Rightarrow> elfinfo \<Rightarrow> u64 \<Rightarrow> u64 \<Rightarrow> elfnote list \<Rightarrow> bool" where
  "note_file pe bs info off len ns \<longleftrightarrow>
    byte_order pe \<and> 64 \<le> length bs \<and> length bs \<le> MAX_RW_COUNT \<and> elf_ident (window bs 0 64) info \<and>
    (\<exists>n phoff sz. has_table pe bs info off len n phoff sz) \<and>
    64 \<le> unat off \<and> unat off + unat len \<le> length bs \<and>
    window bs (unat off) (unat len) = encode_notes (endian info) ns \<and> list_all wf_note ns"

lemma find_buildid_refines_aux:
  assumes nf: "note_file pe (file_bytes fd) info off len ns" and "works 2 fd"
  shows "\<exists>fd'. find_buildid pe info fd off len out =
      Some (Inr (case locate_build_id 0 ns of None \<Rightarrow> (0, fd', out) | Some f \<Rightarrow> (1, fd', found_info off f))) \<and>
    file_bytes fd' = file_bytes fd \<and> file_env fd' = file_env fd \<and> file_calls fd' = file_calls fd + 2"
proof -
  from nf have v: "valid_info info" "byte_order pe" and b: "length (file_bytes fd) \<le> MAX_RW_COUNT"
      "unat off + unat len \<le> length (file_bytes fd)"
    and w: "window (file_bytes fd) (unat off) (unat len) = encode_notes (endian info) ns" "list_all wf_note ns"
    unfolding note_file_def elf_ident_def by auto
  obtain fd' where fd': "fetch_data fd off len = (fd', Some (encode_notes (endian info) ns))"
    "file_bytes fd' = file_bytes fd \<and> file_env fd' = file_env fd \<and> file_calls fd' = file_calls fd + 2"
    using fetch_data_works [OF assms(2) b] w(1) by auto
  have "notes_loop pe info (encode_notes (endian info) ns) off out 0 =
    Some (Inr (case locate_build_id 0 ns of None \<Rightarrow> (0, out) | Some f \<Rightarrow> (1, found_info off f)))"
    by (rule notes_loop_encoded [OF v w(2), of "[]"]) simp_all
  then show ?thesis using fd' by (simp add: find_buildid_def split: option.split)
qed

lemma find_build_id_note_file:
  assumes nf: "note_file pe (file_bytes fd) info off len ns" and r: "works 5 fd" "file_pos fd = 0"
    and f: "locate_build_id 0 ns = Some f"
  shows "\<exists>fd'. find_build_id pe j1 j2 fd out = Some (Inr (1, fd', found_info off f)) \<and>
    file_bytes fd' = file_bytes fd \<and> file_env fd' = file_env fd \<and> file_calls fd' = file_calls fd + 5"
proof -
  let ?bs = "file_bytes fd" and ?f1 = "(file_tick fd)\<lparr>file_pos := file_pos fd + 64\<rparr>"
  from nf have l: "64 \<le> length ?bs" "length ?bs \<le> MAX_RW_COUNT" and i: "elf_ident (window ?bs 0 64) info"
    unfolding note_file_def by auto
  have r1: "works 2 ?f1" using works_after [of 1 4 fd ?f1] r(1) by (simp add: works_def)
  have rd: "file_read fd 64 = (?f1, 64, window ?bs 0 64)"
    using read_Full [OF works_outcome [OF r(1)], of 64] l r(2) by (simp add: MAX_RW_COUNT_def)
  from nf obtain n phoff sz where t: "has_table pe ?bs info off len n phoff sz"
    unfolding note_file_def by auto
  then obtain j where j: "find_notes_phdr pe (window ?bs (unat phoff) (unat n * unat sz)) info 0 n sz = Inr (Some (j, off, len))"
    and fit: "unat phoff + unat n * unat sz \<le> length ?bs"
    unfolding has_table_def by auto
  have p: "unat n * unat sz < 2 ^ 31" using fit l by (simp add: MAX_RW_COUNT_def)
  then have u: "unat (of_nat (unat n * unat sz) :: u64) = unat n * unat sz"
    by (simp only: unsigned_of_nat) (simp add: take_bit_nat_eq_self)
  obtain f2 where f2: "fetch_data ?f1 phoff (of_nat (unat n * unat sz)) = (f2, Some (window ?bs (unat phoff) (unat n * unat sz)))"
    "file_bytes f2 = ?bs" "file_env f2 = file_env fd" "file_calls f2 = file_calls fd + 3"
    using fetch_data_works [OF r1, of phoff "of_nat (unat n * unat sz)"] l(2) fit u by auto
  have r2: "works 2 f2" using works_after [of 3 2 fd f2] r(1) f2 by simp
  obtain f3 where f3: "find_buildid pe info f2 off len out = Some (Inr (1, f3, found_info off f))"
    "file_bytes f3 = ?bs" "file_env f3 = file_env fd" "file_calls f3 = file_calls fd + 5"
    using find_buildid_refines_aux [of pe f2 info off len ns out] nf r2 f f2 by auto
  have "phdr_loop pe info (window ?bs (unat phoff) (unat n * unat sz)) n sz 0 j1 f2 out =
      Some (Inr (1, f3, found_info off f))"
    by (subst phdr_loop.simps) (simp add: j f3)
  then have ph: "find_buildid_phdr pe j1 ?f1 info (window ?bs 0 64) out = Some (Inr (1, f3, found_info off f))"
    using t p f2(1) unfolding has_table_def find_buildid_phdr_def by (simp add: mul16_def)
  have "find_build_id pe j1 j2 fd out = Some (Inr (1, f3, found_info off f))"
  proof -
    have "\<lparr>endian = uint (window ?bs 0 64 ! 5), bits = uint (window ?bs 0 64 ! 4)\<rparr> = info"
      and "bits info = 1 \<or> bits info = 2" "endian info = 1 \<or> endian info = 2"
      using i unfolding elf_ident_def valid_info_def by blast+
    with rd i ph show ?thesis by (simp add: find_build_id_def elf_ident_def)
  qed
  then show ?thesis using f3 by blast
qed

text \<open>The edit keeps the file well formed, with the new notes.\<close>

lemma note_file_patch:
  assumes nf: "note_file pe bs info off len ns" and f: "locate_build_id 0 ns = Some (p, old)"
    and new: "length new = length old"
  shows "note_file pe (patch bs (unat off + p) new) info off len (set_build_id new ns)"
    and "unat off + p + length new \<le> length bs"
proof -
  let ?bs = "patch bs (unat off + p) new"
  from nf have seg: "window bs (unat off) (unat len) = encode_notes (endian info) ns" "list_all wf_note ns"
    and off: "64 \<le> unat off" "unat off + unat len \<le> length bs" by (simp_all add: note_file_def)
  have "length (encode_notes (endian info) ns) = unat len" using seg(1) off(2) length_window_fit by metis
  then have e: "patch (encode_notes (endian info) ns) p new = encode_notes (endian info) (set_build_id new ns)"
    "p + length new \<le> unat len"
    using encode_set [OF f new, of "[]" "endian info"] new by simp_all
  then show fit: "unat off + p + length new \<le> length bs" using off(2) by simp
  then have len: "length ?bs = length bs" by (rule length_patch)
  have w: "window ?bs (unat off) (unat len) = encode_notes (endian info) (set_build_id new ns)"
    using window_patch_inside [OF e(2) off(2)] seg(1) e(1) by simp
  have out: "window ?bs q k = window bs q k" if "q + k \<le> unat off \<or> unat off + unat len \<le> q" for q k
    using that e(2) by (intro window_patch_other fit) auto
  have h: "window ?bs 0 64 = window bs 0 64" by (rule out) (use off in simp)
  from nf obtain n phoff sz where t: "has_table pe bs info off len n phoff sz" by (auto simp: note_file_def)
  then have "window ?bs (unat phoff) (unat n * unat sz) = window bs (unat phoff) (unat n * unat sz)"
    by (intro out) (auto simp: has_table_def)
  with t have "has_table pe ?bs info off len n phoff sz" by (simp add: has_table_def h len)
  moreover have "list_all wf_note (set_build_id new ns)" using wf_set [OF seg(2) f new] .
  ultimately show "note_file pe ?bs info off len (set_build_id new ns)"
    using nf w h len unfolding note_file_def by auto
qed

section \<open>Properties\<close>

text \<open>
  C18: on a note segment that holds a list of notes the search refines the search of
  the list: the first build ID note is found, with its place in the file, its size and
  its value in hexadecimal; and 0 is returned when there is none.
\<close>

theorem find_buildid_refines:
  assumes "note_file pe (file_bytes fd) info off len ns" and "reliable fd"
  shows "\<exists>fd'. find_buildid pe info fd off len out =
      Some (Inr (case locate_build_id 0 ns of None \<Rightarrow> (0, fd', out) | Some f \<Rightarrow> (1, fd', found_info off f))) \<and>
    file_bytes fd' = file_bytes fd"
  using find_buildid_refines_aux [OF assms(1) reliable_works [OF assms(2)], of out] by blast

lemma from_hex_lengths:
  assumes "from_hex h = Inr (Some data)"
  shows "even (length h)" and "length h = 2 * length data" and "to_hex data = Inr (map lower h)"
proof -
  show e: "even (length h)" and t: "to_hex data = Inr (map lower h)"
    using from_hex_cases [of h] assms by simp_all
  show "length h = 2 * length data" using to_hex_parses [of data] t by auto
qed

lemma edit_buildid_reliable:
  assumes r: "reliable fd" and b: "length (file_bytes fd) \<le> MAX_RW_COUNT"
    and h: "from_hex h = Inr (Some new)" and i: "bytes_size info = of_nat (length new)"
    and fit: "unat (data_offset info) + length new \<le> length (file_bytes fd)"
  shows "\<exists>fd'. edit_buildid h info fd = Inr (0, fd') \<and> reliable fd' \<and>
    file_bytes fd' = patch (file_bytes fd) (unat (data_offset info)) new"
proof -
  have m: "length new \<le> MAX_RW_COUNT" "unat (data_offset info) < 2 ^ 63" using fit b by (simp_all add: MAX_RW_COUNT_def)
  let ?f1 = "(file_tick fd)\<lparr>file_pos := unat (data_offset info)\<rparr>"
  have r0: "outcome fd = Full" "outcome ?f1 = Full" using r by (simp_all add: reliable_def outcome_def)
  have "unat (of_nat (length new) :: u64) = length new"
    using m(1) by (simp add: unsigned_of_nat take_bit_nat_eq_self MAX_RW_COUNT_def)
  then have t: "take (unat (bytes_size info)) new = new" using i by simp
  let ?f2 = "(file_tick ?f1)\<lparr>file_bytes := patch (file_bytes fd) (unat (data_offset info)) new,
    file_pos := unat (data_offset info) + length new\<rparr>"
  have "write_new_buildid fd (data_offset info) new (bytes_size info) = (?f2, 0)"
    using lseek_Full [OF r0(1) m(2)] write_Full [OF r0(2) m(1)] t by (simp add: write_new_buildid_def)
  moreover have "length h mod 2 = 0" "of_nat (length h div 2) = bytes_size info"
    using from_hex_lengths [OF h] i by (simp_all add: even_iff_mod_2_eq_zero)
  ultimately have "edit_buildid h info fd = Inr (0, ?f2)" using h by (simp add: edit_buildid_def)
  moreover have "reliable ?f2" using r by (simp add: reliable_def)
  ultimately show ?thesis by (intro exI [of _ ?f2]) simp
qed

lemma found_info_offset:
  assumes "unat off + p < 2 ^ 64"
  shows "unat (data_offset (found_info off (p, d))) = unat off + p"
proof -
  have p: "unat (of_nat p :: u64) = p" using assms by (simp add: unsigned_of_nat take_bit_nat_eq_self)
  then show ?thesis using assms
    by (simp add: found_info_def) (subst unat_add_lem [THEN iffD1], simp_all)
qed

text \<open>
  C16: editing a well-formed file and printing its build ID gives the new build ID
  back (in lower case). The edit succeeds, and it only replaces the descriptor of the
  build ID note in the note segment.
\<close>

theorem editbuildid_roundtrip:
  assumes nf: "note_file pe (file_bytes fd) info off len ns" and r: "reliable fd" "file_pos fd = 0"
    and f: "locate_build_id 0 ns = Some (p, old)"
    and h: "from_hex h = Inr (Some new)" and l: "length new = length old"
  shows "\<exists>fd'. editbuildid_main pe j1 j2 [(CHR ''n'', h)] [name] (\<lambda>_. Some fd) = Some (Inr (0, Some fd', [])) \<and>
    file_bytes fd' = patch (file_bytes fd) (unat off + p) new \<and>
    note_file pe (file_bytes fd') info off len (set_build_id new ns) \<and>
    (\<exists>fd''. editbuildid_main pe j1 j2 [(CHR ''p'', [])] [name] (\<lambda>_. Some (fd'\<lparr>file_pos := 0\<rparr>)) =
      Some (Inr (0, Some fd'', map lower h @ [0x0a])))"
proof -
  let ?i = "found_info off (p, old)"
  obtain f1 where f1: "find_build_id pe j1 j2 fd no_info = Some (Inr (1, f1, ?i))"
    "file_bytes f1 = file_bytes fd" "file_env f1 = file_env fd"
    using find_build_id_note_file [OF nf reliable_works [OF r(1)] r(2) f] by blast
  have b: "length (file_bytes fd) \<le> MAX_RW_COUNT" using nf by (simp add: note_file_def)
  note fit = note_file_patch(2) [OF nf f l]
  have o: "unat (data_offset ?i) = unat off + p"
    using fit b by (intro found_info_offset) (simp add: MAX_RW_COUNT_def)
  have r1: "reliable f1" using r(1) f1(3) by (simp add: reliable_def)
  have sz: "bytes_size ?i = of_nat (length new)" using l by (simp add: found_info_def)
  obtain fd' where e: "edit_buildid h ?i f1 = Inr (0, fd')" "reliable fd'"
    "file_bytes fd' = patch (file_bytes fd) (unat off + p) new"
    using edit_buildid_reliable [OF r1 _ h sz] f1(2) b fit o by auto
  have m1: "editbuildid_main pe j1 j2 [(CHR ''n'', h)] [name] (\<lambda>_. Some fd) = Some (Inr (0, Some fd', []))"
    using f1(1) e(1) by (simp add: editbuildid_main_def)
  have nf': "note_file pe (file_bytes fd') info off len (set_build_id new ns)"
    using note_file_patch(1) [OF nf f l] e(3) by simp
  let ?g = "fd'\<lparr>file_pos := 0\<rparr>"
  have "works 5 ?g" using e(2) by (simp add: reliable_def works_def)
  then obtain fd'' where "find_build_id pe j1 j2 ?g no_info = Some (Inr (1, fd'', found_info off (p, new)))"
    using find_build_id_note_file [of pe ?g info off len "set_build_id new ns" "(p, new)" j1 j2 no_info]
      nf' locate_set [OF f, of new] by auto
  moreover have "hex (found_info off (p, new)) = Some (map lower h)"
    using from_hex_lengths(3) [OF h] by (simp add: found_info_def)
  ultimately have "editbuildid_main pe j1 j2 [(CHR ''p'', [])] [name] (\<lambda>_. Some ?g) =
      Some (Inr (0, Some fd'', map lower h @ [0x0a]))"
    by (simp add: editbuildid_main_def)
  with m1 e(3) nf' show ?thesis by blast
qed

text \<open>
  C23: a write that fails goes unnoticed: the exit value is 0, as for an edit, and the
  file is as it was.
\<close>

theorem editbuildid_ignores_failed_write:
  assumes nf: "find_build_id pe j1 j2 fd no_info = Some (Inr (1, f1, info))"
    and h: "from_hex h = Inr (Some new)" "bytes_size info = of_nat (length new)"
    and seek: "sint (data_offset info) \<ge> 0" "file_env f1 (file_calls f1) = Full"
    and fails: "file_env f1 (file_calls f1 + 1) = Fail"
  shows "\<exists>fd'. editbuildid_main pe j1 j2 [(CHR ''n'', h)] [name] (\<lambda>_. Some fd) = Some (Inr (0, Some fd', [])) \<and>
    file_bytes fd' = file_bytes f1"
proof -
  let ?f1 = "(file_tick f1)\<lparr>file_pos := unat (data_offset info)\<rparr>"
  have s: "lseek_set f1 (data_offset info) = (?f1, sint (data_offset info))"
    using seek by (simp add: lseek_set_def outcome_def)
  moreover have "file_write ?f1 xs = (file_tick ?f1, -1)" for xs
    using fails by (simp add: file_write_def outcome_def)
  ultimately have w: "write_new_buildid f1 (data_offset info) new (bytes_size info) = (file_tick ?f1, 0)"
    using seek(1) by (simp add: write_new_buildid_def)
  have "length h mod 2 = 0" "of_nat (length h div 2) = bytes_size info"
    using from_hex_lengths [OF h(1)] h(2) by (simp_all add: even_iff_mod_2_eq_zero)
  then have "edit_buildid h info f1 = Inr (0, file_tick ?f1)" using h(1) w by (simp add: edit_buildid_def)
  then have "editbuildid_main pe j1 j2 [(CHR ''n'', h)] [name] (\<lambda>_. Some fd) =
      Some (Inr (0, Some (file_tick ?f1), []))"
    using nf by (simp add: editbuildid_main_def)
  then show ?thesis by (intro exI [of _ "file_tick ?f1"]) simp
qed

text \<open>
  C22: the sizes in a note header have 32 bits, and \<open>next_note\<close> takes 16: the walk moves
  on to the next note exactly when both sizes fit, and falls short of it otherwise.
\<close>

theorem next_note_correct_iff:
  "next_note p (ucast (namesz :: u32)) (ucast (descsz :: u32)) =
      p + 12 + round4 (unat namesz) + round4 (unat descsz) \<longleftrightarrow>
    unat namesz < 2 ^ 16 \<and> unat descsz < 2 ^ 16"
proof -
  have t: "unat (ucast (x :: u32) :: u16) = unat x mod 2 ^ 16" for x
    by (simp add: unsigned_ucast_eq take_bit_eq_mod)
  have r: "round4 (x mod 2 ^ 16) \<le> round4 x \<and> (round4 (x mod 2 ^ 16) = round4 x \<longleftrightarrow> x < 2 ^ 16)" for x
  proof (cases "x < 2 ^ 16")
    case False
    have "x = x mod 65536 + 65536 * (x div 65536)" by simp
    moreover have "1 \<le> x div 65536" using False by simp
    ultimately have "x mod 65536 + 65536 \<le> x" by linarith
    then have "round4 (x mod 65536) < round4 x"
      using round4_bounds [of x] round4_bounds [of "x mod 65536"] by linarith
    then show ?thesis using False by simp
  qed simp
  have "next_note p (ucast namesz) (ucast descsz) =
      p + 12 + round4 (unat namesz mod 2 ^ 16) + round4 (unat descsz mod 2 ^ 16)"
    by (simp only: next_note_def unat_pad4_u16 t)
  then show ?thesis using r [of "unat namesz"] r [of "unat descsz"] by linarith
qed

section \<open>Examples\<close>

text \<open>
  A 64-bit little-endian file with one program header, a note segment of 20 bytes
  at offset 120, and in it the build ID \<open>deadbeef\<close>.
\<close>

definition example_ehdr :: "u8 list" where
  "example_ehdr = [0x7f, 0x45, 0x4c, 0x46, 2, 1, 1, 0] @ replicate 24 0 @
    [64, 0, 0, 0, 0, 0, 0, 0] @ replicate 14 0 @ [56, 0, 1, 0, 0, 0, 0, 0, 0, 0]"

definition example_phdr :: "u8 list" where
  "example_phdr = [4, 0, 0, 0, 4, 0, 0, 0, 120, 0, 0, 0, 0, 0, 0, 0] @ replicate 16 0 @
    [20, 0, 0, 0, 0, 0, 0, 0] @ replicate 8 0 @ [4, 0, 0, 0, 0, 0, 0, 0]"

definition example_note :: elfnote where
  "example_note = Note [0x47, 0x4e, 0x55, 0] 3 [0xde, 0xad, 0xbe, 0xef]"

definition example_elf :: "u8 list" where
  "example_elf = example_ehdr @ example_phdr @ encode_note 1 example_note"

abbreviation example_info :: elfinfo where
  "example_info \<equiv> \<lparr>endian = 1, bits = 2\<rparr>"

definition example_file :: ofile where
  "example_file = \<lparr>file_bytes = example_elf, file_pos = 0, file_calls = 0, file_env = (\<lambda>_. Full)\<rparr>"

text \<open>The same file, whose seventh system call (the write of the edit) fails.\<close>

definition failing_file :: ofile where
  "failing_file = example_file\<lparr>file_env := (\<lambda>k. if k = 6 then Fail else Full)\<rparr>"

lemma example_ehdr_window: "window example_elf 0 64 = example_ehdr"
  by code_simp

lemma example_phdr_window: "window example_elf 64 56 = example_phdr"
  by code_simp

lemma example_table: "has_table 1 example_elf example_info 120 20 1 64 56"
proof -
  have "find_notes_phdr 1 example_phdr example_info 0 1 56 = Inr (Some (0, 120, 20))" by code_simp
  moreover have "getfield16 1 example_info example_ehdr 0 Ehdr_e_phnum = Inr 1"
    "getaddr 1 example_info example_ehdr 0 Ehdr_e_phoff = Inr 64"
    "getfield16 1 example_info example_ehdr 0 Ehdr_e_phentsize = Inr 56" by code_simp+
  moreover have "length example_elf = 140" by code_simp
  ultimately show ?thesis using example_phdr_window by (simp add: has_table_def example_ehdr_window)
qed

lemma example_note_file: "note_file 1 example_elf example_info 120 20 [example_note]"
proof -
  have "elf_ident example_ehdr example_info" by code_simp
  moreover have "length example_elf = 140" "window example_elf 120 20 = encode_notes 1 [example_note]" by code_simp+
  moreover have "list_all wf_note [example_note]" by (simp add: wf_note_def example_note_def)
  ultimately show ?thesis using example_table by (auto simp: note_file_def example_ehdr_window MAX_RW_COUNT_def)
qed

lemma example_locate: "locate_build_id 0 [example_note] = Some (16, [0xde, 0xad, 0xbe, 0xef])"
  by code_simp

lemma example_reliable: "reliable example_file" "file_pos example_file = 0" "file_bytes example_file = example_elf"
  by (simp_all add: reliable_def example_file_def)

lemma example_hex: "from_hex (ascii ''00c0FFEE'') = Inr (Some [0, 0xc0, 0xff, 0xee])"
  by code_simp

theorem find_buildid_refines_witness:
  "\<exists>fd'. find_buildid 1 example_info example_file 120 20 no_info =
      Some (Inr (1, fd', found_info 120 (16, [0xde, 0xad, 0xbe, 0xef]))) \<and> file_bytes fd' = example_elf"
  using find_buildid_refines [of 1 example_file example_info 120 20 "[example_note]" no_info]
    example_note_file example_reliable example_locate by simp

theorem editbuildid_roundtrip_witness:
  "\<exists>fd'. editbuildid_main 1 0 0 [(CHR ''n'', ascii ''00c0FFEE'')] [[0x78]] (\<lambda>_. Some example_file) =
      Some (Inr (0, Some fd', [])) \<and>
    (\<exists>fd''. editbuildid_main 1 0 0 [(CHR ''p'', [])] [[0x78]] (\<lambda>_. Some (fd'\<lparr>file_pos := 0\<rparr>)) =
      Some (Inr (0, Some fd'', ascii ''00c0ffee'' @ [0x0a])))"
proof -
  have l: "map lower (ascii ''00c0FFEE'') = ascii ''00c0ffee''" by code_simp
  show ?thesis
    using editbuildid_roundtrip [of 1 example_file example_info 120 20 "[example_note]" 16 "[0xde, 0xad, 0xbe, 0xef]"
        "ascii ''00c0FFEE''" "[0, 0xc0, 0xff, 0xee]" 0 0 "[0x78]"]
      example_note_file example_reliable example_locate example_hex unfolding l by auto
qed


theorem editbuildid_ignores_failed_write_witness:
  "\<exists>fd'. editbuildid_main 1 0 0 [(CHR ''n'', ascii ''00c0FFEE'')] [[0x78]] (\<lambda>_. Some failing_file) =
      Some (Inr (0, Some fd', [])) \<and> file_bytes fd' = example_elf"
proof -
  let ?i = "found_info 120 (16, [0xde, 0xad, 0xbe, 0xef])"
  have "works 5 failing_file" by (simp add: works_def failing_file_def example_file_def)
  then obtain f1 where f: "find_build_id 1 0 0 failing_file no_info = Some (Inr (1, f1, ?i))"
    "file_bytes f1 = example_elf" "file_env f1 = file_env failing_file" "file_calls f1 = 5"
    using find_build_id_note_file [OF _ _ _ example_locate, of 1 failing_file example_info 120 20 0 0 no_info]
      example_note_file by (auto simp: failing_file_def example_file_def)
  then show ?thesis
    using editbuildid_ignores_failed_write [OF f(1) example_hex, of "[0x78]"]
    by (simp add: failing_file_def found_info_def)
qed

text \<open>
  A file without note segments: the type of its program header is \<open>PT_LOAD\<close>. What the
  program does with it is decided by what \<open>rv\<close> held in \<open>find_buildid_phdr\<close> before the
  search: a positive value is taken for a build ID that was found, and the string that
  is then printed is NULL; any other value is the exit value.
\<close>

definition load_file :: ofile where
  "load_file = example_file\<lparr>file_bytes := example_ehdr @ [1] @ tl example_phdr\<rparr>"

lemma editbuildid_unset_result:
  "\<exists>fd'. editbuildid_main 1 junk_ph junk_sh [(CHR ''p'', [])] [[0x78]] (\<lambda>_. Some load_file) =
    (if 0 < junk_ph then Some (Inl Null_pointer) else Some (Inr (junk_ph, Some fd', [])))"
proof -
  have l: "length (file_bytes load_file) = 120" "window (file_bytes load_file) 0 64 = example_ehdr"
    "window (file_bytes load_file) 64 56 = [1] @ tl example_phdr" by code_simp+
  have r: "reliable load_file" "file_pos load_file = 0" by (simp_all add: load_file_def reliable_def example_file_def)
  obtain f1 where f1: "file_read load_file 64 = (f1, 64, example_ehdr)" "file_bytes f1 = file_bytes load_file" "reliable f1"
    using reliable_read [OF r(1), of 64] r(2) l by (auto simp: MAX_RW_COUNT_def)
  obtain f2 where f2: "fetch_data f1 64 56 = (f2, Some ([1] @ tl example_phdr))"
    using fetch_data_works [of f1 64 56] f1(2,3) l by (auto simp: MAX_RW_COUNT_def)
  have g: "getfield16 1 example_info example_ehdr 0 Ehdr_e_phnum = Inr 1"
    "getaddr 1 example_info example_ehdr 0 Ehdr_e_phoff = Inr 64"
    "getfield16 1 example_info example_ehdr 0 Ehdr_e_phentsize = Inr 56"
    "find_notes_phdr 1 ([1] @ tl example_phdr) example_info 0 1 56 = Inr None" by code_simp+
  have ph: "find_buildid_phdr 1 junk_ph f1 example_info example_ehdr out = Some (Inr (junk_ph, f2, out))" for out
    using f2 g(4) by (simp add: find_buildid_phdr_def g(1-3) phdr_loop.simps mul16_def)
  have s: "getfield16 1 example_info example_ehdr 0 Ehdr_e_shnum = Inr 0"
    "getaddr 1 example_info example_ehdr 0 Ehdr_e_shoff = Inr 0"
    "getfield16 1 example_info example_ehdr 0 Ehdr_e_shentsize = Inr 0" by code_simp+
  have sh: "find_buildid_shdr 1 junk_sh f2 example_info example_ehdr out = Some (Inr (0, f2, out))" for out
    by (simp add: find_buildid_shdr_def s)
  have e: "example_ehdr ! 0 = 0x7f" "example_ehdr ! 1 = 0x45" "example_ehdr ! 2 = 0x4c" "example_ehdr ! 3 = 0x46"
    "\<lparr>endian = uint (example_ehdr ! 5), bits = uint (example_ehdr ! 4)\<rparr> = example_info"
    "bits example_info = 2" "endian example_info = 1" by code_simp+
  have "find_build_id 1 junk_ph junk_sh load_file out = Some (Inr (junk_ph, f2, out))" for out
    unfolding find_build_id_def f1(1) prod.case Let_def e(5) using ph sh e(1-4,6,7) by simp
  then show ?thesis by (auto simp: editbuildid_main_def)
qed

end
