(* ===== verification/VmcoreInfo.thy ===== *)
theory VmcoreInfo
  imports BuildIdEdit
begin

text \<open>
  \<open>editvmcoreinfo\<close> (\<open>src/vmcoreinfo/editvmcoreinfo.c\<close>): replace the contents of the
  VMCOREINFO note of a 64-bit little-endian core dump, on a machine of that byte order:
  shift what follows the note, adjust the program headers. Structures are records, the
  arrays of them lists; pointers into the notes are offsets; messages are left out.
\<close>

section \<open>Structures\<close>

text \<open>The fields of the ELF header that are used, and all of a program header.\<close>

record Elf64_Ehdr =
  e_ident :: "u8 list"
  e_phoff :: u64
  e_phentsize :: u16
  e_phnum :: u16
  e_shentsize :: u16

record Elf64_Phdr =
  p_type :: u32
  p_flags :: u32
  p_offset :: u64
  p_vaddr :: u64
  p_paddr :: u64
  p_filesz :: u64
  p_memsz :: u64
  p_align :: u64

definition num_at :: "u8 list \<Rightarrow> nat \<Rightarrow> nat \<Rightarrow> nat" where
  "num_at bs p n = le_nat (window bs p n)"

definition decode_ehdr :: "u8 list \<Rightarrow> Elf64_Ehdr" where
  "decode_ehdr bs = \<lparr>e_ident = window bs 0 16, e_phoff = of_nat (num_at bs 32 8),
    e_phentsize = of_nat (num_at bs 54 2), e_phnum = of_nat (num_at bs 56 2),
    e_shentsize = of_nat (num_at bs 58 2)\<rparr>"

definition decode_phdr :: "u8 list \<Rightarrow> Elf64_Phdr" where
  "decode_phdr bs = \<lparr>p_type = of_nat (num_at bs 0 4), p_flags = of_nat (num_at bs 4 4),
    p_offset = of_nat (num_at bs 8 8), p_vaddr = of_nat (num_at bs 16 8),
    p_paddr = of_nat (num_at bs 24 8), p_filesz = of_nat (num_at bs 32 8),
    p_memsz = of_nat (num_at bs 40 8), p_align = of_nat (num_at bs 48 8)\<rparr>"

definition encode_phdr :: "Elf64_Phdr \<Rightarrow> u8 list" where
  "encode_phdr p = le_bytes 4 (unat (p_type p)) @ le_bytes 4 (unat (p_flags p)) @
    le_bytes 8 (unat (p_offset p)) @ le_bytes 8 (unat (p_vaddr p)) @ le_bytes 8 (unat (p_paddr p)) @
    le_bytes 8 (unat (p_filesz p)) @ le_bytes 8 (unat (p_memsz p)) @ le_bytes 8 (unat (p_align p))"

text \<open>An array of \<open>n\<close> program headers.\<close>

definition decode_phdrs :: "nat \<Rightarrow> u8 list \<Rightarrow> Elf64_Phdr list" where
  "decode_phdrs n bs = map (\<lambda>i. decode_phdr (window bs (i * 56) 56)) [0..<n]"

definition encode_phdrs :: "Elf64_Phdr list \<Rightarrow> u8 list" where
  "encode_phdrs ps = concat (map encode_phdr ps)"

text \<open>
  \<open>se_vi_note\<close> is the pointer \<open>vi_note\<close>, an offset into \<open>se_notes\<close>.
\<close>

record saved_elfdata =
  se_ehdr :: Elf64_Ehdr
  se_phdr :: "Elf64_Phdr list"
  se_notes :: "u8 list"
  se_vi_note :: nat
  notes_start :: u64
  notes_len :: u64
  notes_seg :: nat
  vi_note_start :: u64
  vi_note_end :: u64
  old_descsz :: u64

section \<open>Notes\<close>

definition vi_pad4 :: "u64 \<Rightarrow> u64" where
  "vi_pad4 v = (if v AND 3 \<noteq> 0 then (v AND NOT 3) + 4 else v)"

text \<open>A field of a note header in the buffer.\<close>

definition note_field :: "u8 list \<Rightarrow> nat \<Rightarrow> nat \<Rightarrow> crash + u32" where
  "note_field notes nhdr off = bindR (load notes (nhdr + off) 4) (\<lambda>bs. Inr (of_nat (le_nat bs)))"

definition vi_next_note :: "nat \<Rightarrow> u32 \<Rightarrow> u32 \<Rightarrow> nat" where
  "vi_next_note nhdr namesz descsz = nhdr + 12 + unat (vi_pad4 (ucast namesz) + vi_pad4 (ucast descsz))"

definition vi_end_notes :: "u64 \<Rightarrow> nat \<Rightarrow> bool" where
  "vi_end_notes len ptr \<longleftrightarrow> ptr \<ge> unat len"

text \<open>
  The loop over the notes: it goes on after a match, so the last match counts. The
  result is the note's offset, \<open>namesz\<close> and \<open>descsz\<close>.
\<close>

function vi_notes_loop :: "u8 list \<Rightarrow> u64 \<Rightarrow> (nat \<times> u32 \<times> u32) option \<Rightarrow> nat \<Rightarrow>
    crash + (nat \<times> u32 \<times> u32) option" where
  "vi_notes_loop notes len found nhdr =
    (if vi_end_notes len nhdr then Inr found
     else bindR (strcmp_is (ascii ''VMCOREINFO'') notes (nhdr + 12)) (\<lambda>same.
       bindR (note_field notes nhdr 8) (\<lambda>type1.
       bindR (note_field notes nhdr 0) (\<lambda>namesz.
       bindR (note_field notes nhdr 4) (\<lambda>descsz.
         vi_notes_loop notes len (if same \<and> type1 = 0 then Some (nhdr, namesz, descsz) else found)
           (vi_next_note nhdr namesz descsz))))))"
  by pat_completeness auto
termination
  by (relation "measure (\<lambda>(notes, len, found, nhdr). unat len - nhdr)")
    (auto simp: vi_end_notes_def vi_next_note_def)

declare vi_notes_loop.simps [simp del]

section \<open>Reading the headers and the note\<close>

text \<open>\<open>read_newdata\<close>: the file is \<open>None\<close> when \<open>fopen\<close> fails; the result is \<open>None\<close> for -1.\<close>

definition read_newdata :: "ofile option \<Rightarrow> (u64 \<times> u8 list) option" where
  "read_newdata file1 =
    (case file1 of None \<Rightarrow> None
     | Some f \<Rightarrow>
       (case lseek_end f of (f, len) \<Rightarrow>
        if len < 0 then None
        else case lseek_set f 0 of (f, r) \<Rightarrow>
        if r < 0 then None
        else case file_fread f (nat len) of (f, n, data) \<Rightarrow>
        if n \<noteq> nat len then None
        else Some (of_nat (nat len) + 1, data @ [0])))"

text \<open>The index of the first note segment.\<close>

fun first_note :: "Elf64_Phdr list \<Rightarrow> nat \<Rightarrow> nat option" where
  "first_note [] i = None"
| "first_note (p # ps) i = (if p_type p \<noteq> PT_NOTE then first_note ps (i + 1) else Some i)"

definition read_elfdata :: "ofile \<Rightarrow> crash + ofile \<times> saved_elfdata option" where
  "read_elfdata fd =
    (case file_read fd 64 of (fd, rv, buf) \<Rightarrow>
     if rv \<noteq> 64 then Inr (fd, None)
     else let ehdr = decode_ehdr buf in
     if \<not> (e_ident ehdr ! 0 = 0x7f \<and> e_ident ehdr ! 1 = 0x45 \<and> e_ident ehdr ! 2 = 0x4c \<and> e_ident ehdr ! 3 = 0x46) then
       Inr (fd, None)
     else if e_ident ehdr ! 4 \<noteq> 2 then Inr (fd, None)
     else if e_ident ehdr ! 5 \<noteq> 1 then Inr (fd, None)
     else if e_shentsize ehdr \<noteq> 0 then Inr (fd, None)
     else if e_phentsize ehdr \<noteq> 56 then Inl Assert_failed
     else
       let n = unat (e_phnum ehdr); sz = 56 * n in
       case lseek_set fd (e_phoff ehdr) of (fd, pos) \<Rightarrow>
       if pos = -1 then Inr (fd, None)
       else case file_read fd sz of (fd, rv, buf) \<Rightarrow>
       if rv \<noteq> int sz then Inr (fd, None)
       else let phdr = decode_phdrs n buf in
       case first_note phdr 0 of None \<Rightarrow> Inr (fd, None)
       | Some i \<Rightarrow>
         let start = p_offset (phdr ! i); len = p_filesz (phdr ! i) in
         case lseek_set fd start of (fd, pos) \<Rightarrow>
         if pos < 0 then Inr (fd, None)
         else case file_read fd (unat len) of (fd, rv, notes) \<Rightarrow>
         if word_of_int rv \<noteq> len then Inr (fd, None)
         else if unat len \<ge> 2 ^ 63 then Inl Null_pointer
         else bindR (vi_notes_loop notes len None 0) (\<lambda>found.
           case found of None \<Rightarrow> Inr (fd, None)
           | Some (offset, namesz, descsz) \<Rightarrow>
             Inr (fd, Some \<lparr>se_ehdr = ehdr, se_phdr = phdr, se_notes = notes, se_vi_note = offset,
               notes_start = start, notes_len = len, notes_seg = i, vi_note_start = of_nat offset,
               vi_note_end = of_nat offset + 12 + vi_pad4 (ucast descsz) + vi_pad4 (ucast namesz),
               old_descsz = ucast descsz\<rparr>)))"

section \<open>The program headers\<close>

text \<open>The new headers: the note segment grows by \<open>sizediff\<close> and the ones after it move.\<close>

definition grow_segment :: "u64 \<Rightarrow> Elf64_Phdr \<Rightarrow> Elf64_Phdr" where
  "grow_segment sizediff p =
    (let p = p\<lparr>p_filesz := p_filesz p + sizediff\<rparr> in
     if p_memsz p \<noteq> 0 then p\<lparr>p_memsz := p_memsz p + sizediff\<rparr> else p)"

definition move_segment :: "u64 \<Rightarrow> Elf64_Phdr \<Rightarrow> Elf64_Phdr" where
  "move_segment sizediff p = p\<lparr>p_offset := p_offset p + sizediff\<rparr>"

definition new_phdrs :: "saved_elfdata \<Rightarrow> u64 \<Rightarrow> Elf64_Phdr list" where
  "new_phdrs se newdescsz =
    (let sizediff = vi_pad4 newdescsz - vi_pad4 (old_descsz se); i = notes_seg se in
     take i (se_phdr se) @ grow_segment sizediff (se_phdr se ! i) #
       map (move_segment sizediff) (drop (i + 1) (se_phdr se)))"

definition update_offsets :: "ofile \<Rightarrow> saved_elfdata \<Rightarrow> u64 \<Rightarrow> ofile \<times> saved_elfdata \<times> int" where
  "update_offsets fd se newdescsz =
    (let se = se\<lparr>se_phdr := new_phdrs se newdescsz\<rparr>;
         sz = 56 * unat (e_phnum (se_ehdr se)) in
     case lseek_set fd (e_phoff (se_ehdr se)) of (fd, pos) \<Rightarrow>
     if pos = -1 then (fd, se, -1)
     else case file_write fd (encode_phdrs (se_phdr se)) of (fd, rv) \<Rightarrow>
     if rv \<noteq> int sz then (fd, se, -1)
     else (fd, se, 0))"

section \<open>Moving the data\<close>

partial_function (option) sendfile_loop ::
  "u64 \<Rightarrow> ofile \<Rightarrow> ofile \<Rightarrow> u64 \<Rightarrow> (ofile \<times> ofile \<times> int) option" where
  "sendfile_loop amt dst src cur =
    (case sendfile dst src (unat (amt - cur)) of (dst, src, rv) \<Rightarrow>
     if rv < 0 then Some (dst, src, -1)
     else let cur = cur + word_of_int rv in
       if cur < amt then sendfile_loop amt dst src cur else Some (dst, src, 0))"

declare sendfile_loop.simps [code]

text \<open>The new note: the old header and name, the new size and contents, padded with zeros.\<close>

definition new_note :: "saved_elfdata \<Rightarrow> u64 \<Rightarrow> u8 list \<Rightarrow> crash + u8 list" where
  "new_note se newdescsz newdesc =
    bindR (note_field (se_notes se) (se_vi_note se) 0) (\<lambda>namesz.
    bindR (load (se_notes se) (se_vi_note se) (12 + unat (vi_pad4 (ucast namesz)))) (\<lambda>old.
      let zeros = replicate (12 + unat (vi_pad4 (ucast namesz)) + unat (vi_pad4 newdescsz)) 0;
          note1 = patch zeros 0 old;
          note1 = patch note1 4 (le_bytes 4 (unat (ucast newdescsz :: u32)))
      in Inr (patch note1 (12 + unat (vi_pad4 (ucast namesz))) newdesc)))"

text \<open>
  \<open>tmp\<close>: the temporary file, \<open>None\<close> when \<open>mkstemp\<close> fails; \<open>unlink_ok\<close>: whether
  \<open>unlink\<close> succeeds. The result is the file and the return value.
\<close>

definition shift_data :: "ofile option \<Rightarrow> bool \<Rightarrow> ofile \<Rightarrow> saved_elfdata \<Rightarrow> u64 \<Rightarrow> u8 list \<Rightarrow>
    (ofile \<times> int) run" where
  "shift_data tmp unlink_ok fd se newdescsz newdesc =
    bindO (Some (new_note se newdescsz newdesc)) (\<lambda>newnote.
     case lseek_end fd of (fd, length1) \<Rightarrow>
     if length1 = -1 then Some (Inr (fd, -1))
     else case lseek_set fd (notes_start se + vi_note_end se) of (fd, r) \<Rightarrow>
     if r < 0 then Some (Inr (fd, -1))
     else case tmp of None \<Rightarrow> Some (Inr (fd, -1))
     | Some tmpfd \<Rightarrow>
       if \<not> unlink_ok then Some (Inr (fd, -1))
       else let offset = notes_start se + vi_note_end se;
                savesz = word_of_int length1 - offset in
       case sendfile_loop savesz tmpfd fd 0 of None \<Rightarrow> None
       | Some (tmpfd, fd, r) \<Rightarrow>
       if r < 0 then Some (Inr (fd, -1))
       else case ftruncate fd (notes_start se + vi_note_start se) of (fd, r) \<Rightarrow>
       if r < 0 then Some (Inr (fd, -1))
       else case lseek_end fd of (fd, r) \<Rightarrow>
       if r = -1 then Some (Inr (fd, -1))
       else case lseek_set tmpfd 0 of (tmpfd, r) \<Rightarrow>
       if r = -1 then Some (Inr (fd, -1))
       else case file_write fd newnote of (fd, rv) \<Rightarrow>
       if rv \<noteq> int (length newnote) then Some (Inr (fd, -1))
       else case sendfile_loop savesz fd tmpfd 0 of None \<Rightarrow> None
       | Some (fd, tmpfd, r) \<Rightarrow>
       if r < 0 then Some (Inr (fd, -1)) else Some (Inr (fd, 0)))"

text \<open>
  \<open>main\<close> with the two files it opens; the result is the exit value and the core dump
  (if it was opened).
\<close>

definition editvmcoreinfo_main :: "nat \<Rightarrow> ofile option \<Rightarrow> ofile option \<Rightarrow> ofile option \<Rightarrow> bool \<Rightarrow>
    (int \<times> ofile option) run" where
  "editvmcoreinfo_main argc vmcore vmcoreinfo tmp unlink_ok =
    (if argc \<noteq> 3 then Some (Inr (-1, None))
     else case read_newdata vmcoreinfo of None \<Rightarrow> Some (Inr (1, None))
     | Some (newsize, newdata) \<Rightarrow>
       case vmcore of None \<Rightarrow> Some (Inr (1, None))
       | Some fd \<Rightarrow>
         bindO (Some (read_elfdata fd)) (\<lambda>(fd, se).
           case se of None \<Rightarrow> Some (Inr (1, Some fd))
           | Some se \<Rightarrow>
             case update_offsets fd se newsize of (fd, se, r) \<Rightarrow>
             if r < 0 then Some (Inr (1, Some fd))
             else bindO (shift_data tmp unlink_ok fd se newsize newdata) (\<lambda>(fd, r).
               Some (Inr (if r < 0 then 1 else 0, Some fd)))))"

end
