(* ===== verification/VmcoreProps.thy ===== *)
theory VmcoreProps
  imports VmcoreInfo
begin

text \<open>
  The parts of \<open>editvmcoreinfo\<close>: program headers decode and encode back, the walk over a
  list of notes finds the last VMCOREINFO note, and when the copy loop copies all it is
  asked to, is refused, or does not return.
\<close>

section \<open>Program headers\<close>

lemma length_encode_phdr [simp]: "length (encode_phdr p) = 56"
  by (simp add: encode_phdr_def)

lemma length_encode_phdrs [simp]: "length (encode_phdrs ps) = 56 * length ps"
  by (induction ps) (simp_all add: encode_phdrs_def)

lemma length_decode_phdrs [simp]: "length (decode_phdrs n bs) = n"
  by (simp add: decode_phdrs_def)

lemma num_at_mid: "length pre = p \<Longrightarrow> length xs = n \<Longrightarrow> num_at (pre @ xs @ rest) p n = le_nat xs"
  using window_mid [of pre p xs n rest] by (simp add: num_at_def)

lemma le_word:
  fixes w :: "'a :: len word"
  assumes "LENGTH('a) = 8 * n"
  shows "le_nat (le_bytes n (unat w)) = unat w"
proof -
  have "unat w < 2 ^ LENGTH('a)" by (rule unsigned_less)
  also have "\<dots> = 256 ^ n" using assms by (simp add: power_mult)
  finally show ?thesis by (simp add: le_nat_bytes)
qed

lemma decode_encode_phdr: "decode_phdr (encode_phdr p) = p"
proof -
  let ?t = "le_bytes 4 (unat (p_type p))" and ?f = "le_bytes 4 (unat (p_flags p))"
    and ?o = "le_bytes 8 (unat (p_offset p))" and ?v = "le_bytes 8 (unat (p_vaddr p))"
    and ?a = "le_bytes 8 (unat (p_paddr p))" and ?s = "le_bytes 8 (unat (p_filesz p))"
    and ?m = "le_bytes 8 (unat (p_memsz p))" and ?l = "le_bytes 8 (unat (p_align p))"
  let ?e = "encode_phdr p"
  have "num_at ?e 0 4 = unat (p_type p)" "num_at ?e 4 4 = unat (p_flags p)"
    "num_at ?e 8 8 = unat (p_offset p)" "num_at ?e 16 8 = unat (p_vaddr p)"
    "num_at ?e 24 8 = unat (p_paddr p)" "num_at ?e 32 8 = unat (p_filesz p)"
    "num_at ?e 40 8 = unat (p_memsz p)" "num_at ?e 48 8 = unat (p_align p)"
    using num_at_mid [of "[]" 0 ?t 4 "?f @ ?o @ ?v @ ?a @ ?s @ ?m @ ?l"]
      num_at_mid [of ?t 4 ?f 4 "?o @ ?v @ ?a @ ?s @ ?m @ ?l"]
      num_at_mid [of "?t @ ?f" 8 ?o 8 "?v @ ?a @ ?s @ ?m @ ?l"]
      num_at_mid [of "?t @ ?f @ ?o" 16 ?v 8 "?a @ ?s @ ?m @ ?l"]
      num_at_mid [of "?t @ ?f @ ?o @ ?v" 24 ?a 8 "?s @ ?m @ ?l"]
      num_at_mid [of "?t @ ?f @ ?o @ ?v @ ?a" 32 ?s 8 "?m @ ?l"]
      num_at_mid [of "?t @ ?f @ ?o @ ?v @ ?a @ ?s" 40 ?m 8 "?l"]
      num_at_mid [of "?t @ ?f @ ?o @ ?v @ ?a @ ?s @ ?m" 48 ?l 8 "[]"]
    by (simp_all add: encode_phdr_def le_word)
  then show ?thesis by (simp add: decode_phdr_def)
qed

lemma window_encode_phdrs:
  "i < length ps \<Longrightarrow> window (encode_phdrs ps) (i * 56) 56 = encode_phdr (ps ! i)"
proof (induction ps arbitrary: i)
  case (Cons p ps)
  show ?case
  proof (cases i)
    case 0
    then show ?thesis by (simp add: encode_phdrs_def window_def)
  next
    case (Suc j)
    then show ?thesis using Cons by (simp add: encode_phdrs_def window_def)
  qed
qed simp

lemma decode_encode_phdrs: "decode_phdrs (length ps) (encode_phdrs ps) = ps"
  by (rule nth_equalityI) (simp_all add: decode_phdrs_def window_encode_phdrs decode_encode_phdr)

lemma first_note_bounds: "first_note ps k = Some i \<Longrightarrow> k \<le> i \<and> i < k + length ps \<and> p_type (ps ! (i - k)) = PT_NOTE"
proof (induction ps k rule: first_note.induct)
  case (2 p ps k)
  show ?case
  proof (cases "p_type p = PT_NOTE")
    case False
    with 2 have b: "Suc k \<le> i" "i < Suc k + length ps" "p_type (ps ! (i - Suc k)) = PT_NOTE" by auto
    then have "i - k = Suc (i - Suc k)" by simp
    with b show ?thesis by simp
  qed (use 2 in simp)
qed simp

text \<open>The search for the note segment looks at the types only.\<close>

lemma first_note_types: "map p_type ps = map p_type qs \<Longrightarrow> first_note ps k = first_note qs k"
proof (induction ps arbitrary: qs k)
  case (Cons p ps)
  then obtain q qs' where "qs = q # qs'" "p_type q = p_type p" "map p_type ps = map p_type qs'" by (cases qs) auto
  then show ?case using Cons.IH [of qs'] by simp
qed simp

section \<open>The walk over the notes\<close>

lemma vi_pad4_eq: "vi_pad4 = pad4"
  by (intro ext) (simp add: vi_pad4_def pad4_def)

lemma unat_vi_pad4_u32: "unat (vi_pad4 (ucast (n :: u32))) = round4 (unat n)"
proof -
  have "unat n < 2 ^ 32" using unsigned_less [of n] by simp
  then show ?thesis using unat_pad4 [of "ucast n"]
    by (simp add: vi_pad4_eq unsigned_ucast_eq take_bit_nat_eq_self)
qed

abbreviation le64 :: elfinfo where
  "le64 \<equiv> \<lparr>endian = 1, bits = 2\<rparr>"

lemma note_field_getfield: "note_field notes p off = getfield32 1 le64 notes p (off, off)"
  by (simp add: note_field_def getfield32_eq valid_info_def offset_of_def mem_nat_def)

definition is_vmcoreinfo :: "elfnote \<Rightarrow> bool" where
  "is_vmcoreinfo n \<longleftrightarrow> takeWhile (\<lambda>c. c \<noteq> 0) (n_name n) = ascii ''VMCOREINFO'' \<and> n_type n = 0"

text \<open>A note whose name is a C string and whose sizes fit in 32 bits.\<close>

definition wf_cnote :: "elfnote \<Rightarrow> bool" where
  "wf_cnote n \<longleftrightarrow> 0 \<in> set (n_name n) \<and> length (n_name n) < 2 ^ 32 \<and> length (n_desc n) < 2 ^ 32"

definition note_size :: "elfnote \<Rightarrow> nat" where
  "note_size n = 12 + round4 (length (n_name n)) + round4 (length (n_desc n))"

lemma length_encode_note [simp]: "length (encode_note e n) = note_size n"
  by (simp add: encode_note_def note_size_def)

lemma length_encode_notes: "length (encode_notes e ns) = sum_list (map note_size ns)"
  by (induction ns) (simp_all add: encode_notes_def)

fun last_vmcoreinfo :: "nat \<Rightarrow> (nat \<times> u32 \<times> u32) option \<Rightarrow> elfnote list \<Rightarrow> (nat \<times> u32 \<times> u32) option" where
  "last_vmcoreinfo p found [] = found"
| "last_vmcoreinfo p found (n # ns) = last_vmcoreinfo (p + note_size n)
    (if is_vmcoreinfo n then Some (p, of_nat (length (n_name n)), of_nat (length (n_desc n))) else found) ns"

lemma last_vmcoreinfo_append:
  "last_vmcoreinfo p found (ms @ ns) =
    last_vmcoreinfo (p + sum_list (map note_size ms)) (last_vmcoreinfo p found ms) ns"
  by (induction ms arbitrary: p found) (simp_all add: add.assoc)

lemma last_vmcoreinfo_none: "list_all (\<lambda>n. \<not> is_vmcoreinfo n) ns \<Longrightarrow> last_vmcoreinfo p found ns = found"
  by (induction ns arbitrary: p) simp_all

lemma ascii_nonzero: "0 \<notin> set (ascii ''VMCOREINFO'')"
  by (simp add: ascii_def)

lemma vi_next_note_encoded:
  assumes "wf_cnote n"
  shows "vi_next_note p (of_nat (length (n_name n))) (of_nat (length (n_desc n))) = p + note_size n"
proof -
  let ?a = "of_nat (length (n_name n)) :: u32" and ?b = "of_nat (length (n_desc n)) :: u32"
  have u: "unat ?a = length (n_name n)" "unat ?b = length (n_desc n)"
    using assms by (simp_all add: wf_cnote_def unsigned_of_nat take_bit_nat_eq_self)
  have p: "unat (vi_pad4 (ucast ?a)) = round4 (length (n_name n))" "unat (vi_pad4 (ucast ?b)) = round4 (length (n_desc n))"
    by (simp_all only: unat_vi_pad4_u32 u)
  have "round4 (length (n_name n)) + round4 (length (n_desc n)) < 2 ^ 64"
    using assms round4_bounds [of "length (n_name n)"] round4_bounds [of "length (n_desc n)"]
    by (auto simp: wf_cnote_def)
  then have "unat (vi_pad4 (ucast ?a) + vi_pad4 (ucast ?b)) = round4 (length (n_name n)) + round4 (length (n_desc n))"
    using p by (subst unat_add_lem [THEN iffD1]) simp_all
  then show ?thesis by (simp add: vi_next_note_def note_size_def)
qed

text \<open>One note: what follows its name may be anything, also less than its padded contents.\<close>

lemma vi_notes_loop_step:
  assumes n: "wf_cnote n" and p: "length pre = p" "p < unat len"
    and d: "notes = pre @ note_header 1 n @ padded (n_name n) @ rest"
  shows "vi_notes_loop notes len found p = vi_notes_loop notes len
    (if is_vmcoreinfo n then Some (p, of_nat (length (n_name n)), of_nat (length (n_desc n))) else found)
    (p + note_size n)"
proof -
  have d1: "notes = pre @ note_header (endian le64) n @ (padded (n_name n) @ rest)"
    using d by simp
  have d2: "notes = (pre @ note_header 1 n) @ n_name n @
      (replicate (round4 (length (n_name n)) - length (n_name n)) 0 @ rest)"
    using d by (simp add: padded_def)
  have s: "strcmp_is (ascii ''VMCOREINFO'') notes (p + 12) =
      Inr (takeWhile (\<lambda>c. c \<noteq> 0) (n_name n) = ascii ''VMCOREINFO'')"
    unfolding d2 by (rule strcmp_is_cstring) (use n p ascii_nonzero in \<open>simp_all add: wf_cnote_def\<close>)
  have f: "note_field notes p 0 = Inr (of_nat (length (n_name n)))"
    "note_field notes p 4 = Inr (of_nat (length (n_desc n)))" "note_field notes p 8 = Inr (n_type n)"
    unfolding note_field_getfield
    using header_fields [OF _ _ p(1) d1, of 1] n by (simp_all add: valid_info_def wf_cnote_def)
  show ?thesis
    using p(2) by (subst vi_notes_loop.simps)
      (simp add: vi_end_notes_def s f is_vmcoreinfo_def vi_next_note_encoded [OF n])
qed

lemma vi_notes_loop_end: "unat len \<le> p \<Longrightarrow> vi_notes_loop notes len found p = Inr found"
  by (subst vi_notes_loop.simps) (simp add: vi_end_notes_def)

lemma vi_notes_loop_prefix:
  assumes "list_all wf_cnote ns" and "length pre = p" and "notes = pre @ encode_notes 1 ns @ rest"
    and "unat len = length notes"
  shows "vi_notes_loop notes len found p =
    vi_notes_loop notes len (last_vmcoreinfo p found ns) (p + sum_list (map note_size ns))"
  using assms
proof (induction ns arbitrary: pre p found)
  case (Cons n ns)
  from Cons.prems have n: "wf_cnote n" and ns: "list_all wf_cnote ns" by simp_all
  have d: "notes = pre @ encode_note 1 n @ encode_notes 1 ns @ rest"
    using Cons.prems(3) by (simp add: encode_notes_def)
  then have d': "notes = pre @ note_header 1 n @ padded (n_name n) @ (padded (n_desc n) @ encode_notes 1 ns @ rest)"
    by (simp add: encode_note_def)
  have "p < unat len" using d Cons.prems(2,4) by (simp add: note_size_def)
  note step = vi_notes_loop_step [OF n Cons.prems(2) this d']
  show ?case
    unfolding step using Cons.prems(2,4) d
    by (subst Cons.IH [OF ns, of "pre @ encode_note 1 n"]) (simp_all add: add.assoc)
qed simp

lemma vi_notes_loop_encoded:
  assumes "list_all wf_cnote ns" and "length pre = p" and "notes = pre @ encode_notes 1 ns"
    and "unat len = length notes"
  shows "vi_notes_loop notes len found p = Inr (last_vmcoreinfo p found ns)"
  using vi_notes_loop_prefix [OF assms(1,2) _ assms(4), of "[]" found] assms
  by (simp add: vi_notes_loop_end length_encode_notes)

section \<open>The copy loop\<close>

lemma sendfile_reliable:
  assumes "reliable src" and "n < 2 ^ 63"
  shows "sendfile dst src n =
    (let got = window (file_bytes src) (file_pos src) (min n MAX_RW_COUNT)
     in (dst\<lparr>file_bytes := patch (file_bytes dst) (file_pos dst) got, file_pos := file_pos dst + length got\<rparr>,
         (file_tick src)\<lparr>file_pos := file_pos src + length got\<rparr>, int (length got)))"
  using assms by (simp add: sendfile_def)

text \<open>A count that is negative as a \<open>ssize_t\<close> is refused at once.\<close>

lemma sendfile_loop_refused:
  assumes "2 ^ 63 \<le> unat amt"
  shows "sendfile_loop amt dst src 0 = Some (dst, file_tick src, -1)"
  using assms by (subst sendfile_loop.simps) (simp add: sendfile_def)

lemma window_split: "n = k + m \<Longrightarrow> window bs p n = window bs p k @ window bs (p + k) m"
  by (simp add: window_append)

text \<open>What is left to copy is more than the source has: the loop never ends.\<close>

definition starved :: "u64 \<Rightarrow> ofile \<Rightarrow> u64 \<Rightarrow> bool" where
  "starved amt src cur \<longleftrightarrow> reliable src \<and> cur \<le> amt \<and> unat amt < 2 ^ 63 \<and>
    length (file_bytes src) - file_pos src < unat amt - unat cur"

lemma cur_step:
  fixes amt cur :: u64
  assumes "cur \<le> amt" and "k \<le> unat amt - unat cur"
  shows "unat (cur + word_of_int (int k)) = unat cur + k" and "cur + word_of_int (int k) \<le> amt"
proof -
  have a: "unat cur \<le> unat amt" "unat amt < 2 ^ 64"
    using assms(1) unsigned_less [of amt] by (simp_all add: word_le_nat_alt)
  then have k: "unat (of_nat k :: u64) = k" using assms(2) by (simp add: unsigned_of_nat take_bit_nat_eq_self)
  have "unat cur + unat (of_nat k :: u64) < 2 ^ 64" using a assms(2) k by linarith
  then show s: "unat (cur + word_of_int (int k)) = unat cur + k"
    using k by simp (subst unat_add_lem [THEN iffD1], simp_all)
  show "cur + word_of_int (int k) \<le> amt" using s a assms(2) by (simp add: word_le_nat_alt)
qed

lemma unat_rest: "(cur :: u64) \<le> amt \<Longrightarrow> unat (amt - cur) = unat amt - unat cur"
  by (rule unat_sub)

lemma sendfile_loop_unfold:
  fixes dst :: ofile
  assumes r: "reliable src" and c: "cur \<le> amt" and amt: "unat amt < 2 ^ 63"
  defines "got \<equiv> window (file_bytes src) (file_pos src) (min (unat amt - unat cur) MAX_RW_COUNT)"
  defines "dst1 \<equiv> dst\<lparr>file_bytes := patch (file_bytes dst) (file_pos dst) got, file_pos := file_pos dst + length got\<rparr>"
    and "src1 \<equiv> (file_tick src)\<lparr>file_pos := file_pos src + length got\<rparr>"
    and "cur1 \<equiv> cur + word_of_int (int (length got))"
  shows "sendfile_loop amt dst src cur =
      (if cur1 < amt then sendfile_loop amt dst1 src1 cur1 else Some (dst1, src1, 0))"
    and "reliable src1" and "cur1 \<le> amt" and "unat cur1 = unat cur + length got"
    and "length got \<le> unat amt - unat cur" and "length got \<le> length (file_bytes src) - file_pos src"
proof -
  show l: "length got \<le> unat amt - unat cur" "length got \<le> length (file_bytes src) - file_pos src"
    by (simp_all add: got_def length_window)
  show "cur1 \<le> amt" "unat cur1 = unat cur + length got"
    unfolding cur1_def using cur_step [OF c l(1)] by simp_all
  show "reliable src1" using r by (simp add: reliable_def src1_def)
  have "unat amt - unat cur < 2 ^ 63" using amt by linarith
  then show "sendfile_loop amt dst src cur =
      (if cur1 < amt then sendfile_loop amt dst1 src1 cur1 else Some (dst1, src1, 0))"
    by (subst sendfile_loop.simps)
      (simp add: sendfile_reliable [OF r] unat_rest [OF c] Let_def
        got_def [symmetric] dst1_def [symmetric] src1_def [symmetric] cur1_def [symmetric] del: of_int_of_nat_eq)
qed

lemma starved_step:
  assumes "starved amt src cur"
  shows "case sendfile dst src (unat (amt - cur)) of (dst1, src1, rv) \<Rightarrow>
    0 \<le> rv \<and> cur + word_of_int rv < amt \<and> starved amt src1 (cur + word_of_int rv)"
proof -
  from assms have r: "reliable src" and c: "cur \<le> amt" and m: "unat amt < 2 ^ 63"
    and s: "length (file_bytes src) - file_pos src < unat amt - unat cur" by (simp_all add: starved_def)
  let ?got = "window (file_bytes src) (file_pos src) (min (unat amt - unat cur) MAX_RW_COUNT)"
  note u = sendfile_loop_unfold [OF r c m]
  have "unat amt - unat cur < 2 ^ 63" using m by linarith
  moreover have "unat (cur + word_of_int (int (length ?got))) < unat amt" using u(4,6) s by linarith
  moreover have "length (file_bytes src) - (file_pos src + length ?got) <
      unat amt - unat (cur + word_of_int (int (length ?got)))"
    using u(4,5,6) s by linarith
  ultimately show ?thesis using u(2,3) m
    by (simp add: sendfile_reliable [OF r] unat_rest [OF c] Let_def starved_def word_less_nat_alt del: of_int_of_nat_eq)
qed

lemma sendfile_loop_starved:
  assumes "starved amt src cur"
  shows "sendfile_loop amt dst src cur = None"
proof -
  have "\<not> starved amt src cur" if "sendfile_loop amt dst src cur = Some r" for amt dst src cur r
  proof (rule sendfile_loop.raw_induct [where P = "\<lambda>amt dst src cur r. \<not> starved amt src cur", OF _ that])
    fix f :: "u64 \<Rightarrow> ofile \<Rightarrow> ofile \<Rightarrow> u64 \<Rightarrow> (ofile \<times> ofile \<times> int) option"
    fix amt dst src cur r
    assume IH: "\<And>amt dst src cur r. f amt dst src cur = Some r \<Longrightarrow> \<not> starved amt src cur"
    assume body: "(case sendfile dst src (unat (amt - cur)) of (dst, src, rv) \<Rightarrow>
     if rv < 0 then Some (dst, src, -1)
     else let cur = cur + word_of_int rv in
       if cur < amt then f amt dst src cur else Some (dst, src, 0)) = Some r"
    show "\<not> starved amt src cur"
    proof
      assume st: "starved amt src cur"
      obtain dst1 src1 rv where s: "sendfile dst src (unat (amt - cur)) = (dst1, src1, rv)"
        by (metis prod_cases3)
      with starved_step [OF st, of dst] have n: "0 \<le> rv" "cur + word_of_int rv < amt" "starved amt src1 (cur + word_of_int rv)"
        by simp_all
      with body s have "f amt dst1 src1 (cur + word_of_int rv) = Some r" by (simp add: Let_def)
      from IH [OF this] n(3) show False ..
    qed
  qed
  then show ?thesis using assms by (cases "sendfile_loop amt dst src cur") auto
qed

lemma sendfile_loop_copies:
  assumes "reliable src" and "cur \<le> amt" and "unat amt < 2 ^ 63"
    and "file_pos src + (unat amt - unat cur) \<le> length (file_bytes src)"
    and "file_pos dst = length (file_bytes dst)"
  shows "\<exists>dst' src'. sendfile_loop amt dst src cur = Some (dst', src', 0) \<and>
    file_bytes dst' = file_bytes dst @ window (file_bytes src) (file_pos src) (unat amt - unat cur) \<and>
    file_env dst' = file_env dst \<and> file_bytes src' = file_bytes src \<and> file_env src' = file_env src"
  using assms
proof (induction "unat amt - unat cur" arbitrary: src dst cur rule: less_induct)
  case less
  let ?got = "window (file_bytes src) (file_pos src) (min (unat amt - unat cur) MAX_RW_COUNT)"
  let ?dst = "dst\<lparr>file_bytes := patch (file_bytes dst) (file_pos dst) ?got, file_pos := file_pos dst + length ?got\<rparr>"
  let ?src = "(file_tick src)\<lparr>file_pos := file_pos src + length ?got\<rparr>"
  let ?cur = "cur + word_of_int (int (length ?got))"
  note u = sendfile_loop_unfold [OF less.prems(1-3)]
  have l: "length ?got = min (unat amt - unat cur) MAX_RW_COUNT" using less.prems(4) by (simp add: length_window)
  have d: "file_bytes ?dst = file_bytes dst @ ?got" using less.prems(5) by (simp add: patch_def)
  show ?case
  proof (cases "?cur < amt")
    case True
    then have lt: "unat ?cur < unat amt" by (simp add: word_less_nat_alt)
    then have m: "length ?got = MAX_RW_COUNT" "0 < length ?got"
      using u(4) l by (auto simp: min_def MAX_RW_COUNT_def split: if_splits)
    have w: "window (file_bytes src) (file_pos src) (unat amt - unat cur) =
        ?got @ window (file_bytes src) (file_pos src + length ?got) (unat amt - unat ?cur)"
    proof -
      have "unat amt - unat cur = length ?got + (unat amt - unat ?cur)" using u(4) lt by linarith
      then have "window (file_bytes src) (file_pos src) (unat amt - unat cur) =
          window (file_bytes src) (file_pos src) (length ?got) @
          window (file_bytes src) (file_pos src + length ?got) (unat amt - unat ?cur)"
        by (rule window_split)
      moreover have "window (file_bytes src) (file_pos src) (length ?got) = ?got" unfolding l ..
      ultimately show ?thesis by simp
    qed
    have "\<exists>dst' src'. sendfile_loop amt ?dst ?src ?cur = Some (dst', src', 0) \<and>
        file_bytes dst' = file_bytes ?dst @ window (file_bytes ?src) (file_pos ?src) (unat amt - unat ?cur) \<and>
        file_env dst' = file_env ?dst \<and> file_bytes src' = file_bytes ?src \<and> file_env src' = file_env ?src"
    proof (rule less.hyps)
      show "unat amt - unat ?cur < unat amt - unat cur" using u(4) m(2) lt by linarith
      show "reliable ?src" by (rule u(2))
      show "?cur \<le> amt" "unat amt < 2 ^ 63" by (rule u(3), rule less.prems(3))
      have "file_pos src + length ?got + (unat amt - unat ?cur) \<le> length (file_bytes src)"
        using less.prems(4) u(4) lt by linarith
      then show "file_pos ?src + (unat amt - unat ?cur) \<le> length (file_bytes ?src)" by simp
      show "file_pos ?dst = length (file_bytes ?dst)" unfolding d using less.prems(5) by simp
    qed
    then show ?thesis using u(1) [of dst] True d w by simp
  next
    case False
    then have "unat ?cur = unat amt" using u(3) by (simp add: word_less_nat_alt word_le_nat_alt)
    then have "length ?got = unat amt - unat cur" using u(4) by linarith
    then have "?got = window (file_bytes src) (file_pos src) (unat amt - unat cur)" using l by simp
    then show ?thesis using u(1) [of dst] False d by simp
  qed
qed

text \<open>The outcomes of the copy loop when no call fails.\<close>

lemma sendfile_loop_cases:
  assumes "reliable src" and "file_pos dst = length (file_bytes dst)"
  obtains (refused) "2 ^ 63 \<le> unat amt" "sendfile_loop amt dst src 0 = Some (dst, file_tick src, -1)"
  | (copied) dst' src' where "unat amt < 2 ^ 63" "unat amt \<le> length (file_bytes src) - file_pos src"
      "sendfile_loop amt dst src 0 = Some (dst', src', 0)"
      "file_bytes dst' = file_bytes dst @ window (file_bytes src) (file_pos src) (unat amt)"
      "file_env dst' = file_env dst" "file_bytes src' = file_bytes src" "file_env src' = file_env src"
  | (endless) "unat amt < 2 ^ 63" "length (file_bytes src) - file_pos src < unat amt"
      "sendfile_loop amt dst src 0 = None"
proof (cases "2 ^ 63 \<le> unat amt")
  case True
  then show ?thesis by (rule refused) (rule sendfile_loop_refused [OF True])
next
  case False
  then have m: "unat amt < 2 ^ 63" by simp
  show ?thesis
  proof (cases "unat amt \<le> length (file_bytes src) - file_pos src")
    case le: True
    show ?thesis
    proof (cases "amt = 0")
      case True
      have "window (file_bytes src) (file_pos src) 0 = []" by simp
      then have "sendfile_loop amt dst src 0 = Some (dst, file_tick src, 0)"
        using sendfile_loop_unfold(1) [OF assms(1) _ m, of 0 dst] True assms(2) by (simp add: patch_def)
      then show ?thesis by (rule copied [OF m le]) (use True in simp_all)
    next
      case False
      then have "0 < unat amt" using word_gt_0 [of amt] by (simp add: word_less_nat_alt)
      then have "file_pos src + (unat amt - unat (0 :: u64)) \<le> length (file_bytes src)" using le by simp
      from sendfile_loop_copies [OF assms(1) _ m this assms(2)] obtain dst' src' where
        "sendfile_loop amt dst src 0 = Some (dst', src', 0)"
        "file_bytes dst' = file_bytes dst @ window (file_bytes src) (file_pos src) (unat amt)"
        "file_env dst' = file_env dst" "file_bytes src' = file_bytes src" "file_env src' = file_env src" by auto
      then show ?thesis by (rule copied [OF m le])
    qed
  next
    case False
    then have "starved amt src 0" using assms(1) m by (simp add: starved_def)
    from sendfile_loop_starved [OF this] False show ?thesis by (intro endless [OF m]) simp_all
  qed
qed

text \<open>
  C27: when no call fails, \<open>sendfile_loop\<close> has three outcomes: it copies the bytes and
  returns 0 when the source still has as many as it is to copy; it never returns when
  the source has fewer, since at its end \<open>sendfile\<close> returns 0 for ever; and an amount
  that is negative as a \<open>ssize_t\<close> is refused, so it returns -1 with nothing copied.
\<close>

theorem sendfile_loop_outcomes:
  assumes "reliable src" and "file_pos dst = length (file_bytes dst)"
  shows "case sendfile_loop amt dst src 0 of
      None \<Rightarrow> unat amt < 2 ^ 63 \<and> length (file_bytes src) - file_pos src < unat amt
    | Some (dst', src', r) \<Rightarrow>
        if 2 ^ 63 \<le> unat amt then r = -1 \<and> dst' = dst \<and> file_bytes src' = file_bytes src
        else r = 0 \<and> unat amt \<le> length (file_bytes src) - file_pos src \<and>
          file_bytes dst' = file_bytes dst @ window (file_bytes src) (file_pos src) (unat amt) \<and>
          file_bytes src' = file_bytes src"
  by (rule sendfile_loop_cases [OF assms, of amt]) simp_all

end
