(* ===== verification/VmcoreEdit.thy ===== *)
theory VmcoreEdit
  imports VmcoreProps
begin

text \<open>
  What \<open>editvmcoreinfo\<close> does to a core dump: its contents after an edit, and what of it
  a reader finds: the new note, and the data of the segments that follow.
\<close>

section \<open>Core dumps\<close>

text \<open>
  A core dump as the program expects it: the header, the program headers behind it,
  and after them the note segment, the first \<open>PT_NOTE\<close> entry \<open>i\<close>, with the notes \<open>pre\<close>,
  the VMCOREINFO note \<open>n\<close> and the notes \<open>post\<close>.
\<close>

definition good_ehdr :: "Elf64_Ehdr \<Rightarrow> bool" where
  "good_ehdr eh \<longleftrightarrow> e_ident eh ! 0 = 0x7f \<and> e_ident eh ! 1 = 0x45 \<and> e_ident eh ! 2 = 0x4c \<and> e_ident eh ! 3 = 0x46 \<and>
    e_ident eh ! 4 = 2 \<and> e_ident eh ! 5 = 1 \<and> e_shentsize eh = 0 \<and> e_phentsize eh = 56"

definition note_segment :: "u8 list \<Rightarrow> Elf64_Phdr \<Rightarrow> elfnote list \<Rightarrow> bool" where
  "note_segment bs p ns \<longleftrightarrow> unat (p_offset p) + unat (p_filesz p) \<le> length bs \<and>
    unat (p_filesz p) \<le> MAX_RW_COUNT \<and>
    window bs (unat (p_offset p)) (unat (p_filesz p)) = encode_notes 1 ns \<and> list_all wf_cnote ns"

definition vmcore :: "u8 list \<Rightarrow> Elf64_Ehdr \<Rightarrow> Elf64_Phdr list \<Rightarrow> nat \<Rightarrow> elfnote list \<Rightarrow> elfnote \<Rightarrow> elfnote list \<Rightarrow> bool" where
  "vmcore bs eh phs i pre n post \<longleftrightarrow>
    64 \<le> length bs \<and> length bs < 2 ^ 62 \<and> eh = decode_ehdr (window bs 0 64) \<and> good_ehdr eh \<and>
    length phs = unat (e_phnum eh) \<and> 64 \<le> unat (e_phoff eh) \<and>
    window bs (unat (e_phoff eh)) (56 * length phs) = encode_phdrs phs \<and> first_note phs 0 = Some i \<and>
    unat (e_phoff eh) + 56 * length phs \<le> unat (p_offset (phs ! i)) \<and>
    note_segment bs (phs ! i) (pre @ n # post) \<and> is_vmcoreinfo n \<and> list_all (\<lambda>n. \<not> is_vmcoreinfo n) post"

text \<open>What of this concerns the headers and the place of the note segment only.\<close>

definition core_headers :: "u8 list \<Rightarrow> Elf64_Ehdr \<Rightarrow> Elf64_Phdr list \<Rightarrow> nat \<Rightarrow> bool" where
  "core_headers bs eh phs i \<longleftrightarrow>
    64 \<le> length bs \<and> length bs < 2 ^ 62 \<and> eh = decode_ehdr (window bs 0 64) \<and> good_ehdr eh \<and>
    length phs = unat (e_phnum eh) \<and> 64 \<le> unat (e_phoff eh) \<and>
    window bs (unat (e_phoff eh)) (56 * length phs) = encode_phdrs phs \<and> first_note phs 0 = Some i \<and>
    unat (e_phoff eh) + 56 * length phs \<le> unat (p_offset (phs ! i)) \<and>
    unat (p_offset (phs ! i)) + unat (p_filesz (phs ! i)) \<le> length bs \<and>
    unat (p_filesz (phs ! i)) \<le> MAX_RW_COUNT"

lemma vmcore_headers: "vmcore bs eh phs i pre n post \<Longrightarrow> core_headers bs eh phs i"
  unfolding vmcore_def core_headers_def note_segment_def by blast

abbreviation seg_start :: "Elf64_Phdr list \<Rightarrow> nat \<Rightarrow> nat" where
  "seg_start phs i \<equiv> unat (p_offset (phs ! i))"

abbreviation notes_size :: "elfnote list \<Rightarrow> nat" where
  "notes_size ns \<equiv> sum_list (map note_size ns)"

lemma core_sizes:
  assumes "core_headers bs eh phs i"
  shows "i < length phs" and "p_type (phs ! i) = PT_NOTE" and "56 * length phs \<le> MAX_RW_COUNT"
proof -
  from assms have f: "first_note phs 0 = Some i" by (simp add: core_headers_def)
  from first_note_bounds [OF f] show "i < length phs" "p_type (phs ! i) = PT_NOTE" by simp_all
  have "unat (e_phnum eh) < 2 ^ 16" using unsigned_less [of "e_phnum eh"] by simp
  then show "56 * length phs \<le> MAX_RW_COUNT" using assms by (simp add: core_headers_def MAX_RW_COUNT_def)
qed

lemma vmcore_sizes:
  assumes "vmcore bs eh phs i pre n post"
  shows "i < length phs" and "p_type (phs ! i) = PT_NOTE"
    and "unat (p_filesz (phs ! i)) = notes_size pre + note_size n + notes_size post"
    and "seg_start phs i + notes_size pre + note_size n \<le> length bs"
    and "56 * length phs \<le> MAX_RW_COUNT"
proof -
  from core_sizes [OF vmcore_headers [OF assms]]
  show "i < length phs" "p_type (phs ! i) = PT_NOTE" "56 * length phs \<le> MAX_RW_COUNT" by blast+
  from assms have w: "window bs (seg_start phs i) (unat (p_filesz (phs ! i))) = encode_notes 1 (pre @ n # post)"
    and l: "seg_start phs i + unat (p_filesz (phs ! i)) \<le> length bs"
    by (simp_all add: vmcore_def note_segment_def)
  have "unat (p_filesz (phs ! i)) = length (encode_notes 1 (pre @ n # post))"
    using w length_window_fit [OF l] by simp
  then show s: "unat (p_filesz (phs ! i)) = notes_size pre + note_size n + notes_size post"
    by (simp add: length_encode_notes)
  with l show "seg_start phs i + notes_size pre + note_size n \<le> length bs" by simp
qed

section \<open>Reading it\<close>

definition saved_of :: "Elf64_Ehdr \<Rightarrow> Elf64_Phdr list \<Rightarrow> nat \<Rightarrow> elfnote list \<Rightarrow> elfnote \<Rightarrow> elfnote list \<Rightarrow> saved_elfdata" where
  "saved_of eh phs i pre n post = \<lparr>se_ehdr = eh, se_phdr = phs, se_notes = encode_notes 1 (pre @ n # post),
    se_vi_note = notes_size pre, notes_start = p_offset (phs ! i), notes_len = p_filesz (phs ! i), notes_seg = i,
    vi_note_start = of_nat (notes_size pre), vi_note_end = of_nat (notes_size pre + note_size n),
    old_descsz = of_nat (length (n_desc n))\<rparr>"

lemma ucast_of_nat32: "k < 2 ^ 32 \<Longrightarrow> (ucast (of_nat k :: u32) :: u64) = of_nat k"
  by (simp add: word_unat_eq_iff unsigned_ucast_eq unsigned_of_nat take_bit_nat_eq_self)

lemma vi_pad4_of_nat: "k < 2 ^ 32 \<Longrightarrow> vi_pad4 (of_nat k) = of_nat (round4 k)"
  unfolding vi_pad4_eq pad4_nat by (simp add: unsigned_of_nat take_bit_nat_eq_self round4_def)

text \<open>Reading, when the walk over the note segment finds a note.\<close>

lemma read_elfdata_headers:
  assumes v: "core_headers (file_bytes fd) eh phs i" and r: "reliable fd" "file_pos fd = 0"
    and w: "window (file_bytes fd) (seg_start phs i) (unat (p_filesz (phs ! i))) = notes"
    and loop: "vi_notes_loop notes (p_filesz (phs ! i)) None 0 = Inr (Some (o1, a, b))"
  shows "\<exists>fd'. read_elfdata fd = Inr (fd', Some \<lparr>se_ehdr = eh, se_phdr = phs, se_notes = notes, se_vi_note = o1,
      notes_start = p_offset (phs ! i), notes_len = p_filesz (phs ! i), notes_seg = i, vi_note_start = of_nat o1,
      vi_note_end = of_nat o1 + 12 + vi_pad4 (ucast b) + vi_pad4 (ucast a), old_descsz = ucast b\<rparr>) \<and>
    file_bytes fd' = file_bytes fd \<and> reliable fd'"
proof -
  let ?bs = "file_bytes fd" and ?p = "phs ! i"
  note sz = core_sizes [OF v]
  from v have l: "64 \<le> length ?bs" "length ?bs < 2 ^ 62" and eh: "eh = decode_ehdr (window ?bs 0 64)" and g: "good_ehdr eh"
    and n: "length phs = unat (e_phnum eh)"
    and t: "window ?bs (unat (e_phoff eh)) (56 * length phs) = encode_phdrs phs"
    and f: "first_note phs 0 = Some i" and b: "unat (e_phoff eh) + 56 * length phs \<le> seg_start phs i"
    and seg: "seg_start phs i + unat (p_filesz ?p) \<le> length ?bs" "unat (p_filesz ?p) \<le> MAX_RW_COUNT"
    unfolding core_headers_def by blast+
  have small: "unat (e_phoff eh) < 2 ^ 63" "seg_start phs i < 2 ^ 63" using seg(1) b l(2) by simp_all
  have tab: "unat (e_phoff eh) + 56 * length phs \<le> length ?bs" using b seg(1) by linarith
  obtain f1 where f1: "file_read fd 64 = (f1, 64, window ?bs 0 64)" "file_bytes f1 = ?bs" "reliable f1"
    using reliable_read [OF r(1), of 64] r(2) l by (auto simp: MAX_RW_COUNT_def)
  obtain f2 where f2: "lseek_set f1 (e_phoff eh) = (f2, int (unat (e_phoff eh)))" "file_bytes f2 = ?bs" "reliable f2"
    "file_pos f2 = unat (e_phoff eh)"
    using reliable_lseek [OF f1(3) small(1)] f1(2) by auto
  obtain f3 where f3: "file_read f2 (56 * length phs) = (f3, int (56 * length phs), encode_phdrs phs)"
    "file_bytes f3 = ?bs" "reliable f3"
    using reliable_read [OF f2(3), of "56 * length phs"] f2 tab t sz(3) by auto
  obtain f4 where f4: "lseek_set f3 (p_offset ?p) = (f4, int (seg_start phs i))" "file_bytes f4 = ?bs" "reliable f4"
    "file_pos f4 = seg_start phs i"
    using reliable_lseek [OF f3(3) small(2)] f3(2) by auto
  obtain f5 where f5: "file_read f4 (unat (p_filesz ?p)) = (f5, int (unat (p_filesz ?p)), notes)"
    "file_bytes f5 = ?bs" "reliable f5"
    using reliable_read [OF f4(3), of "unat (p_filesz ?p)"] f4 seg w by auto
  have m: "unat (p_filesz ?p) < 2 ^ 63" using seg(2) by (simp add: MAX_RW_COUNT_def)
  have d: "decode_phdrs (unat (e_phnum eh)) (encode_phdrs phs) = phs" using decode_encode_phdrs [of phs] n by simp
  have ne: "int (unat (e_phoff eh)) \<noteq> -1" "\<not> int (seg_start phs i) < 0" by linarith+
  show ?thesis
    unfolding read_elfdata_def f1(1) prod.case Let_def eh [symmetric]
    using g f2(1) f3(1) f4(1) f5 n d f ne m loop
    by (simp add: good_ehdr_def)
qed

text \<open>The end of the note as the program computes it, and the old size.\<close>

lemma note_end_word:
  assumes "wf_cnote n"
  shows "of_nat k + 12 + vi_pad4 (ucast (of_nat (length (n_desc n)) :: u32)) +
      vi_pad4 (ucast (of_nat (length (n_name n)) :: u32)) = (of_nat (k + note_size n) :: u64)"
    and "ucast (of_nat (length (n_desc n)) :: u32) = (of_nat (length (n_desc n)) :: u64)"
proof -
  have k: "length (n_name n) < 2 ^ 32" "length (n_desc n) < 2 ^ 32" using assms by (simp_all add: wf_cnote_def)
  show "of_nat k + 12 + vi_pad4 (ucast (of_nat (length (n_desc n)) :: u32)) +
      vi_pad4 (ucast (of_nat (length (n_name n)) :: u32)) = (of_nat (k + note_size n) :: u64)"
    by (simp only: ucast_of_nat32 [OF k(1)] ucast_of_nat32 [OF k(2)] vi_pad4_of_nat [OF k(1)] vi_pad4_of_nat [OF k(2)])
      (simp add: note_size_def)
  show "ucast (of_nat (length (n_desc n)) :: u32) = (of_nat (length (n_desc n)) :: u64)"
    by (rule ucast_of_nat32 [OF k(2)])
qed

lemma read_elfdata_vmcore:
  assumes v: "vmcore (file_bytes fd) eh phs i pre n post" and r: "reliable fd" "file_pos fd = 0"
  shows "\<exists>fd'. read_elfdata fd = Inr (fd', Some (saved_of eh phs i pre n post)) \<and>
    file_bytes fd' = file_bytes fd \<and> reliable fd'"
proof -
  let ?p = "phs ! i"
  note sz = vmcore_sizes [OF v]
  from v have w: "window (file_bytes fd) (seg_start phs i) (unat (p_filesz ?p)) = encode_notes 1 (pre @ n # post)"
    and wf: "list_all wf_cnote (pre @ n # post)" and vi: "is_vmcoreinfo n" "list_all (\<lambda>n. \<not> is_vmcoreinfo n) post"
    by (simp_all add: vmcore_def note_segment_def)
  have wn: "wf_cnote n" using wf by simp
  have len: "length (encode_notes 1 (pre @ n # post)) = unat (p_filesz ?p)" by (simp add: length_encode_notes sz(3))
  have loop: "vi_notes_loop (encode_notes 1 (pre @ n # post)) (p_filesz ?p) None 0 =
      Inr (Some (notes_size pre, of_nat (length (n_name n)), of_nat (length (n_desc n))))"
    using vi_notes_loop_encoded [OF wf, of "[]" 0 "encode_notes 1 (pre @ n # post)" "p_filesz ?p" None] len vi
    by (simp add: last_vmcoreinfo_append last_vmcoreinfo_none)
  from read_elfdata_headers [OF vmcore_headers [OF v] r w loop]
  show ?thesis unfolding saved_of_def note_end_word(1) [OF wn] unfolding note_end_word(2) [OF wn] .
qed

section \<open>The program headers\<close>

definition shift_phdrs :: "nat \<Rightarrow> u64 \<Rightarrow> Elf64_Phdr list \<Rightarrow> Elf64_Phdr list" where
  "shift_phdrs i d ps = take i ps @ grow_segment d (ps ! i) # map (move_segment d) (drop (i + 1) ps)"

text \<open>How much the note grows: the difference of the padded sizes.\<close>

definition growth :: "elfnote \<Rightarrow> u8 list \<Rightarrow> u64" where
  "growth n d = vi_pad4 (of_nat (length d)) - vi_pad4 (of_nat (length (n_desc n)))"

lemma new_phdrs_saved:
  "new_phdrs (saved_of eh phs i pre n post) (of_nat (length d)) = shift_phdrs i (growth n d) phs"
  by (simp add: new_phdrs_def saved_of_def shift_phdrs_def growth_def Let_def)

lemma grow_segment_simps [simp]:
  "p_type (grow_segment d p) = p_type p" "p_offset (grow_segment d p) = p_offset p"
  "p_filesz (grow_segment d p) = p_filesz p + d"
  by (simp_all add: grow_segment_def Let_def)

lemma move_segment_simps [simp]:
  "p_type (move_segment d p) = p_type p" "p_offset (move_segment d p) = p_offset p + d"
  "p_filesz (move_segment d p) = p_filesz p"
  by (simp_all add: move_segment_def)

lemma shift_phdrs_facts:
  assumes "i < length ps"
  shows "length (shift_phdrs i d ps) = length ps"
    and "shift_phdrs i d ps ! i = grow_segment d (ps ! i)"
    and "j < i \<Longrightarrow> shift_phdrs i d ps ! j = ps ! j"
    and "i < j \<Longrightarrow> j < length ps \<Longrightarrow> shift_phdrs i d ps ! j = move_segment d (ps ! j)"
    and "map p_type (shift_phdrs i d ps) = map p_type ps"
proof -
  show "length (shift_phdrs i d ps) = length ps" "shift_phdrs i d ps ! i = grow_segment d (ps ! i)"
    using assms by (simp_all add: shift_phdrs_def)
  show "j < i \<Longrightarrow> shift_phdrs i d ps ! j = ps ! j" using assms by (simp add: shift_phdrs_def nth_append)
  show "i < j \<Longrightarrow> j < length ps \<Longrightarrow> shift_phdrs i d ps ! j = move_segment d (ps ! j)"
    using assms by (simp add: shift_phdrs_def nth_append nth_Cons')
  have "map p_type (shift_phdrs i d ps) = take i (map p_type ps) @ p_type (ps ! i) # drop (i + 1) (map p_type ps)"
    by (simp add: shift_phdrs_def take_map drop_map comp_def)
  also have "\<dots> = map p_type ps" using assms id_take_nth_drop [of i "map p_type ps"] by simp
  finally show "map p_type (shift_phdrs i d ps) = map p_type ps" .
qed

lemma update_offsets_headers:
  assumes v: "core_headers (file_bytes fd) eh phs i" and r: "reliable fd"
    and se: "se_ehdr se = eh" "new_phdrs se nd = shift_phdrs i d phs"
  shows "\<exists>fd'. update_offsets fd se nd = (fd', se\<lparr>se_phdr := shift_phdrs i d phs\<rparr>, 0) \<and> reliable fd' \<and>
    file_bytes fd' = patch (file_bytes fd) (unat (e_phoff eh)) (encode_phdrs (shift_phdrs i d phs))"
proof -
  let ?phs = "shift_phdrs i d phs"
  note sz = core_sizes [OF v]
  from v have n: "length phs = unat (e_phnum eh)" and b: "unat (e_phoff eh) + 56 * length phs \<le> seg_start phs i"
    and s: "seg_start phs i + unat (p_filesz (phs ! i)) \<le> length (file_bytes fd)"
    and l: "length (file_bytes fd) < 2 ^ 62" unfolding core_headers_def by blast+
  have l': "length ?phs = length phs" by (rule shift_phdrs_facts(1) [OF sz(1)])
  have "unat (e_phoff eh) < 2 ^ 63" using b l s by simp
  from reliable_lseek [OF r this] obtain f1 where
    f1: "lseek_set fd (e_phoff eh) = (f1, int (unat (e_phoff eh)))" "file_bytes f1 = file_bytes fd" "reliable f1"
      "file_pos f1 = unat (e_phoff eh)" by blast
  obtain f2 where f2: "file_write f1 (encode_phdrs ?phs) = (f2, int (56 * length phs))"
    "file_bytes f2 = patch (file_bytes fd) (unat (e_phoff eh)) (encode_phdrs ?phs)" "reliable f2"
    using reliable_write [OF f1(3), of "encode_phdrs ?phs"] f1 sz(3) l' by auto
  have "int (unat (e_phoff eh)) \<noteq> -1" by linarith
  then have "update_offsets fd se nd = (f2, se\<lparr>se_phdr := ?phs\<rparr>, 0)"
    using f1(1) f2(1) n by (simp add: update_offsets_def se Let_def)
  then show ?thesis using f2 by blast
qed

lemma update_offsets_vmcore:
  fixes d :: "u8 list"
  assumes v: "vmcore (file_bytes fd) eh phs i pre n post" and r: "reliable fd"
  defines "se \<equiv> saved_of eh phs i pre n post" and "phs' \<equiv> shift_phdrs i (growth n d) phs"
  shows "\<exists>fd'. update_offsets fd se (of_nat (length d)) = (fd', se\<lparr>se_phdr := phs'\<rparr>, 0) \<and> reliable fd' \<and>
    file_bytes fd' = patch (file_bytes fd) (unat (e_phoff eh)) (encode_phdrs phs')"
  unfolding se_def phs'_def
  by (rule update_offsets_headers [OF vmcore_headers [OF v] r _ new_phdrs_saved]) (simp add: saved_of_def)

section \<open>The new note\<close>

definition renote :: "elfnote \<Rightarrow> u8 list \<Rightarrow> elfnote" where
  "renote n d = Note (n_name n) (n_type n) d"

lemma header_patch:
  "patch (note_header 1 n @ rest) 4 (le_bytes 4 (length d)) = note_header 1 (renote n d) @ rest"
proof -
  let ?a = "le_bytes 4 (length (n_name n))" and ?b = "le_bytes 4 (length (n_desc n))" and ?c = "le_bytes 4 (unat (n_type n))"
  have "patch (?a @ ?b @ (?c @ rest)) 4 (le_bytes 4 (length d)) = ?a @ le_bytes 4 (length d) @ (?c @ rest)"
    by (rule patch_mid) simp_all
  then show ?thesis by (simp add: note_header_def renote_def mem_bytes_def)
qed

lemma patch_front: "length xs = k \<Longrightarrow> patch (replicate k z @ rest) 0 xs = xs @ rest"
  using patch_mid [of "[]" 0 xs "replicate k z" rest] by simp

lemma encode_notes_at: "encode_notes 1 (pre @ n # post) =
    encode_notes 1 pre @ note_header 1 n @ padded (n_name n) @ padded (n_desc n) @ encode_notes 1 post"
  by (simp add: encode_notes_def encode_note_def)

lemma new_note_saved:
  assumes n: "wf_cnote n" and d: "length d < 2 ^ 32"
    and se: "se_notes se = encode_notes 1 pre @ note_header 1 n @ padded (n_name n) @ rest"
      "se_vi_note se = notes_size pre"
  shows "new_note se (of_nat (length d)) d = Inr (encode_note 1 (renote n d))"
proof -
  let ?notes = "encode_notes 1 pre @ note_header 1 n @ padded (n_name n) @ rest" and ?p = "notes_size pre"
  have k: "length (n_name n) < 2 ^ 32" "length (n_desc n) < 2 ^ 32" using n by (simp_all add: wf_cnote_def)
  have l: "length (encode_notes 1 pre) = ?p" by (simp add: length_encode_notes)
  have f: "note_field ?notes ?p 0 = Inr (of_nat (length (n_name n)))"
    unfolding note_field_getfield using header_fields(1) [OF _ _ l _ k, of le64 1 ?notes "padded (n_name n) @ rest"]
    by (simp add: valid_info_def)
  have r: "unat (vi_pad4 (ucast (of_nat (length (n_name n)) :: u32))) = round4 (length (n_name n))"
    using k by (simp only: unat_vi_pad4_u32) (simp add: unsigned_of_nat take_bit_nat_eq_self)
  have old: "load ?notes ?p (12 + round4 (length (n_name n))) = Inr (note_header 1 n @ padded (n_name n))"
    using load_mid [OF l, of "note_header 1 n @ padded (n_name n)" "12 + round4 (length (n_name n))" rest] by simp
  have d1: "unat (vi_pad4 (of_nat (length d))) = round4 (length d)"
    using d round4_bounds [of "length d"] vi_pad4_of_nat [OF d] by (simp add: unsigned_of_nat take_bit_nat_eq_self)
  have d2: "unat (ucast (of_nat (length d) :: u64) :: u32) = length d"
    using d by (simp add: unsigned_ucast_eq unsigned_of_nat take_bit_nat_eq_self)
  let ?h = "12 + round4 (length (n_name n))" and ?z = "replicate (round4 (length d)) (0 :: u8)"
  have z: "replicate (?h + round4 (length d)) 0 = replicate ?h 0 @ ?z" by (simp add: replicate_add)
  have "patch (patch (patch (replicate (?h + round4 (length d)) 0) 0 (note_header 1 n @ padded (n_name n)))
      4 (le_bytes 4 (length d))) ?h d = patch (note_header 1 (renote n d) @ padded (n_name n) @ ?z) ?h d"
    unfolding z by (subst patch_front) (simp_all add: header_patch)
  also have "\<dots> = note_header 1 (renote n d) @ padded (n_name n) @ padded d"
  proof -
    have "?z = replicate (length d) 0 @ replicate (round4 (length d) - length d) 0"
      using round4_bounds [of "length d"] by (simp add: replicate_add [symmetric])
    then show ?thesis
      using patch_mid [of "note_header 1 (renote n d) @ padded (n_name n)" ?h d "replicate (length d) 0"
          "replicate (round4 (length d) - length d) 0"] by (simp add: padded_def [of d])
  qed
  also have "\<dots> = encode_note 1 (renote n d)" by (simp add: encode_note_def renote_def)
  finally show ?thesis
    unfolding new_note_def se f bindR_simps r old Let_def d1 d2 by (rule arg_cong)
qed

section \<open>Moving the data\<close>

lemma unat_add_of_nat:
  fixes x :: u64
  assumes "unat x + k < 2 ^ 64"
  shows "unat (x + of_nat k) = unat x + k"
proof -
  have "unat (of_nat k :: u64) = k" using assms by (simp add: unsigned_of_nat take_bit_nat_eq_self)
  then show ?thesis using assms by (subst unat_add_lem [THEN iffD1]) simp_all
qed

lemma shift_data_moves:
  assumes r: "reliable fd" and t: "reliable t" "file_bytes t = []" "file_pos t = 0"
    and note1: "new_note se nd d = Inr xs" "length xs \<le> MAX_RW_COUNT"
    and a: "unat (notes_start se + vi_note_start se) = a" and b: "unat (notes_start se + vi_note_end se) = b"
    and ab: "a \<le> b" "b \<le> length (file_bytes fd)" "length (file_bytes fd) < 2 ^ 62"
  shows "\<exists>fd'. shift_data (Some t) True fd se nd d = Some (Inr (fd', 0)) \<and> reliable fd' \<and>
    file_bytes fd' = take a (file_bytes fd) @ xs @ drop b (file_bytes fd)"
proof -
  let ?L = "length (file_bytes fd)"
  let ?save = "word_of_int (int ?L) - (notes_start se + vi_note_end se)"
  obtain f1 where f1: "lseek_end fd = (f1, int ?L)" "file_bytes f1 = file_bytes fd" "reliable f1"
    using reliable_lseek_end [OF r] by blast
  have b63: "unat (notes_start se + vi_note_end se) < 2 ^ 63" using b ab by simp
  obtain f2 where f2: "lseek_set f1 (notes_start se + vi_note_end se) = (f2, int b)" "file_bytes f2 = file_bytes fd"
    "reliable f2" "file_pos f2 = b"
    using reliable_lseek [OF f1(3) b63] f1(2) b by auto
  have L: "unat (of_nat ?L :: u64) = ?L" using ab(3) by (simp add: unsigned_of_nat take_bit_nat_eq_self)
  have save: "unat ?save = ?L - b"
  proof -
    have "notes_start se + vi_note_end se \<le> of_nat ?L" using L b ab(2) by (simp add: word_le_nat_alt)
    then have "unat (of_nat ?L - (notes_start se + vi_note_end se)) = ?L - b" using L b by (simp add: unat_sub)
    then show ?thesis by simp
  qed
  have s63: "unat ?save < 2 ^ 63" using save ab(3) by simp
  obtain t1 f3 where s1: "sendfile_loop ?save t f2 0 = Some (t1, f3, 0)"
    and t1: "file_bytes t1 = drop b (file_bytes fd)" "file_env t1 = file_env t"
    and f3: "file_bytes f3 = file_bytes fd" "file_env f3 = file_env f2"
    using sendfile_loop_copies [OF f2(3) _ s63, of 0 t] t f2(2,4) save ab(2) by (auto simp: window_def)
  have r3: "reliable f3" using f2(3) f3(2) by (simp add: reliable_def)
  have a63: "unat (notes_start se + vi_note_start se) \<le> length (file_bytes f3)" "unat (notes_start se + vi_note_start se) < 2 ^ 63"
    using a ab f3(1) by simp_all
  obtain f4 where f4: "ftruncate f3 (notes_start se + vi_note_start se) = (f4, 0)" "file_bytes f4 = take a (file_bytes fd)" "reliable f4"
    using reliable_truncate [OF r3 a63] a f3(1) by auto
  obtain f5 where f5: "lseek_end f4 = (f5, int (length (file_bytes f4)))" "file_bytes f5 = take a (file_bytes fd)" "reliable f5"
    "file_pos f5 = length (take a (file_bytes fd))"
    using reliable_lseek_end [OF f4(3)] f4(2) by auto
  have rt1: "reliable t1" using t(1) t1(2) by (simp add: reliable_def)
  obtain t2 where t2: "lseek_set t1 0 = (t2, 0)" "file_bytes t2 = drop b (file_bytes fd)" "reliable t2" "file_pos t2 = 0"
    using reliable_lseek [OF rt1, of 0] t1(1) by auto
  obtain f6 where f6: "file_write f5 xs = (f6, int (length xs))" "file_bytes f6 = take a (file_bytes fd) @ xs" "reliable f6"
    "file_pos f6 = length (take a (file_bytes fd) @ xs)"
    using reliable_write [OF f5(3) note1(2)] unfolding f5(2,4) patch_end by auto
  obtain f7 t3 where s2: "sendfile_loop ?save f6 t2 0 = Some (f7, t3, 0)"
    and f7: "file_bytes f7 = take a (file_bytes fd) @ xs @ drop b (file_bytes fd)" "file_env f7 = file_env f6"
    using sendfile_loop_copies [OF t2(3) _ s63, of 0 f6] t2 f6(2,4) save by (auto simp: window_def)
  have ne: "int ?L \<noteq> -1" "\<not> int b < 0" "int (length (file_bytes f4)) \<noteq> -1" by linarith+
  have "shift_data (Some t) True fd se nd d = Some (Inr (f7, 0))"
    unfolding shift_data_def note1(1) bindO_simps f1(1) prod.case f2(1) option.case Let_def s1 f4(1) f5(1) t2(1) f6(1) s2
    using ne by simp
  moreover have "reliable f7" using f6(3) f7(2) by (simp add: reliable_def)
  ultimately show ?thesis using f7(1) by blast
qed

section \<open>The whole edit\<close>

text \<open>The image of the file after the edit that sets the contents of note \<open>n\<close> to \<open>d\<close>.\<close>

definition edited_image :: "u8 list \<Rightarrow> Elf64_Ehdr \<Rightarrow> Elf64_Phdr list \<Rightarrow> nat \<Rightarrow> elfnote list \<Rightarrow> elfnote \<Rightarrow> u8 list \<Rightarrow> u8 list" where
  "edited_image bs eh phs i pre n d =
    (let bs1 = patch bs (unat (e_phoff eh)) (encode_phdrs (shift_phdrs i (growth n d) phs));
         a = seg_start phs i + notes_size pre
     in take a bs1 @ encode_note 1 (renote n d) @ drop (a + note_size n) bs1)"

lemma read_newdata_reliable:
  assumes "reliable nf" and "length (file_bytes nf) < 2 ^ 63"
  shows "read_newdata (Some nf) = Some (of_nat (length (file_bytes nf @ [0])), file_bytes nf @ [0])"
proof -
  obtain f1 where f1: "lseek_end nf = (f1, int (length (file_bytes nf)))" "file_bytes f1 = file_bytes nf" "reliable f1"
    using reliable_lseek_end [OF assms(1)] by blast
  obtain f2 where f2: "lseek_set f1 0 = (f2, 0)" "file_bytes f2 = file_bytes nf" "reliable f2" "file_pos f2 = 0"
    using reliable_lseek [OF f1(3), of 0] f1(2) by auto
  obtain f3 where f3: "file_fread f2 (length (file_bytes nf)) = (f3, length (file_bytes nf), file_bytes nf)"
    using reliable_fread [OF f2(3), of "length (file_bytes nf)"] f2 by (auto simp: window_def)
  show ?thesis using f1(1) f2(1) f3 by (simp add: read_newdata_def)
qed

lemma segment_ends:
  assumes v: "vmcore bs eh phs i pre n post"
  shows "unat (p_offset (phs ! i) + of_nat (notes_size pre)) = seg_start phs i + notes_size pre"
    and "unat (p_offset (phs ! i) + of_nat (notes_size pre + note_size n)) = seg_start phs i + notes_size pre + note_size n"
proof -
  from v have "length bs < 2 ^ 62" by (simp add: vmcore_def)
  with vmcore_sizes(4) [OF v] show "unat (p_offset (phs ! i) + of_nat (notes_size pre)) = seg_start phs i + notes_size pre"
    "unat (p_offset (phs ! i) + of_nat (notes_size pre + note_size n)) = seg_start phs i + notes_size pre + note_size n"
    by (subst unat_add_of_nat; simp)+
qed

text \<open>The sizes of the edit stay within what the calls transfer.\<close>

definition fits :: "Elf64_Phdr list \<Rightarrow> nat \<Rightarrow> u8 list \<Rightarrow> bool" where
  "fits phs i d \<longleftrightarrow> unat (p_filesz (phs ! i)) + length d + 4 \<le> MAX_RW_COUNT"

lemma main_edits:
  assumes v: "vmcore (file_bytes fd) eh phs i pre n post" and r: "reliable fd" "file_pos fd = 0"
    and nf: "reliable nf" and t: "reliable t" "file_bytes t = []" "file_pos t = 0"
    and small: "fits phs i (file_bytes nf @ [0])"
  shows "\<exists>fd'. editvmcoreinfo_main 3 (Some fd) (Some nf) (Some t) True = Some (Inr (0, Some fd')) \<and> reliable fd' \<and>
    file_bytes fd' = edited_image (file_bytes fd) eh phs i pre n (file_bytes nf @ [0])"
proof -
  define d where "d = file_bytes nf @ [0 :: u8]"
  let ?se = "saved_of eh phs i pre n post"
  let ?phs = "shift_phdrs i (growth n d) phs"
  let ?se' = "?se\<lparr>se_phdr := ?phs\<rparr>"
  let ?bs1 = "patch (file_bytes fd) (unat (e_phoff eh)) (encode_phdrs ?phs)"
  note sz = vmcore_sizes [OF v]
  from v have l: "length (file_bytes fd) < 2 ^ 62" and wn: "wf_cnote n"
    by (simp_all add: vmcore_def note_segment_def)
  from v have b: "unat (e_phoff eh) + 56 * length phs \<le> seg_start phs i"
    unfolding vmcore_def by blast
  have new: "read_newdata (Some nf) = Some (of_nat (length d), d)"
    unfolding d_def using nf small by (intro read_newdata_reliable) (simp_all add: fits_def MAX_RW_COUNT_def)
  obtain f1 where f1: "read_elfdata fd = Inr (f1, Some ?se)" "file_bytes f1 = file_bytes fd" "reliable f1"
    using read_elfdata_vmcore [OF v r] by blast
  obtain f2 where f2: "update_offsets f1 ?se (of_nat (length d)) = (f2, ?se', 0)" "reliable f2" "file_bytes f2 = ?bs1"
    using update_offsets_vmcore [of f1 eh phs i pre n post d] v f1 by auto
  have d32: "length d < 2 ^ 32" using small by (simp add: fits_def MAX_RW_COUNT_def d_def)
  have nn: "new_note ?se' (of_nat (length d)) d = Inr (encode_note 1 (renote n d))"
    by (rule new_note_saved [OF wn d32]) (simp_all add: saved_of_def encode_notes_at)
  have nl: "length (encode_note 1 (renote n d)) \<le> MAX_RW_COUNT"
    using small sz(3) round4_bounds [of "length d"] by (simp add: fits_def note_size_def renote_def d_def)
  have len: "length ?bs1 = length (file_bytes fd)"
    by (rule length_patch) (use b sz(4) shift_phdrs_facts(1) [OF sz(1)] in simp)
  have ends: "unat (notes_start ?se' + vi_note_start ?se') = seg_start phs i + notes_size pre"
    "unat (notes_start ?se' + vi_note_end ?se') = seg_start phs i + notes_size pre + note_size n"
    using segment_ends [OF v] by (simp_all add: saved_of_def)
  obtain fd' where fd': "shift_data (Some t) True f2 ?se' (of_nat (length d)) d = Some (Inr (fd', 0))" "reliable fd'"
    "file_bytes fd' = take (seg_start phs i + notes_size pre) ?bs1 @ encode_note 1 (renote n d) @
      drop (seg_start phs i + notes_size pre + note_size n) ?bs1"
    using shift_data_moves [OF f2(2) t nn nl ends] sz(4) l len f2(3) by auto
  have "editvmcoreinfo_main 3 (Some fd) (Some nf) (Some t) True = Some (Inr (0, Some fd'))"
    by (simp add: editvmcoreinfo_main_def new f1(1) f2(1) fd'(1))
  moreover have "file_bytes fd' = edited_image (file_bytes fd) eh phs i pre n d"
    unfolding edited_image_def Let_def fd'(3) ..
  ultimately show ?thesis using fd'(2) unfolding d_def by blast
qed

end
