(* ===== verification/VmcoreRoundtrip.thy ===== *)
theory VmcoreRoundtrip
  imports VmcoreEdit
begin

text \<open>
  Properties of \<open>editvmcoreinfo\<close>: the edited file is again a core dump, with the new
  note; the data behind the note is kept, and which headers follow it; what happens
  when the temporary file cannot be made.
\<close>

section \<open>The edited image\<close>

lemma window_left: "p + n \<le> a \<Longrightarrow> a \<le> length bs \<Longrightarrow> window (take a bs @ rest) p n = window bs p n"
  by (auto simp: window_def drop_take min_def)

lemma window_right: "window (xs @ ys) (length xs + q) n = window ys q n"
  by (simp add: window_def)

lemma window_drop: "window (drop b bs) q n = window bs (b + q) n"
  by (simp add: window_def add.commute)

lemma cut3: "p + n \<le> length bs \<Longrightarrow> bs = take p bs @ window bs p n @ drop (p + n) bs"
  by (simp add: window_def) (metis add.commute append_take_drop_id drop_drop)

text \<open>The image after the update of the headers: the same outside of the table.\<close>

abbreviation headers_image :: "u8 list \<Rightarrow> Elf64_Ehdr \<Rightarrow> Elf64_Phdr list \<Rightarrow> nat \<Rightarrow> elfnote \<Rightarrow> u8 list \<Rightarrow> u8 list" where
  "headers_image bs eh phs i n d \<equiv>
    patch bs (unat (e_phoff eh)) (encode_phdrs (shift_phdrs i (growth n d) phs))"

lemma headers_image_facts:
  fixes d :: "u8 list" and n :: elfnote
  assumes v: "core_headers bs eh phs i"
  defines "bs1 \<equiv> headers_image bs eh phs i n d"
  shows "length bs1 = length bs"
    and "q + k \<le> unat (e_phoff eh) \<or> unat (e_phoff eh) + 56 * length phs \<le> q \<Longrightarrow> window bs1 q k = window bs q k"
    and "window bs1 (unat (e_phoff eh)) (56 * length phs) = encode_phdrs (shift_phdrs i (growth n d) phs)"
proof -
  note sz = core_sizes [OF v]
  from v have b: "unat (e_phoff eh) + 56 * length phs \<le> seg_start phs i"
    "seg_start phs i + unat (p_filesz (phs ! i)) \<le> length bs" unfolding core_headers_def by blast+
  then have fit: "unat (e_phoff eh) + length (encode_phdrs (shift_phdrs i (growth n d) phs)) \<le> length bs"
    using shift_phdrs_facts(1) [OF sz(1)] by simp
  then show "length bs1 = length bs" unfolding bs1_def by (rule length_patch)
  show "window bs1 q k = window bs q k"
    if "q + k \<le> unat (e_phoff eh) \<or> unat (e_phoff eh) + 56 * length phs \<le> q"
    unfolding bs1_def by (rule window_patch_other [OF fit]) (use that shift_phdrs_facts(1) [OF sz(1)] in simp)
  show "window bs1 (unat (e_phoff eh)) (56 * length phs) = encode_phdrs (shift_phdrs i (growth n d) phs)"
    using window_patch_same [OF fit] shift_phdrs_facts(1) [OF sz(1)] by (simp add: bs1_def)
qed

lemma headers_image_changed:
  assumes v: "core_headers bs eh phs i" and g: "growth n d \<noteq> 0"
  shows "headers_image bs eh phs i n d \<noteq> bs"
proof
  let ?phs = "shift_phdrs i (growth n d) phs"
  note h = headers_image_facts [OF v, where d = d and n = n] and sz = core_sizes [OF v]
  from v have t: "window bs (unat (e_phoff eh)) (56 * length phs) = encode_phdrs phs"
    unfolding core_headers_def by blast
  assume "headers_image bs eh phs i n d = bs"
  with h(3) t have "encode_phdrs ?phs = encode_phdrs phs" by simp
  then have "decode_phdrs (length phs) (encode_phdrs ?phs) = decode_phdrs (length phs) (encode_phdrs phs)"
    by (rule arg_cong)
  then have "?phs = phs"
    using decode_encode_phdrs [of ?phs] decode_encode_phdrs [of phs] shift_phdrs_facts(1) [OF sz(1)] by simp
  then have "p_filesz (phs ! i) + growth n d = p_filesz (phs ! i)"
    using shift_phdrs_facts(2) [OF sz(1), of "growth n d"] by (metis grow_segment_simps(3))
  with g show False by simp
qed

lemma growth_size:
  assumes "wf_cnote n" and "length d < 2 ^ 32"
  shows "growth n d = of_nat (note_size (renote n d)) - of_nat (note_size n)"
proof -
  have "length (n_desc n) < 2 ^ 32" using assms(1) by (simp add: wf_cnote_def)
  then show ?thesis
    by (simp only: growth_def vi_pad4_of_nat [OF assms(2)] vi_pad4_of_nat)
      (simp add: note_size_def renote_def)
qed

text \<open>An offset behind the note, moved by the growth of the note.\<close>

lemma unat_of_nat64: "k < 2 ^ 64 \<Longrightarrow> unat (of_nat k :: u64) = k"
  by (simp add: unsigned_of_nat take_bit_nat_eq_self)

lemma unat_moved:
  fixes x :: u64
  assumes g: "growth n d = of_nat (note_size (renote n d)) - of_nat (note_size n)"
    and "a + note_size n \<le> unat x" and "unat x + note_size (renote n d) < 2 ^ 64"
  shows "unat (x + growth n d) = unat x - note_size n + note_size (renote n d)"
proof -
  have "x = of_nat (unat x)" by (simp only: of_nat_unat ucast_id)
  also have "\<dots> = of_nat (unat x - note_size n) + of_nat (note_size n)"
    using assms(2) by (simp only: of_nat_add [symmetric]) simp
  finally have "x + growth n d = (of_nat (unat x - note_size n) + of_nat (note_size n)) +
      (of_nat (note_size (renote n d)) - of_nat (note_size n))"
    unfolding g by (rule arg_cong)
  also have "\<dots> = of_nat (unat x - note_size n + note_size (renote n d))" by simp
  finally have "x + growth n d = of_nat (unat x - note_size n + note_size (renote n d))" .
  then have "unat (x + growth n d) = unat (of_nat (unat x - note_size n + note_size (renote n d)) :: u64)"
    by (rule arg_cong)
  also have "\<dots> = unat x - note_size n + note_size (renote n d)"
    by (rule unat_of_nat64) (use assms(2,3) in simp)
  finally show ?thesis .
qed

lemma edited_segment:
  assumes v: "vmcore bs eh phs i pre n post"
  shows "\<exists>x y. headers_image bs eh phs i n d = x @ encode_notes 1 (pre @ n # post) @ y \<and> length x = seg_start phs i \<and>
    edited_image bs eh phs i pre n d = x @ encode_notes 1 (pre @ renote n d # post) @ y"
proof -
  let ?bs1 = "headers_image bs eh phs i n d" and ?s = "seg_start phs i" and ?l = "unat (p_filesz (phs ! i))"
  note h = headers_image_facts [OF vmcore_headers [OF v], where d = d and n = n] and sz = vmcore_sizes [OF v]
  from v have b: "unat (e_phoff eh) + 56 * length phs \<le> ?s" unfolding vmcore_def by blast
  from v have w: "window bs ?s ?l = encode_notes 1 (pre @ n # post)" and l: "?s + ?l \<le> length bs"
    by (simp_all add: vmcore_def note_segment_def)
  define x where "x = take ?s ?bs1"
  define y where "y = drop (?s + ?l) ?bs1"
  have "window ?bs1 ?s ?l = encode_notes 1 (pre @ n # post)" using h(2) [of ?s ?l] b w by simp
  then have c: "?bs1 = x @ encode_notes 1 (pre @ n # post) @ y"
    using cut3 [of ?s ?l ?bs1] l h(1) by (simp add: x_def y_def)
  have lx: "length x = ?s" using l h(1) by (simp add: x_def)
  have e: "encode_notes 1 (pre @ m # post) = encode_notes 1 pre @ encode_note 1 m @ encode_notes 1 post" for m
    by (simp add: encode_notes_def)
  have "take (?s + notes_size pre) ?bs1 = x @ encode_notes 1 pre"
    "drop (?s + notes_size pre + note_size n) ?bs1 = encode_notes 1 post @ y"
    unfolding c e using lx by (simp_all add: length_encode_notes)
  then have "edited_image bs eh phs i pre n d = x @ encode_notes 1 (pre @ renote n d # post) @ y"
    unfolding edited_image_def Let_def e by simp
  with c lx show ?thesis by blast
qed

lemma vmcore_edited:
  assumes v: "vmcore bs eh phs i pre n post" and small: "fits phs i d"
    and big: "length bs + length d + 4 < 2 ^ 62"
  shows "vmcore (edited_image bs eh phs i pre n d) eh (shift_phdrs i (growth n d) phs) i pre (renote n d) post"
proof -
  let ?bs1 = "headers_image bs eh phs i n d" and ?bs2 = "edited_image bs eh phs i pre n d"
  let ?phs = "shift_phdrs i (growth n d) phs" and ?m = "renote n d"
  note h = headers_image_facts [OF vmcore_headers [OF v], where d = d and n = n] and sz = vmcore_sizes [OF v]
  from v have b: "unat (e_phoff eh) + 56 * length phs \<le> seg_start phs i" and o: "64 \<le> unat (e_phoff eh)"
    and seg: "note_segment bs (phs ! i) (pre @ n # post)" unfolding vmcore_def by blast+
  from seg have wf: "list_all wf_cnote (pre @ n # post)" by (simp add: note_segment_def)
  obtain x y where x: "?bs1 = x @ encode_notes 1 (pre @ n # post) @ y" "length x = seg_start phs i"
    "?bs2 = x @ encode_notes 1 (pre @ ?m # post) @ y" using edited_segment [OF v, of d] by blast
  have d32: "length d < 2 ^ 32" using small by (simp add: fits_def MAX_RW_COUNT_def)
  have ms: "note_size ?m \<le> note_size n + length d + 4"
    using round4_bounds [of "length d"] by (simp add: note_size_def renote_def)
  have "unat (p_filesz (phs ! i)) + note_size ?m < 2 ^ 64"
    using small ms sz(3) by (simp add: fits_def MAX_RW_COUNT_def)
  then have fs: "unat (p_filesz (?phs ! i)) = notes_size pre + note_size ?m + notes_size post"
    using unat_moved [OF growth_size [OF _ d32, of n], of "notes_size pre" "p_filesz (phs ! i)"] wf sz(3)
    by (simp add: shift_phdrs_facts(2) [OF sz(1)])
  have so: "seg_start ?phs i = seg_start phs i" by (simp add: shift_phdrs_facts(2) [OF sz(1)])
  have l2: "length ?bs2 = seg_start phs i + (notes_size pre + note_size ?m + notes_size post) + length y"
    using x by (simp add: length_encode_notes)
  have l1: "length bs = seg_start phs i + (notes_size pre + note_size n + notes_size post) + length y"
    using x h(1) by (simp add: length_encode_notes)
  have left: "window ?bs2 q k = window ?bs1 q k" if "q + k \<le> seg_start phs i" for q k
    using that x by (simp add: window_def)
  from v have old: "eh = decode_ehdr (window bs 0 64)" "good_ehdr eh" "length phs = unat (e_phnum eh)"
    "list_all (\<lambda>n. \<not> is_vmcoreinfo n) post" unfolding vmcore_def by blast+
  have "window ?bs2 0 64 = window bs 0 64" using left [of 0 64] h(2) [of 0 64] o b by simp
  then have c1: "eh = decode_ehdr (window ?bs2 0 64)" using old(1) by simp
  have c2: "window ?bs2 (unat (e_phoff eh)) (56 * length phs) = encode_phdrs ?phs"
    using left h(3) b by simp
  have c3: "first_note ?phs 0 = Some i"
    using first_note_types [OF shift_phdrs_facts(5) [OF sz(1)], of "growth n d" 0] v by (simp add: vmcore_def)
  have c4: "is_vmcoreinfo ?m" using v by (simp add: vmcore_def is_vmcoreinfo_def renote_def)
  have c5: "note_segment ?bs2 (?phs ! i) (pre @ ?m # post)"
  proof -
    have "window ?bs2 (seg_start phs i) (notes_size pre + note_size ?m + notes_size post) = encode_notes 1 (pre @ ?m # post)"
      using x window_mid [of x "seg_start phs i" "encode_notes 1 (pre @ ?m # post)"
          "notes_size pre + note_size ?m + notes_size post" y] by (simp add: length_encode_notes)
    moreover have "list_all wf_cnote (pre @ ?m # post)" using wf d32 by (simp add: wf_cnote_def renote_def)
    moreover have "notes_size pre + note_size ?m + notes_size post \<le> MAX_RW_COUNT"
      using small ms sz(3) by (simp add: fits_def)
    ultimately show ?thesis using so fs l2 by (simp add: note_segment_def)
  qed
  have c6: "length ?bs2 < 2 ^ 62" using l1 l2 ms big by simp
  have c7: "64 \<le> length ?bs2" using l2 o b by simp
  show ?thesis
    unfolding vmcore_def so shift_phdrs_facts(1) [OF sz(1)]
    by (intro conjI; rule c7 c6 c1 old o c2 c3 b c5 c4)
qed

text \<open>A segment that begins behind the note.\<close>

lemma edited_segments:
  assumes v: "vmcore bs eh phs i pre n post" and small: "fits phs i d"
    and big: "length bs + length d + 4 < 2 ^ 62" and j: "j < length phs" "j \<noteq> i"
    and behind: "seg_start phs i + notes_size pre + note_size n \<le> seg_start phs j"
    and inside: "seg_start phs j + unat (p_filesz (phs ! j)) \<le> length bs"
  shows "window (edited_image bs eh phs i pre n d)
      (seg_start phs j - note_size n + note_size (renote n d)) (unat (p_filesz (phs ! j))) =
      window bs (seg_start phs j) (unat (p_filesz (phs ! j))) \<and>
    p_filesz (shift_phdrs i (growth n d) phs ! j) = p_filesz (phs ! j) \<and>
    seg_start (shift_phdrs i (growth n d) phs) j =
      (if i < j then seg_start phs j - note_size n + note_size (renote n d) else seg_start phs j)"
proof -
  let ?bs1 = "headers_image bs eh phs i n d" and ?a = "seg_start phs i + notes_size pre" and ?m = "renote n d"
  note h = headers_image_facts [OF vmcore_headers [OF v], where d = d and n = n] and sz = vmcore_sizes [OF v]
  from v have b: "unat (e_phoff eh) + 56 * length phs \<le> seg_start phs i"
    and seg: "note_segment bs (phs ! i) (pre @ n # post)" unfolding vmcore_def by blast+
  have la: "length (take ?a ?bs1) = ?a" using sz(4) h(1) by simp
  have off: "seg_start phs j - note_size n + note_size ?m =
      length (take ?a ?bs1) + (length (encode_note 1 ?m) + (seg_start phs j - (?a + note_size n)))"
    unfolding la using behind by simp
  have "window (edited_image bs eh phs i pre n d) (seg_start phs j - note_size n + note_size ?m) k =
      window (drop (?a + note_size n) ?bs1) (seg_start phs j - (?a + note_size n)) k" for k
    unfolding edited_image_def Let_def off window_right ..
  moreover have "window (drop (?a + note_size n) ?bs1) (seg_start phs j - (?a + note_size n)) k = window bs (seg_start phs j) k" for k
    unfolding window_drop using h(2) [of "seg_start phs j" k] behind b by simp
  moreover have "seg_start (shift_phdrs i (growth n d) phs) j =
      (if i < j then seg_start phs j - note_size n + note_size ?m else seg_start phs j)"
  proof (cases "i < j")
    case True
    have d32: "length d < 2 ^ 32" using small by (simp add: fits_def MAX_RW_COUNT_def)
    have wn: "wf_cnote n" using seg by (simp add: note_segment_def)
    have "note_size ?m \<le> note_size n + length d + 4"
      using round4_bounds [of "length d"] by (simp add: note_size_def renote_def)
    then have "seg_start phs j + note_size ?m < 2 ^ 64" using inside behind big by simp
    then have "unat (p_offset (phs ! j) + growth n d) = seg_start phs j - note_size n + note_size ?m"
      by (intro unat_moved [OF growth_size [OF wn d32], of ?a]) (use behind in simp_all)
    then show ?thesis using True j shift_phdrs_facts(4) [OF sz(1) True j(1)] by simp
  next
    case False
    then show ?thesis using j shift_phdrs_facts(3) [OF sz(1), of j] by simp
  qed
  moreover have "p_filesz (shift_phdrs i (growth n d) phs ! j) = p_filesz (phs ! j)"
    using j shift_phdrs_facts(3) [OF sz(1), of j] shift_phdrs_facts(4) [OF sz(1), of j] by (cases "i < j") auto
  ultimately show ?thesis by simp
qed

section \<open>Properties\<close>

text \<open>
  C24: on a core dump the program succeeds, and the new image is the old one with the
  new program headers and the note replaced, all that follows it moved.
\<close>

theorem editvmcoreinfo_correct:
  assumes "vmcore (file_bytes fd) eh phs i pre n post" and "reliable fd" and "file_pos fd = 0"
    and "reliable nf" and "reliable t" and "file_bytes t = []" and "file_pos t = 0"
    and "fits phs i (file_bytes nf @ [0])"
  shows "\<exists>fd'. editvmcoreinfo_main 3 (Some fd) (Some nf) (Some t) True = Some (Inr (0, Some fd')) \<and>
    file_bytes fd' = edited_image (file_bytes fd) eh phs i pre n (file_bytes nf @ [0])"
  using main_edits [OF assms] by blast

text \<open>
  C25: an edited core dump is a core dump again, and what the program then reads from it
  as the VMCOREINFO note is the new contents, the file's bytes and a final zero.
\<close>

theorem editvmcoreinfo_roundtrip:
  assumes v: "vmcore (file_bytes fd) eh phs i pre n post" and r: "reliable fd" "file_pos fd = 0"
    and nf: "reliable nf" and t: "reliable t" "file_bytes t = []" "file_pos t = 0"
    and small: "fits phs i (file_bytes nf @ [0])"
    and big: "length (file_bytes fd) + length (file_bytes nf) + 5 < 2 ^ 62"
  shows "\<exists>fd' fd'' se. editvmcoreinfo_main 3 (Some fd) (Some nf) (Some t) True = Some (Inr (0, Some fd')) \<and>
    vmcore (file_bytes fd') eh (shift_phdrs i (growth n (file_bytes nf @ [0])) phs) i
      pre (renote n (file_bytes nf @ [0])) post \<and>
    read_elfdata (fd'\<lparr>file_pos := 0\<rparr>) = Inr (fd'', Some se) \<and>
    window (se_notes se) (se_vi_note se + 12 + round4 (length (n_name n))) (unat (old_descsz se)) = file_bytes nf @ [0]"
proof -
  define d where "d = file_bytes nf @ [0 :: u8]"
  obtain fd' where m: "editvmcoreinfo_main 3 (Some fd) (Some nf) (Some t) True = Some (Inr (0, Some fd'))" "reliable fd'"
    "file_bytes fd' = edited_image (file_bytes fd) eh phs i pre n d"
    using main_edits [OF v r nf t small] unfolding d_def by blast
  have v': "vmcore (file_bytes fd') eh (shift_phdrs i (growth n d) phs) i pre (renote n d) post"
    unfolding m(3) by (rule vmcore_edited [OF v]) (use small big in \<open>simp_all add: d_def\<close>)
  let ?fd = "fd'\<lparr>file_pos := 0\<rparr>" and ?phs = "shift_phdrs i (growth n d) phs"
  have "reliable ?fd" using m(2) by (simp add: reliable_def)
  then obtain fd'' where rd: "read_elfdata ?fd = Inr (fd'', Some (saved_of eh ?phs i pre (renote n d) post))"
    using read_elfdata_vmcore [of ?fd eh ?phs i pre "renote n d" post] v' by auto
  have dl: "length d < 2 ^ 32" using small by (simp add: fits_def MAX_RW_COUNT_def d_def)
  let ?se = "saved_of eh ?phs i pre (renote n d) post"
  have "window (se_notes ?se) (se_vi_note ?se + 12 + round4 (length (n_name n))) (unat (old_descsz ?se)) = d"
  proof -
    have u: "unat (old_descsz ?se) = length d"
      using dl by (simp add: saved_of_def renote_def unsigned_of_nat take_bit_nat_eq_self)
    have "se_notes ?se = (encode_notes 1 pre @ note_header 1 (renote n d) @ padded (n_name n)) @ d @
        (replicate (round4 (length d) - length d) 0 @ encode_notes 1 post)"
      by (simp add: saved_of_def encode_notes_def encode_note_def renote_def padded_def [of d])
    moreover have "length (encode_notes 1 pre @ note_header 1 (renote n d) @ padded (n_name n)) =
        se_vi_note ?se + 12 + round4 (length (n_name n))"
      by (simp add: saved_of_def length_encode_notes)
    ultimately show ?thesis unfolding u by (simp only: window_mid)
  qed
  then show ?thesis using m(1) v' rd unfolding d_def by blast
qed

text \<open>
  C26: after an edit of a core dump, the data of every segment behind the note is in the
  file, moved with the end of the note. Of the program headers now in the file, the one
  of such a segment has the size it had, and has moved along only when it comes after
  the header of the notes: an earlier one still points at the old place.
\<close>

theorem editvmcoreinfo_segments:
  assumes v: "vmcore (file_bytes fd) eh phs i pre n post" and r: "reliable fd" "file_pos fd = 0"
    and nf: "reliable nf" and t: "reliable t" "file_bytes t = []" "file_pos t = 0"
    and small: "fits phs i (file_bytes nf @ [0])"
    and big: "length (file_bytes fd) + length (file_bytes nf) + 5 < 2 ^ 62" and j: "j < length phs" "j \<noteq> i"
    and behind: "seg_start phs i + notes_size pre + note_size n \<le> seg_start phs j"
    and inside: "seg_start phs j + unat (p_filesz (phs ! j)) \<le> length (file_bytes fd)"
  defines "moved \<equiv> seg_start phs j - note_size n + note_size (renote n (file_bytes nf @ [0]))"
  shows "\<exists>fd' phs'. editvmcoreinfo_main 3 (Some fd) (Some nf) (Some t) True = Some (Inr (0, Some fd')) \<and>
    phs' = decode_phdrs (length phs) (window (file_bytes fd') (unat (e_phoff eh)) (56 * length phs)) \<and>
    window (file_bytes fd') moved (unat (p_filesz (phs ! j))) =
      window (file_bytes fd) (seg_start phs j) (unat (p_filesz (phs ! j))) \<and>
    p_filesz (phs' ! j) = p_filesz (phs ! j) \<and>
    seg_start phs' j = (if i < j then moved else seg_start phs j)"
proof -
  define d where "d = file_bytes nf @ [0 :: u8]"
  let ?phs = "shift_phdrs i (growth n d) phs"
  obtain fd' where m: "editvmcoreinfo_main 3 (Some fd) (Some nf) (Some t) True = Some (Inr (0, Some fd'))"
    "file_bytes fd' = edited_image (file_bytes fd) eh phs i pre n d"
    using main_edits [OF v r nf t small] unfolding d_def by blast
  have big': "length (file_bytes fd) + length d + 4 < 2 ^ 62" using big by (simp add: d_def)
  note small' = small [folded d_def]
  have lp: "length ?phs = length phs" by (rule shift_phdrs_facts(1) [OF vmcore_sizes(1) [OF v]])
  have "vmcore (file_bytes fd') eh ?phs i pre (renote n d) post"
    unfolding m(2) by (rule vmcore_edited [OF v small' big'])
  then have "window (file_bytes fd') (unat (e_phoff eh)) (56 * length phs) = encode_phdrs ?phs"
    unfolding vmcore_def lp by blast
  then have "decode_phdrs (length phs) (window (file_bytes fd') (unat (e_phoff eh)) (56 * length phs)) = ?phs"
    using decode_encode_phdrs [of ?phs] lp by simp
  then show ?thesis
    using m edited_segments [OF v small' big' j behind inside] unfolding moved_def d_def
    by (intro exI [of _ fd'] exI [of _ ?phs]) (simp add: d_def)
qed

text \<open>
  C28: when the temporary file cannot be made, the program fails, and has already
  rewritten the program headers: unless the padded size stays the same, the core dump
  is left with headers that do not fit its contents.
\<close>

theorem editvmcoreinfo_half_done:
  assumes v: "vmcore (file_bytes fd) eh phs i pre n post" and r: "reliable fd" "file_pos fd = 0"
    and nf: "reliable nf" and small: "fits phs i (file_bytes nf @ [0])"
  shows "\<exists>fd'. editvmcoreinfo_main 3 (Some fd) (Some nf) None unlink_ok = Some (Inr (1, Some fd')) \<and>
    file_bytes fd' = headers_image (file_bytes fd) eh phs i n (file_bytes nf @ [0]) \<and>
    (growth n (file_bytes nf @ [0]) = 0 \<or> file_bytes fd' \<noteq> file_bytes fd)"
proof -
  define d where "d = file_bytes nf @ [0 :: u8]"
  let ?se = "saved_of eh phs i pre n post" and ?phs = "shift_phdrs i (growth n d) phs"
  let ?se' = "?se\<lparr>se_phdr := ?phs\<rparr>"
  let ?bs1 = "headers_image (file_bytes fd) eh phs i n d"
  note sz = vmcore_sizes [OF v]
  from v have l: "length (file_bytes fd) < 2 ^ 62" and wn: "wf_cnote n" by (simp_all add: vmcore_def note_segment_def)
  have new: "read_newdata (Some nf) = Some (of_nat (length d), d)"
    unfolding d_def using nf small by (intro read_newdata_reliable) (simp_all add: fits_def MAX_RW_COUNT_def)
  obtain f1 where f1: "read_elfdata fd = Inr (f1, Some ?se)" "file_bytes f1 = file_bytes fd" "reliable f1"
    using read_elfdata_vmcore [OF v r] by blast
  obtain f2 where f2: "update_offsets f1 ?se (of_nat (length d)) = (f2, ?se', 0)" "reliable f2" "file_bytes f2 = ?bs1"
    using update_offsets_vmcore [of f1 eh phs i pre n post d] v f1 by auto
  have d32: "length d < 2 ^ 32" using small by (simp add: fits_def MAX_RW_COUNT_def d_def)
  have nn: "new_note ?se' (of_nat (length d)) d = Inr (encode_note 1 (renote n d))"
    by (rule new_note_saved [OF wn d32]) (simp_all add: saved_of_def encode_notes_at)
  obtain f3 where f3: "lseek_end f2 = (f3, int (length ?bs1))" "file_bytes f3 = ?bs1" "reliable f3"
    using reliable_lseek_end [OF f2(2)] f2(3) by auto
  have "unat (notes_start ?se' + vi_note_end ?se') < 2 ^ 63"
    using segment_ends(2) [OF v] sz(4) l by (simp add: saved_of_def)
  then obtain f4 where f4: "lseek_set f3 (notes_start ?se' + vi_note_end ?se') = (f4, int (unat (notes_start ?se' + vi_note_end ?se')))"
    "file_bytes f4 = ?bs1" using reliable_lseek [OF f3(3)] f3(2) by auto
  have ne: "int (length ?bs1) \<noteq> -1" "\<not> int (unat (notes_start ?se' + vi_note_end ?se')) < 0" by linarith+
  have "shift_data None unlink_ok f2 ?se' (of_nat (length d)) d = Some (Inr (f4, -1))"
    unfolding shift_data_def nn bindO_simps f3(1) prod.case f4(1) using ne by simp
  then have m: "editvmcoreinfo_main 3 (Some fd) (Some nf) None unlink_ok = Some (Inr (1, Some f4))"
    by (simp add: editvmcoreinfo_main_def new f1(1) f2(1))
  have "growth n d = 0 \<or> ?bs1 \<noteq> file_bytes fd"
    using headers_image_changed [OF vmcore_headers [OF v], of n d] by blast
  then have "growth n d = 0 \<or> file_bytes f4 \<noteq> file_bytes fd" unfolding f4(2) .
  then show ?thesis using m f4(2) unfolding d_def by (intro exI [of _ f4] conjI)
qed

section \<open>Examples\<close>

text \<open>
  A core dump of 208 bytes: two program headers, the VMCOREINFO note at offset 176 and
  four bytes of memory behind it.
\<close>

definition vcore_ehdr :: "u8 list" where
  "vcore_ehdr = [0x7f, 0x45, 0x4c, 0x46, 2, 1, 1, 0] @ replicate 24 0 @
    [64, 0, 0, 0, 0, 0, 0, 0] @ replicate 14 0 @ [56, 0, 2, 0, 0, 0, 0, 0, 0, 0]"

definition vcore_phs :: "Elf64_Phdr list" where
  "vcore_phs =
    [\<lparr>p_type = 4, p_flags = 0, p_offset = 176, p_vaddr = 0, p_paddr = 0, p_filesz = 28, p_memsz = 0, p_align = 4\<rparr>,
     \<lparr>p_type = 1, p_flags = 7, p_offset = 204, p_vaddr = 0, p_paddr = 0, p_filesz = 4, p_memsz = 4, p_align = 1\<rparr>]"

definition vcore_note :: elfnote where
  "vcore_note = Note (ascii ''VMCOREINFO'' @ [0]) 0 (ascii ''a=1'' @ [0])"

definition vcore :: "u8 list" where
  "vcore = vcore_ehdr @ encode_phdrs vcore_phs @ encode_note 1 vcore_note @ [1, 2, 3, 4]"

definition plain_file :: "u8 list \<Rightarrow> ofile" where
  "plain_file bs = \<lparr>file_bytes = bs, file_pos = 0, file_calls = 0, file_env = (\<lambda>_. Full)\<rparr>"

lemma plain_file_simps [simp]:
  "reliable (plain_file bs)" "file_bytes (plain_file bs) = bs" "file_pos (plain_file bs) = 0"
  by (simp_all add: plain_file_def reliable_def)

lemma vcore_length: "length vcore = 208"
  by code_simp

lemma vcore_good: "good_ehdr (decode_ehdr vcore_ehdr)" "e_phnum (decode_ehdr vcore_ehdr) = 2"
  "e_phoff (decode_ehdr vcore_ehdr) = 64"
  by code_simp+

lemma vcore_windows: "window vcore 0 64 = vcore_ehdr" "window vcore 64 112 = encode_phdrs vcore_phs"
  "window vcore 176 28 = encode_notes 1 [vcore_note]"
  by code_simp+

lemma vcore_wf: "wf_cnote vcore_note" "is_vmcoreinfo vcore_note"
  by (simp_all add: wf_cnote_def vcore_note_def is_vmcoreinfo_def ascii_def)

lemma vcore_vmcore: "vmcore vcore (decode_ehdr vcore_ehdr) vcore_phs 0 [] vcore_note []"
proof -
  have p: "vcore_phs ! 0 = \<lparr>p_type = 4, p_flags = 0, p_offset = 176, p_vaddr = 0, p_paddr = 0, p_filesz = 28, p_memsz = 0, p_align = 4\<rparr>"
    "length vcore_phs = 2" "first_note vcore_phs 0 = Some 0"
    by (simp_all add: vcore_phs_def)
  show ?thesis
    using vcore_windows vcore_good vcore_wf vcore_length p
    by (simp add: vmcore_def note_segment_def MAX_RW_COUNT_def)
qed

abbreviation new_contents :: "u8 list" where
  "new_contents \<equiv> ascii ''b=22'' @ [0x0a]"

lemma vcore_fits: "fits vcore_phs 0 (new_contents @ [0])"
  by (simp add: fits_def vcore_phs_def MAX_RW_COUNT_def ascii_def)

theorem sendfile_loop_outcomes_witness:
  "sendfile_loop 3 (plain_file []) (plain_file [1, 2]) 0 = None \<and>
    (\<exists>dst' src'. sendfile_loop 2 (plain_file []) (plain_file [1, 2]) 0 = Some (dst', src', 0) \<and>
      file_bytes dst' = [1, 2]) \<and>
    (\<exists>dst' src'. sendfile_loop (- 2) (plain_file []) (plain_file [1, 2]) 0 = Some (dst', src', -1))"
proof (intro conjI)
  note out = sendfile_loop_outcomes [of "plain_file [1, 2]" "plain_file []"]
  show "sendfile_loop 3 (plain_file []) (plain_file [1, 2]) 0 = None"
    using out [of 3] by (auto split: option.split_asm prod.split_asm)
  show "\<exists>dst' src'. sendfile_loop 2 (plain_file []) (plain_file [1, 2]) 0 = Some (dst', src', 0) \<and>
      file_bytes dst' = [1, 2]"
    using out [of 2] by (auto simp: window_def split: option.split_asm prod.split_asm)
  have "unat (- 2 :: u64) = 2 ^ 64 - 2" by simp
  then show "\<exists>dst' src'. sendfile_loop (- 2) (plain_file []) (plain_file [1, 2]) 0 = Some (dst', src', -1)"
    using out [of "- 2"] by (auto split: option.split_asm prod.split_asm if_split_asm)
qed

theorem editvmcoreinfo_correct_witness:
  "\<exists>fd'. editvmcoreinfo_main 3 (Some (plain_file vcore)) (Some (plain_file new_contents)) (Some (plain_file [])) True =
      Some (Inr (0, Some fd')) \<and>
    file_bytes fd' = edited_image vcore (decode_ehdr vcore_ehdr) vcore_phs 0 [] vcore_note (new_contents @ [0])"
  using editvmcoreinfo_correct [of "plain_file vcore" "decode_ehdr vcore_ehdr" vcore_phs 0 "[]" vcore_note "[]"
      "plain_file new_contents" "plain_file []"] vcore_vmcore vcore_fits by simp

theorem editvmcoreinfo_roundtrip_witness:
  "\<exists>fd' fd'' se. editvmcoreinfo_main 3 (Some (plain_file vcore)) (Some (plain_file new_contents)) (Some (plain_file [])) True =
      Some (Inr (0, Some fd')) \<and>
    read_elfdata (fd'\<lparr>file_pos := 0\<rparr>) = Inr (fd'', Some se) \<and>
    window (se_notes se) (se_vi_note se + 12 + round4 11) (unat (old_descsz se)) = new_contents @ [0]"
proof -
  have "length (n_name vcore_note) = 11" "length vcore + length new_contents + 5 < 2 ^ 62"
    by (simp_all add: vcore_note_def ascii_def vcore_length)
  then show ?thesis
    using editvmcoreinfo_roundtrip [of "plain_file vcore" "decode_ehdr vcore_ehdr" vcore_phs 0 "[]" vcore_note "[]"
        "plain_file new_contents" "plain_file []"] vcore_vmcore vcore_fits by fastforce
qed

theorem editvmcoreinfo_segments_witness:
  "\<exists>fd'. editvmcoreinfo_main 3 (Some (plain_file vcore)) (Some (plain_file new_contents)) (Some (plain_file [])) True =
      Some (Inr (0, Some fd')) \<and>
    window (file_bytes fd') 208 4 = [1, 2, 3, 4] \<and>
    seg_start (decode_phdrs 2 (window (file_bytes fd') 64 112)) 1 = 208"
proof -
  have s: "notes_size [] = 0" "note_size vcore_note = 28" "note_size (renote vcore_note (new_contents @ [0])) = 32"
    "seg_start vcore_phs 1 = 204" "seg_start vcore_phs 0 = 176" "unat (p_filesz (vcore_phs ! 1)) = 4" "length vcore_phs = 2"
    by (simp_all add: vcore_note_def vcore_phs_def note_size_def renote_def ascii_def round4_def)
  have "window vcore 204 4 = [1, 2, 3, 4]" by code_simp
  then show ?thesis
    using editvmcoreinfo_segments [of "plain_file vcore" "decode_ehdr vcore_ehdr" vcore_phs 0 "[]" vcore_note "[]"
        "plain_file new_contents" "plain_file []" 1] vcore_vmcore vcore_fits s vcore_length vcore_good(3)
    by (auto simp: ascii_def)
qed

theorem editvmcoreinfo_half_done_witness:
  "\<exists>fd'. editvmcoreinfo_main 3 (Some (plain_file vcore)) (Some (plain_file new_contents)) None True =
      Some (Inr (1, Some fd')) \<and> file_bytes fd' \<noteq> vcore"
proof -
  have "growth vcore_note (new_contents @ [0]) \<noteq> 0" by code_simp
  then show ?thesis
    using editvmcoreinfo_half_done [of "plain_file vcore" "decode_ehdr vcore_ehdr" vcore_phs 0 "[]" vcore_note "[]"
        "plain_file new_contents" True] vcore_vmcore vcore_fits by auto
qed

end
