(* ===== verification/VmcoreFail.thy ===== *)
theory VmcoreFail
  imports VmcoreRoundtrip
begin

text \<open>
  \<open>editvmcoreinfo\<close> on files that do not end as it expects: a core dump whose last note
  is not padded, on which it fails after it has rewritten the headers; and, on every
  file whatever it holds, that it returns.
\<close>

section \<open>A last note without padding\<close>

text \<open>The note segment ends the file, and its last note ends with its contents.\<close>

definition short_notes :: "elfnote list \<Rightarrow> elfnote \<Rightarrow> u8 list" where
  "short_notes pre n = encode_notes 1 pre @ note_header 1 n @ padded (n_name n) @ n_desc n"

definition short_vmcore :: "u8 list \<Rightarrow> Elf64_Ehdr \<Rightarrow> Elf64_Phdr list \<Rightarrow> nat \<Rightarrow> elfnote list \<Rightarrow> elfnote \<Rightarrow> bool" where
  "short_vmcore bs eh phs i pre n \<longleftrightarrow> core_headers bs eh phs i \<and>
    seg_start phs i + unat (p_filesz (phs ! i)) = length bs \<and>
    window bs (seg_start phs i) (unat (p_filesz (phs ! i))) = short_notes pre n \<and>
    list_all wf_cnote (pre @ [n]) \<and> is_vmcoreinfo n \<and> length (n_desc n) mod 4 \<noteq> 0"

definition short_saved :: "Elf64_Ehdr \<Rightarrow> Elf64_Phdr list \<Rightarrow> nat \<Rightarrow> elfnote list \<Rightarrow> elfnote \<Rightarrow> saved_elfdata" where
  "short_saved eh phs i pre n = (saved_of eh phs i pre n [])\<lparr>se_notes := short_notes pre n\<rparr>"

lemma length_short_notes:
  "length (short_notes pre n) = notes_size pre + 12 + round4 (length (n_name n)) + length (n_desc n)"
  by (simp add: short_notes_def length_encode_notes)

lemma vi_notes_loop_short:
  assumes wf: "list_all wf_cnote (pre @ [n])" and vi: "is_vmcoreinfo n"
    and len: "unat len = length (short_notes pre n)"
  shows "vi_notes_loop (short_notes pre n) len None 0 =
    Inr (Some (notes_size pre, of_nat (length (n_name n)), of_nat (length (n_desc n))))"
proof -
  let ?notes = "short_notes pre n" and ?p = "notes_size pre"
  have w: "list_all wf_cnote pre" "wf_cnote n" using wf by simp_all
  have "vi_notes_loop ?notes len None 0 = vi_notes_loop ?notes len (last_vmcoreinfo 0 None pre) (0 + ?p)"
    by (rule vi_notes_loop_prefix [OF w(1) _ _ len, of "[]"]) (simp_all add: short_notes_def)
  also have "\<dots> = vi_notes_loop ?notes len
      (Some (?p, of_nat (length (n_name n)), of_nat (length (n_desc n)))) (?p + note_size n)"
    using vi_notes_loop_step [OF w(2), of "encode_notes 1 pre" ?p len ?notes "n_desc n"] vi len length_short_notes [of pre n]
    by (simp add: short_notes_def length_encode_notes)
  also have "\<dots> = Inr (Some (?p, of_nat (length (n_name n)), of_nat (length (n_desc n))))"
    using len length_short_notes [of pre n] round4_bounds [of "length (n_desc n)"]
    by (intro vi_notes_loop_end) (simp add: note_size_def)
  finally show ?thesis .
qed

text \<open>The amount to save wraps around to one that \<open>sendfile\<close> refuses.\<close>

lemma unat_wrapped:
  fixes e :: u64
  assumes "L < unat e" and "unat e < 2 ^ 63"
  shows "2 ^ 63 \<le> unat (word_of_int (int L) - e)"
proof -
  have "unat (of_nat L :: u64) = L" using assms by (intro unat_of_nat64) simp
  then have "unat (of_nat L - e) = L + 2 ^ 64 - unat e" using assms by (simp add: unat_sub_if')
  then show ?thesis using assms by simp
qed

lemma shift_data_refused:
  assumes r: "reliable fd" and n: "new_note se nd d = Inr xs"
    and e: "length (file_bytes fd) < unat (notes_start se + vi_note_end se)"
      "unat (notes_start se + vi_note_end se) < 2 ^ 63"
  shows "\<exists>fd'. shift_data tmp unlink_ok fd se nd d = Some (Inr (fd', -1)) \<and> file_bytes fd' = file_bytes fd"
proof -
  let ?L = "length (file_bytes fd)" and ?e = "notes_start se + vi_note_end se"
  obtain f1 where f1: "lseek_end fd = (f1, int ?L)" "file_bytes f1 = file_bytes fd" "reliable f1"
    using reliable_lseek_end [OF r] by blast
  obtain f2 where f2: "lseek_set f1 ?e = (f2, int (unat ?e))" "file_bytes f2 = file_bytes fd"
    using reliable_lseek [OF f1(3) e(2)] f1(2) by auto
  let ?save = "word_of_int (int ?L) - ?e"
  have s: "sendfile_loop ?save t f2 0 = Some (t, file_tick f2, -1)" for t
    by (rule sendfile_loop_refused [OF unat_wrapped [OF e]])
  have ne: "int ?L \<noteq> -1" "\<not> int (unat ?e) < 0" by linarith+
  show ?thesis
    unfolding shift_data_def n bindO_simps f1(1) prod.case f2(1) Let_def s option.case
    using ne f2(2) by (cases tmp; cases unlink_ok) simp_all
qed

text \<open>
  C30: when the VMCOREINFO note is the last of a core dump and ends the file without
  its padding, the program fails, whatever the temporary file: the end of the note it
  computes is behind the end of the file, and the wrapped number of bytes to save is
  refused. By then the headers are rewritten, to contents that are not there unless
  the padded size of the note stays the same.
\<close>

theorem editvmcoreinfo_short_note:
  assumes v: "short_vmcore (file_bytes fd) eh phs i pre n" and r: "reliable fd" "file_pos fd = 0"
    and nf: "reliable nf" and small: "fits phs i (file_bytes nf @ [0])"
  shows "\<exists>fd'. editvmcoreinfo_main 3 (Some fd) (Some nf) tmp unlink_ok = Some (Inr (1, Some fd')) \<and>
    file_bytes fd' = headers_image (file_bytes fd) eh phs i n (file_bytes nf @ [0]) \<and>
    (growth n (file_bytes nf @ [0]) = 0 \<or> file_bytes fd' \<noteq> file_bytes fd)"
proof -
  define d where "d = file_bytes nf @ [0 :: u8]"
  let ?bs = "file_bytes fd" and ?se = "short_saved eh phs i pre n" and ?phs = "shift_phdrs i (growth n d) phs"
  let ?bs1 = "headers_image ?bs eh phs i n d" and ?se' = "?se\<lparr>se_phdr := ?phs\<rparr>"
  from v have h: "core_headers ?bs eh phs i" and e: "seg_start phs i + unat (p_filesz (phs ! i)) = length ?bs"
    and w: "window ?bs (seg_start phs i) (unat (p_filesz (phs ! i))) = short_notes pre n"
    and wf: "list_all wf_cnote (pre @ [n])" and vi: "is_vmcoreinfo n" and odd: "length (n_desc n) mod 4 \<noteq> 0"
    unfolding short_vmcore_def by blast+
  have wn: "wf_cnote n" using wf by simp
  have l: "length ?bs < 2 ^ 62" using h by (simp add: core_headers_def)
  have len: "unat (p_filesz (phs ! i)) = length (short_notes pre n)" unfolding w [symmetric] using e by simp
  have new: "read_newdata (Some nf) = Some (of_nat (length d), d)"
    unfolding d_def using nf small by (intro read_newdata_reliable) (simp_all add: fits_def MAX_RW_COUNT_def)
  obtain f1 where f1: "read_elfdata fd = Inr (f1, Some ?se)" "file_bytes f1 = ?bs" "reliable f1"
    using read_elfdata_headers [OF h r w vi_notes_loop_short [OF wf vi len]]
    unfolding note_end_word(1) [OF wn] unfolding note_end_word(2) [OF wn]
    by (auto simp: short_saved_def saved_of_def)
  have np: "new_phdrs ?se (of_nat (length d)) = ?phs"
    using new_phdrs_saved [of eh phs i pre n "[]" d] by (simp add: short_saved_def new_phdrs_def)
  obtain f2 where f2: "update_offsets f1 ?se (of_nat (length d)) = (f2, ?se', 0)" "reliable f2" "file_bytes f2 = ?bs1"
    using update_offsets_headers [of f1 eh phs i ?se, OF _ f1(3) _ np] h f1(2)
    by (auto simp: short_saved_def saved_of_def)
  have d32: "length d < 2 ^ 32" using small by (simp add: fits_def MAX_RW_COUNT_def d_def)
  have nn: "new_note ?se' (of_nat (length d)) d = Inr (encode_note 1 (renote n d))"
    by (rule new_note_saved [OF wn d32]) (simp_all add: short_saved_def saved_of_def short_notes_def)
  have lb: "length (file_bytes f2) = length ?bs" unfolding f2(3) by (rule headers_image_facts(1) [OF h])
  have r4: "length (n_desc n) < round4 (length (n_desc n))" "round4 (length (n_desc n)) < length (n_desc n) + 4"
    using odd round4_bounds [of "length (n_desc n)"] by (auto simp: le_less dvd_eq_mod_eq_0)
  have k: "length ?bs < seg_start phs i + (notes_size pre + note_size n)"
    "seg_start phs i + (notes_size pre + note_size n) < length ?bs + 4"
    using e len length_short_notes [of pre n] r4 unfolding note_size_def [of n] by linarith+
  have "notes_start ?se' + vi_note_end ?se' = p_offset (phs ! i) + of_nat (notes_size pre + note_size n)"
    by (simp add: short_saved_def saved_of_def)
  also have "unat \<dots> = seg_start phs i + (notes_size pre + note_size n)"
    by (rule unat_add_of_nat) (use k l in simp)
  finally have ends: "length (file_bytes f2) < unat (notes_start ?se' + vi_note_end ?se')"
    "unat (notes_start ?se' + vi_note_end ?se') < 2 ^ 63"
    using k l lb by simp_all
  obtain fd' where "shift_data tmp unlink_ok f2 ?se' (of_nat (length d)) d = Some (Inr (fd', -1))"
    "file_bytes fd' = ?bs1"
    using shift_data_refused [OF f2(2) nn ends] f2(3) by auto
  then have "editvmcoreinfo_main 3 (Some fd) (Some nf) tmp unlink_ok = Some (Inr (1, Some fd'))"
    by (simp add: editvmcoreinfo_main_def new f1(1) f2(1))
  moreover have "growth n d = 0 \<or> ?bs1 \<noteq> ?bs" using headers_image_changed [OF h, of n d] by blast
  ultimately show ?thesis using \<open>file_bytes fd' = ?bs1\<close> unfolding d_def by (intro exI [of _ fd']) simp
qed

section \<open>The program returns\<close>

text \<open>A file that can be copied from and to.\<close>

abbreviation fresh :: "ofile \<Rightarrow> bool" where
  "fresh t \<equiv> reliable t \<and> file_bytes t = [] \<and> file_pos t = 0"

lemma reliable_write_end:
  assumes "reliable f" and "file_pos f = length (file_bytes f)"
  shows "\<exists>f' r. file_write f xs = (f', r) \<and> reliable f' \<and> file_pos f' = length (file_bytes f')"
  using assms by (simp add: file_write_def Let_def patch_end reliable_def)

lemma sint_nonneg: "0 \<le> sint (x :: u64) \<Longrightarrow> unat x < 2 ^ 63"
proof -
  assume "0 \<le> sint x"
  then have "\<not> bit (uint x) 63" by (simp add: sint_uint)
  then have "even (uint x div 2 ^ 63)" by (simp add: bit_iff_odd)
  moreover have "0 \<le> uint x" "uint x < 2 ^ 64" using uint_lt2p [of x] by simp_all
  then have "0 \<le> uint x div 2 ^ 63" "uint x div 2 ^ 63 < 2" by (simp_all add: pos_imp_zdiv_nonneg_iff)
  moreover have "q = 0" if "even q" "0 \<le> q" "q < 2" for q :: int using that by presburger
  ultimately have "uint x div 2 ^ 63 = 0" by blast
  then have "uint x mod 2 ^ 63 = uint x" using div_mult_mod_eq [of "uint x" "2 ^ 63"] by simp
  then have "uint x < 2 ^ 63" using pos_mod_bound [of "2 ^ 63" "uint x"] by simp
  then have "int (unat x) < int (2 ^ 63)" by simp
  then show ?thesis by (simp only: of_nat_less_iff)
qed

lemma ftruncate_env: "ftruncate f n = (f', r) \<Longrightarrow> file_env f' = file_env f"
  by (auto simp: ftruncate_def split: if_splits)

lemma shift_data_returns:
  assumes r: "reliable fd" and t: "\<And>t. tmp = Some t \<Longrightarrow> fresh t" and l: "length (file_bytes fd) < 2 ^ 63"
  shows "shift_data tmp unlink_ok fd se nd d \<noteq> None"
proof (cases "new_note se nd d")
  case (Inl e)
  then show ?thesis by (simp add: shift_data_def)
next
  case nn: (Inr xs)
  let ?L = "length (file_bytes fd)" and ?e = "notes_start se + vi_note_end se"
  obtain f1 where f1: "lseek_end fd = (f1, int ?L)" "file_bytes f1 = file_bytes fd" "reliable f1"
    using reliable_lseek_end [OF r] by blast
  obtain f2 p where f2: "lseek_set f1 ?e = (f2, p)" by fastforce
  show ?thesis
  proof (cases "p < 0 \<or> tmp = None \<or> \<not> unlink_ok")
    case True
    then show ?thesis
      unfolding shift_data_def nn bindO_simps f1(1) prod.case f2 Let_def by (cases tmp) auto
  next
    case False
    then obtain t where tmp: "tmp = Some t" and ft: "fresh t" and p: "\<not> p < 0" and u: unlink_ok using t by auto
    from f2 p have f2': "file_bytes f2 = file_bytes fd" "reliable f2" "file_pos f2 = unat ?e" "unat ?e < 2 ^ 63"
      using f1(2,3) sint_nonneg [of ?e]
      by (auto simp: lseek_set_def reliable_def not_less split: if_splits)
    let ?save = "word_of_int (int ?L) - ?e"
    have dst: "file_pos t = length (file_bytes t)" using ft by simp
    show ?thesis
    proof (cases rule: sendfile_loop_cases [OF f2'(2) dst, where amt = ?save, case_names refused copied endless])
      case refused
      then show ?thesis
        using p u unfolding shift_data_def nn bindO_simps f1(1) prod.case f2 Let_def tmp by simp
    next
      case endless
      have "unat (of_nat ?L :: u64) = ?L" using l by (intro unat_of_nat64) simp
      then have "unat ?save = (if unat ?e \<le> ?L then ?L - unat ?e else ?L + 2 ^ 64 - unat ?e)"
        by (simp add: unat_sub_if')
      then show ?thesis using endless(1,2) f2'(1,3,4) by (simp split: if_splits)
    next
      case (copied t1 f3)
      have lt: "length (file_bytes t1) = unat ?save" using copied(2,4) ft f2'(1) by (simp add: length_window)
      have r3: "reliable f3" "reliable t1" using f2'(2) ft copied(5,7) by (simp_all add: reliable_def)
      obtain f4 r4 where f4: "ftruncate f3 (notes_start se + vi_note_start se) = (f4, r4)" by fastforce
      have "reliable f4" using ftruncate_env [OF f4] r3(1) by (simp add: reliable_def)
      then obtain f5 where f5: "lseek_end f4 = (f5, int (length (file_bytes f4)))" "reliable f5"
        "file_pos f5 = length (file_bytes f5)" using reliable_lseek_end by metis
      obtain t2 where t2: "lseek_set t1 0 = (t2, 0)" "file_bytes t2 = file_bytes t1" "reliable t2" "file_pos t2 = 0"
        using reliable_lseek [OF r3(2), of 0] by auto
      obtain f6 r6 where f6: "file_write f5 xs = (f6, r6)" "file_pos f6 = length (file_bytes f6)"
        using reliable_write_end [OF f5(2,3)] by blast
      have "sendfile_loop ?save f6 t2 0 \<noteq> None"
        by (rule sendfile_loop_cases [OF t2(3) f6(2), of ?save]) (use t2(2,4) lt in simp_all)
      then show ?thesis
        using p u copied(3) f4 f5(1) t2(1) f6(1)
        unfolding shift_data_def nn bindO_simps f1(1) prod.case f2 Let_def tmp
        by (auto split: option.split prod.split)
    qed
  qed
qed

text \<open>What \<open>read_elfdata\<close> found lies within the file, so the headers are rewritten in place.\<close>

lemma read_elfdata_table:
  assumes "read_elfdata fd = Inr (fd', se)"
  shows "file_bytes fd' = file_bytes fd \<and> file_env fd' = file_env fd \<and>
    (\<forall>s. se = Some s \<longrightarrow> notes_seg s < length (se_phdr s) \<and> length (se_phdr s) = unat (e_phnum (se_ehdr s)) \<and>
      unat (e_phoff (se_ehdr s)) + 56 * length (se_phdr s) \<le> length (file_bytes fd))"
proof -
  obtain f1 r1 b1 where f1: "file_read fd 64 = (f1, r1, b1)" by (metis prod_cases3)
  obtain f2 r2 where f2: "lseek_set f1 (e_phoff (decode_ehdr b1)) = (f2, r2)" by fastforce
  let ?n = "unat (e_phnum (decode_ehdr b1))"
  obtain f3 r3 b3 where f3: "file_read f2 (56 * ?n) = (f3, r3, b3)" by (metis prod_cases3)
  let ?phs = "decode_phdrs ?n b3"
  note keep = file_read_bytes [OF f1] lseek_set_bytes [OF f2] file_read_bytes [OF f3]
  show ?thesis
  proof (cases "r1 = 64 \<and> r2 \<noteq> -1 \<and> r3 = int (56 * ?n) \<and> (\<exists>i. first_note ?phs 0 = Some i)")
    case False
    then show ?thesis
      using assms keep unfolding read_elfdata_def f1 prod.case Let_def f2 f3
      by (auto split: if_splits option.splits)
  next
    case True
    then obtain i where i: "first_note ?phs 0 = Some i" and r2: "r2 \<noteq> -1" and r3: "r3 = int (56 * ?n)" by blast
    have b: "i < ?n" using first_note_bounds [OF i] by simp
    obtain f4 r4 where f4: "lseek_set f3 (p_offset (?phs ! i)) = (f4, r4)" by fastforce
    obtain f5 r5 b5 where f5: "file_read f4 (unat (p_filesz (?phs ! i))) = (f5, r5, b5)" by (metis prod_cases3)
    have pos: "file_pos f2 = unat (e_phoff (decode_ehdr b1))" using f2 r2 by (auto simp: lseek_set_def split: if_splits)
    have "unat (e_phoff (decode_ehdr b1)) + 56 * ?n \<le> length (file_bytes fd)"
      using file_read_all [OF f3 r3] b pos keep by auto
    then show ?thesis
      using assms keep lseek_set_bytes [OF f4] file_read_bytes [OF f5] b True
      unfolding read_elfdata_def f1 prod.case Let_def f2 f3 i option.case f4 f5
      by (auto simp: bindR_def split: if_splits sum.splits option.splits)
  qed
qed

lemma update_offsets_length:
  assumes "update_offsets fd se nd = (fd', se', r)" and "notes_seg se < length (se_phdr se)"
    and "unat (e_phoff (se_ehdr se)) + 56 * length (se_phdr se) \<le> length (file_bytes fd)"
  shows "length (file_bytes fd') = length (file_bytes fd) \<and> file_env fd' = file_env fd"
proof -
  have n: "length (new_phdrs se nd) = length (se_phdr se)" using assms(2) by (simp add: new_phdrs_def Let_def)
  obtain f1 r1 where f1: "lseek_set fd (e_phoff (se_ehdr se)) = (f1, r1)" by fastforce
  obtain f2 r2 where f2: "file_write f1 (encode_phdrs (new_phdrs se nd)) = (f2, r2)" by fastforce
  have k: "file_bytes f1 = file_bytes fd" "file_env f1 = file_env fd" using lseek_set_bytes [OF f1] by simp_all
  have "length (file_bytes f2) = length (file_bytes f1) \<and> file_env f2 = file_env f1" if "r1 \<noteq> -1"
  proof -
    have p: "file_pos f1 = unat (e_phoff (se_ehdr se))" using f1 that by (auto simp: lseek_set_def split: if_splits)
    let ?a = "allowed (outcome f1) (length (encode_phdrs (new_phdrs se nd)))"
    have "?a \<le> 56 * length (se_phdr se)" using allowed_le [of "outcome f1" "length (encode_phdrs (new_phdrs se nd))"] n by simp
    then have "length (patch (file_bytes f1) (file_pos f1) (take ?a (encode_phdrs (new_phdrs se nd)))) = length (file_bytes f1)"
      using p k(1) assms(3) by (intro length_patch) simp
    then show ?thesis using f2 by (auto simp: file_write_def Let_def split: if_splits)
  qed
  then show ?thesis
    using assms(1) k f1 f2 unfolding update_offsets_def by (auto simp: Let_def split: if_splits prod.splits)
qed

text \<open>
  C29: whatever the core dump and the new contents hold, when no call on the core dump
  and the temporary file fails, the program returns (or stops at a crash): no copy
  loop waits for bytes that its source does not have.
\<close>

theorem editvmcoreinfo_returns:
  assumes fd: "\<And>f. core = Some f \<Longrightarrow> reliable f \<and> length (file_bytes f) < 2 ^ 63"
    and tmp: "\<And>t. tmp = Some t \<Longrightarrow> fresh t"
  shows "editvmcoreinfo_main argc core newfile tmp unlink_ok \<noteq> None"
proof -
  have "bindO (Some (read_elfdata f)) (\<lambda>(fd, se). case se of None \<Rightarrow> Some (Inr (1, Some fd))
      | Some se \<Rightarrow> case update_offsets fd se newsize of (fd, se, r) \<Rightarrow>
         if r < 0 then Some (Inr (1, Some fd))
         else bindO (shift_data tmp unlink_ok fd se newsize newdata) (\<lambda>(fd, r).
           Some (Inr (if r < 0 then 1 else 0, Some fd)))) \<noteq> None" if f: "core = Some f" for f newsize newdata
  proof (cases "read_elfdata f")
    case (Inl e)
    then show ?thesis by simp
  next
    case (Inr x)
    then obtain f1 se where x: "read_elfdata f = Inr (f1, se)" by (cases x) simp
    note tab = read_elfdata_table [OF x]
    show ?thesis
    proof (cases se)
      case None
      then show ?thesis by (simp add: x)
    next
      case (Some s)
      obtain f2 s' r where up: "update_offsets f1 s newsize = (f2, s', r)" by (metis prod_cases3)
      have "length (file_bytes f2) = length (file_bytes f) \<and> file_env f2 = file_env f"
        using update_offsets_length [OF up] tab Some by simp
      then have "reliable f2" "length (file_bytes f2) < 2 ^ 63" using fd [OF f] by (simp_all add: reliable_def)
      from shift_data_returns [OF this(1) tmp this(2)]
      have "shift_data tmp unlink_ok f2 s' newsize newdata \<noteq> None" .
      then show ?thesis by (auto simp: x Some up bindO_def split: sum.splits)
    qed
  qed
  note body = this
  show ?thesis
  proof (cases "argc = 3 \<and> read_newdata newfile \<noteq> None \<and> core \<noteq> None")
    case True
    then obtain a b f where "read_newdata newfile = Some (a, b)" "core = Some f" "argc = 3" by auto
    with body [of f a b] show ?thesis unfolding editvmcoreinfo_main_def by simp
  qed (auto simp: editvmcoreinfo_main_def split: option.split)
qed

section \<open>Examples\<close>

text \<open>A core dump of 202 bytes that ends with a note whose contents are two bytes.\<close>

definition short_note :: elfnote where
  "short_note = Note (ascii ''VMCOREINFO'' @ [0]) 0 [0x31, 0]"

definition short_phs :: "Elf64_Phdr list" where
  "short_phs =
    [\<lparr>p_type = 4, p_flags = 0, p_offset = 176, p_vaddr = 0, p_paddr = 0, p_filesz = 26, p_memsz = 0, p_align = 4\<rparr>,
     \<lparr>p_type = 1, p_flags = 7, p_offset = 202, p_vaddr = 0, p_paddr = 0, p_filesz = 0, p_memsz = 4, p_align = 1\<rparr>]"

definition short_core :: "u8 list" where
  "short_core = vcore_ehdr @ encode_phdrs short_phs @ short_notes [] short_note"

lemma short_core_windows: "window short_core 0 64 = vcore_ehdr" "window short_core 64 112 = encode_phdrs short_phs"
  "window short_core 176 26 = short_notes [] short_note" "length short_core = 202"
  by code_simp+

lemma short_core_vmcore: "short_vmcore short_core (decode_ehdr vcore_ehdr) short_phs 0 [] short_note"
proof -
  have p: "short_phs ! 0 = \<lparr>p_type = 4, p_flags = 0, p_offset = 176, p_vaddr = 0, p_paddr = 0, p_filesz = 26, p_memsz = 0, p_align = 4\<rparr>"
    "length short_phs = 2" "first_note short_phs 0 = Some 0"
    by (simp_all add: short_phs_def)
  have n: "wf_cnote short_note" "is_vmcoreinfo short_note" "length (n_desc short_note) = 2"
    by (simp_all add: wf_cnote_def short_note_def is_vmcoreinfo_def ascii_def)
  show ?thesis
    using short_core_windows vcore_good n p
    by (simp add: short_vmcore_def core_headers_def MAX_RW_COUNT_def)
qed

theorem editvmcoreinfo_short_note_witness:
  "\<exists>fd'. editvmcoreinfo_main 3 (Some (plain_file short_core)) (Some (plain_file new_contents)) (Some (plain_file [])) True =
      Some (Inr (1, Some fd')) \<and> file_bytes fd' \<noteq> short_core"
proof -
  have "growth short_note (new_contents @ [0]) \<noteq> 0" by code_simp
  moreover have "fits short_phs 0 (new_contents @ [0])"
    by (simp add: fits_def short_phs_def MAX_RW_COUNT_def ascii_def)
  ultimately show ?thesis
    using editvmcoreinfo_short_note [of "plain_file short_core" "decode_ehdr vcore_ehdr" short_phs 0 "[]" short_note
        "plain_file new_contents" "Some (plain_file [])" True] short_core_vmcore by auto
qed

theorem editvmcoreinfo_returns_witness:
  "editvmcoreinfo_main 3 (Some (plain_file short_core)) (Some (plain_file new_contents)) (Some (plain_file [])) True \<noteq> None"
  by (rule editvmcoreinfo_returns) (auto simp: short_core_windows(4))

end
