(* ===== verification/Phys2virt.thy ===== *)
theory Phys2virt
  imports FileIO
begin

text \<open>
  \<open>phys2virt\<close> (\<open>src/elf/phys2virt.c\<close>): give the load segments of a 64-bit core dump of
  either byte order their physical addresses as virtual ones, or zero. The program
  headers are a buffer of bytes, \<open>pe\<close> is the byte order of the machine, and streams act
  on the file at once (their buffers are left out).
\<close>

section \<open>Translation\<close>

text \<open>\<open>endian\<close>: the first byte of the number 1 in memory.\<close>

definition endian_of_machine :: "int \<Rightarrow> int" where
  "endian_of_machine pe = (if mem_bytes pe 4 1 ! 0 \<noteq> 0 then ELFDATA2LSB else ELFDATA2MSB)"

text \<open>The loop over the program headers: \<open>p_vaddr\<close> is at offset 16, \<open>p_paddr\<close> at 24.\<close>

definition set_vaddr :: "bool \<Rightarrow> nat \<Rightarrow> u8 list \<Rightarrow> u8 list" where
  "set_vaddr zero i phdrs =
    patch phdrs (i * 56 + 16) (if zero then replicate 8 0 else window phdrs (i * 56 + 24) 8)"

definition set_vaddrs :: "bool \<Rightarrow> nat \<Rightarrow> u8 list \<Rightarrow> u8 list" where
  "set_vaddrs zero n phdrs = fold (set_vaddr zero) [0..<n] phdrs"

text \<open>A number of the ELF header, swapped when the file has not the machine's byte order.\<close>

definition hdr_num :: "int \<Rightarrow> u8 list \<Rightarrow> nat \<Rightarrow> nat \<Rightarrow> nat" where
  "hdr_num pe hdr off n = (let x = mem_nat pe (window hdr off n) in
    if endian_of_machine pe \<noteq> uint (hdr ! 5) then bswap n x else x)"

text \<open>
  The result is the exit value and the file; \<open>None\<close> is a file that does not open, and
  every failure exits with 1.
\<close>

definition phys2virt :: "int \<Rightarrow> ofile option \<Rightarrow> bool \<Rightarrow> int \<times> ofile option" where
  "phys2virt pe file1 zero =
    (case file1 of None \<Rightarrow> (1, None)
     | Some f \<Rightarrow>
       case file_fread f 64 of (f, n, hdr) \<Rightarrow>
       if n \<noteq> 64 then (1, Some f)
       else if window hdr 0 4 \<noteq> [0x7f, 0x45, 0x4c, 0x46] then (1, Some f)
       else if uint (hdr ! 4) \<noteq> ELFCLASS64 then (1, Some f)
       else
         let phoff = of_nat (hdr_num pe hdr 32 8); phnum = hdr_num pe hdr 56 2;
             phentsize = hdr_num pe hdr 54 2 in
         if phentsize \<noteq> 56 then (1, Some f)
         else case lseek_set f phoff of (f, r) \<Rightarrow>
         if r < 0 then (1, Some f)
         else case file_fread f (56 * phnum) of (f, n, phdrs) \<Rightarrow>
         if n \<noteq> 56 * phnum then (1, Some f)
         else
           let phdrs = set_vaddrs zero phnum phdrs in
           case lseek_set f phoff of (f, r) \<Rightarrow>
           if r < 0 then (1, Some f)
           else case file_write f phdrs of (f, rv) \<Rightarrow>
           if rv \<noteq> int (56 * phnum) then (1, Some f)
           else (0, Some f))"

text \<open>
  \<open>main\<close>: the options that \<open>getopt_long\<close> returns, the number of the other arguments, and
  the file that \<open>fopen\<close> gives. \<open>usage\<close> exits with 0, an unknown option with 1.
\<close>

fun phys2virt_options :: "char list \<Rightarrow> bool \<Rightarrow> int + bool" where
  "phys2virt_options [] zero = Inr zero"
| "phys2virt_options (c # rest) zero =
    (if c = CHR ''h'' then Inl 0
     else if c = CHR ''z'' then phys2virt_options rest True
     else Inl 1)"

definition phys2virt_main :: "int \<Rightarrow> char list \<Rightarrow> nat \<Rightarrow> ofile option \<Rightarrow> int \<times> ofile option" where
  "phys2virt_main pe opts nargs file1 =
    (case phys2virt_options opts False of
       Inl rv \<Rightarrow> (rv, file1)
     | Inr zero \<Rightarrow> if nargs \<noteq> 1 then (0, file1) else phys2virt pe file1 zero)"

section \<open>The loop\<close>

lemma length_set_vaddr:
  "i < n \<Longrightarrow> length phdrs = 56 * n \<Longrightarrow> length (set_vaddr zero i phdrs) = 56 * n"
  unfolding set_vaddr_def by (subst length_patch) (auto simp: length_window)

lemma window_set_vaddr:
  assumes "i < n" and "length phdrs = 56 * n"
  shows "window (set_vaddr zero i phdrs) (i * 56 + 16) 8 =
      (if zero then replicate 8 0 else window phdrs (i * 56 + 24) 8)"
    and "q + k \<le> i * 56 + 16 \<or> i * 56 + 24 \<le> q \<Longrightarrow> window (set_vaddr zero i phdrs) q k = window phdrs q k"
proof -
  let ?x = "if zero then replicate 8 0 else window phdrs (i * 56 + 24) 8"
  have l: "length ?x = 8" using assms by (auto simp: length_window)
  then have fit: "i * 56 + 16 + length ?x \<le> length phdrs" using assms by simp
  show "window (set_vaddr zero i phdrs) (i * 56 + 16) 8 = ?x"
    using window_patch_same [OF fit] l by (simp add: set_vaddr_def)
  show "window (set_vaddr zero i phdrs) q k = window phdrs q k" if "q + k \<le> i * 56 + 16 \<or> i * 56 + 24 \<le> q"
    unfolding set_vaddr_def by (rule window_patch_other [OF fit]) (use that l in \<open>simp add: add.commute\<close>)
qed

text \<open>The state of the buffer \<open>b\<close> after \<open>m\<close> turns: which windows it shares with the old one.\<close>

definition vaddrs_set :: "bool \<Rightarrow> nat \<Rightarrow> nat \<Rightarrow> u8 list \<Rightarrow> u8 list \<Rightarrow> bool" where
  "vaddrs_set zero m n phdrs b \<longleftrightarrow> length b = 56 * n \<and>
    (\<forall>i<n. window b (i * 56 + 16) 8 =
      (if i < m then if zero then replicate 8 0 else window phdrs (i * 56 + 24) 8
       else window phdrs (i * 56 + 16) 8)) \<and>
    (\<forall>q k. (\<forall>i<n. q + k \<le> i * 56 + 16 \<or> i * 56 + 24 \<le> q) \<longrightarrow> window b q k = window phdrs q k)"

lemma paddr_apart: "m * 56 + 24 + 8 \<le> i * 56 + 16 \<or> i * 56 + 24 \<le> m * 56 + (24 :: nat)"
  by (cases "i \<le> m") auto

lemma set_vaddrs_facts:
  assumes "m \<le> n" and "length phdrs = 56 * n"
  shows "vaddrs_set zero m n phdrs (set_vaddrs zero m phdrs)"
  using assms(1)
proof (induction m)
  case 0
  then show ?case using assms(2) by (simp add: set_vaddrs_def vaddrs_set_def)
next
  case (Suc m)
  let ?b = "set_vaddrs zero m phdrs"
  from Suc have "vaddrs_set zero m n phdrs ?b" and m: "m < n" by simp_all
  then have l: "length ?b = 56 * n"
    and v: "\<forall>i<n. window ?b (i * 56 + 16) 8 =
      (if i < m then if zero then replicate 8 0 else window phdrs (i * 56 + 24) 8 else window phdrs (i * 56 + 16) 8)"
    and o: "\<forall>q k. (\<forall>i<n. q + k \<le> i * 56 + 16 \<or> i * 56 + 24 \<le> q) \<longrightarrow> window ?b q k = window phdrs q k"
    unfolding vaddrs_set_def by blast+
  have s: "set_vaddrs zero (Suc m) phdrs = set_vaddr zero m ?b" by (simp add: set_vaddrs_def)
  note w = window_set_vaddr [OF m l]
  have p: "window ?b (m * 56 + 24) 8 = window phdrs (m * 56 + 24) 8"
    by (rule o [rule_format]) (rule paddr_apart)
  show ?case unfolding s vaddrs_set_def
  proof (intro conjI allI impI)
    show "length (set_vaddr zero m ?b) = 56 * n" by (rule length_set_vaddr [OF m l])
    fix i assume i: "i < n"
    show "window (set_vaddr zero m ?b) (i * 56 + 16) 8 =
      (if i < Suc m then if zero then replicate 8 0 else window phdrs (i * 56 + 24) 8 else window phdrs (i * 56 + 16) 8)"
    proof (cases "i = m")
      case True
      then show ?thesis unfolding True w(1) p by simp
    next
      case False
      then have "i * 56 + 16 + 8 \<le> m * 56 + 16 \<or> m * 56 + 24 \<le> i * 56 + 16" by (cases "i < m") auto
      then have "window (set_vaddr zero m ?b) (i * 56 + 16) 8 = window ?b (i * 56 + 16) 8" by (rule w(2))
      then show ?thesis using v [rule_format, OF i] False by simp
    qed
  next
    fix q k assume q: "\<forall>i<n. q + k \<le> i * 56 + 16 \<or> i * 56 + 24 \<le> q"
    have "window (set_vaddr zero m ?b) q k = window ?b q k" by (rule w(2)) (use q m in simp)
    also have "\<dots> = window phdrs q k" by (rule o [rule_format]) (use q in simp)
    finally show "window (set_vaddr zero m ?b) q k = window phdrs q k" .
  qed
qed

section \<open>The program on a core dump\<close>

text \<open>
  A 64-bit ELF file of byte order \<open>d\<close> with \<open>n\<close> program headers of the expected size at
  \<open>off\<close>, behind the ELF header.
\<close>

definition phdr_file :: "u8 list \<Rightarrow> int \<Rightarrow> nat \<Rightarrow> nat \<Rightarrow> bool" where
  "phdr_file bs d off n \<longleftrightarrow>
    64 \<le> length bs \<and> length bs < 2 ^ 63 \<and> window bs 0 4 = [0x7f, 0x45, 0x4c, 0x46] \<and>
    uint (bs ! 4) = ELFCLASS64 \<and> uint (bs ! 5) = d \<and> (d = ELFDATA2LSB \<or> d = ELFDATA2MSB) \<and>
    mem_nat d (window bs 54 2) = 56 \<and> mem_nat d (window bs 56 2) = n \<and> mem_nat d (window bs 32 8) = off \<and>
    64 \<le> off \<and> off + 56 * n \<le> length bs"

lemma endian_of_machine_eq: "pe = ELFDATA2LSB \<or> pe = ELFDATA2MSB \<Longrightarrow> endian_of_machine pe = pe"
proof -
  have "le_bytes 4 1 = [1, 0, 0, 0]" by code_simp
  then show "pe = ELFDATA2LSB \<or> pe = ELFDATA2MSB \<Longrightarrow> endian_of_machine pe = pe"
    by (auto simp: endian_of_machine_def mem_bytes_def)
qed

lemma window_window: "q + k \<le> n \<Longrightarrow> window (window bs p n) q k = window bs (p + q) k"
  by (simp add: window_def drop_take min_def add.commute)

lemma phys2virt_image:
  assumes b: "phdr_file (file_bytes f) d off n" and r: "reliable f" "file_pos f = 0"
    and pe: "pe = ELFDATA2LSB \<or> pe = ELFDATA2MSB"
  shows "\<exists>f'. phys2virt pe (Some f) zero = (0, Some f') \<and> reliable f' \<and>
    file_bytes f' = patch (file_bytes f) off (set_vaddrs zero n (window (file_bytes f) off (56 * n)))"
proof -
  let ?bs = "file_bytes f" and ?h = "window (file_bytes f) 0 64"
  from b have d: "d = ELFDATA2LSB \<or> d = ELFDATA2MSB" and l: "64 \<le> length ?bs" "length ?bs < 2 ^ 63" "off + 56 * n \<le> length ?bs"
    and m: "window ?bs 0 4 = [0x7f, 0x45, 0x4c, 0x46]" "uint (?bs ! 4) = ELFCLASS64" "uint (?bs ! 5) = d"
    and v: "mem_nat d (window ?bs 54 2) = 56" "mem_nat d (window ?bs 56 2) = n" "mem_nat d (window ?bs 32 8) = off"
    unfolding phdr_file_def by blast+
  obtain f1 where f1: "file_fread f 64 = (f1, 64, ?h)" "file_bytes f1 = ?bs" "reliable f1"
    using reliable_fread [OF r(1), of 64] r(2) l(1) by (auto simp: length_window)
  have h: "?h ! 4 = ?bs ! 4" "?h ! 5 = ?bs ! 5" "window ?h 0 4 = window ?bs 0 4"
    using l(1) by (simp_all add: window_def)
  have num: "hdr_num pe ?h p k = mem_nat d (window ?bs p k)" if "p + k \<le> 64" for p k
    using bswap_mem [of "window ?bs p k" k d pe] that l(1) d pe h(2) m(3)
    by (auto simp: hdr_num_def window_window endian_of_machine_eq Let_def)
  have n16: "n < 2 ^ 16" using mem_nat_less [of d "window ?bs 56 2"] v(2) l(1) by simp
  have off: "off < 2 ^ 63" using l by linarith
  then have uo: "unat (of_nat off :: u64) = off" by (simp add: unsigned_of_nat take_bit_nat_eq_self)
  obtain f2 where f2: "lseek_set f1 (of_nat off) = (f2, int off)" "file_bytes f2 = ?bs" "reliable f2" "file_pos f2 = off"
    using reliable_lseek [OF f1(3), of "of_nat off"] uo off f1(2) by auto
  obtain f3 where f3: "file_fread f2 (56 * n) = (f3, 56 * n, window ?bs off (56 * n))" "file_bytes f3 = ?bs" "reliable f3"
    using reliable_fread [OF f2(3), of "56 * n"] f2 l(3) by (auto simp: length_window)
  obtain f4 where f4: "lseek_set f3 (of_nat off) = (f4, int off)" "file_bytes f4 = ?bs" "reliable f4" "file_pos f4 = off"
    using reliable_lseek [OF f3(3), of "of_nat off"] uo off f3(2) by auto
  let ?t = "set_vaddrs zero n (window ?bs off (56 * n))"
  have "length (window ?bs off (56 * n)) = 56 * n" using l(3) by simp
  from set_vaddrs_facts [OF order_refl this, of zero] have lt: "length ?t = 56 * n"
    unfolding vaddrs_set_def by blast
  obtain f5 where f5: "file_write f4 ?t = (f5, int (56 * n))" "file_bytes f5 = patch ?bs off ?t" "reliable f5"
    using reliable_write [OF f4(3), of ?t] f4 lt n16 by (auto simp: MAX_RW_COUNT_def)
  have nums: "hdr_num pe ?h 54 2 = 56" "hdr_num pe ?h 56 2 = n" "hdr_num pe ?h 32 8 = off"
    using num [of 54 2] num [of 56 2] num [of 32 8] v by simp_all
  have "phys2virt pe (Some f) zero = (0, Some f5)"
    unfolding phys2virt_def option.case f1(1) prod.case Let_def nums f2(1) f3(1) f4(1) f5(1)
    using h m by simp
  then show ?thesis using f5 by blast
qed

text \<open>The bytes of the virtual addresses, and the image in their terms.\<close>

definition in_vaddr :: "nat \<Rightarrow> nat \<Rightarrow> nat \<Rightarrow> bool" where
  "in_vaddr off n q \<longleftrightarrow> (\<exists>i<n. off + i * 56 + 16 \<le> q \<and> q < off + i * 56 + 24)"

definition vaddrs_replaced :: "bool \<Rightarrow> nat \<Rightarrow> nat \<Rightarrow> u8 list \<Rightarrow> u8 list \<Rightarrow> bool" where
  "vaddrs_replaced zero off n bs bs' \<longleftrightarrow> length bs' = length bs \<and>
    (\<forall>i<n. window bs' (off + i * 56 + 16) 8 = (if zero then replicate 8 0 else window bs (off + i * 56 + 24) 8)) \<and>
    (\<forall>q<length bs. in_vaddr off n q \<or> bs' ! q = bs ! q)"

lemma image_vaddrs:
  assumes l: "off + 56 * n \<le> length bs"
  shows "vaddrs_replaced zero off n bs (patch bs off (set_vaddrs zero n (window bs off (56 * n))))"
proof -
  let ?w = "window bs off (56 * n)"
  let ?t = "set_vaddrs zero n ?w"
  let ?bs = "patch bs off ?t"
  have "length ?w = 56 * n" using l by simp
  from set_vaddrs_facts [OF order_refl this, of zero]
  have lt: "length ?t = 56 * n"
    and v: "\<forall>i<n. window ?t (i * 56 + 16) 8 =
      (if i < n then if zero then replicate 8 0 else window ?w (i * 56 + 24) 8 else window ?w (i * 56 + 16) 8)"
    and o: "\<forall>q k. (\<forall>i<n. q + k \<le> i * 56 + 16 \<or> i * 56 + 24 \<le> q) \<longrightarrow> window ?t q k = window ?w q k"
    unfolding vaddrs_set_def by blast+
  have fit: "off + length ?t \<le> length bs" using l lt by simp
  have tab: "window ?bs off (56 * n) = ?t" using window_patch_same [OF fit] lt by simp
  have vaddr: "window ?bs (off + i * 56 + 16) 8 = (if zero then replicate 8 0 else window bs (off + i * 56 + 24) 8)"
    if i: "i < n" for i
  proof -
    have "window ?bs (off + i * 56 + 16) 8 = window ?t (i * 56 + 16) 8"
      using window_window [of "i * 56 + 16" 8 "56 * n" ?bs off] i tab by (simp add: add.assoc)
    also have "\<dots> = (if zero then replicate 8 0 else window ?w (i * 56 + 24) 8)" using v i by simp
    also have "window ?w (i * 56 + 24) 8 = window bs (off + i * 56 + 24) 8"
      using window_window [of "i * 56 + 24" 8 "56 * n" bs off] i by (simp add: add.assoc)
    finally show ?thesis .
  qed
  have same: "?bs ! q = bs ! q" if q: "q < length bs" "\<not> in_vaddr off n q" for q
  proof -
    have "window ?bs q 1 = window bs q 1"
    proof (cases "off \<le> q \<and> q < off + 56 * n")
      case True
      then have s: "(q - off) + 1 \<le> 56 * n" "off + (q - off) = q" by auto
      have "q - off + 1 \<le> i * 56 + 16 \<or> i * 56 + 24 \<le> q - off" if "i < n" for i
      proof -
        from q(2) that have "\<not> (off + i * 56 + 16 \<le> q \<and> q < off + i * 56 + 24)" unfolding in_vaddr_def by blast
        then show ?thesis using True by auto
      qed
      then have "window ?t (q - off) 1 = window ?w (q - off) 1" using o by blast
      then show ?thesis
        using window_window [OF s(1), of ?bs off] window_window [OF s(1), of bs off] tab s(2) by simp
    next
      case False
      then show ?thesis by (intro window_patch_other [OF fit]) (use lt in auto)
    qed
    then show ?thesis using q(1) fit by (simp add: window_1)
  qed
  show ?thesis unfolding vaddrs_replaced_def
  proof (intro conjI allI impI)
    show "length ?bs = length bs" using fit by simp
    show "window ?bs (off + i * 56 + 16) 8 = (if zero then replicate 8 0 else window bs (off + i * 56 + 24) 8)" if "i < n" for i
      using vaddr that .
    show "in_vaddr off n q \<or> ?bs ! q = bs ! q" if "q < length bs" for q
      using same that by blast
  qed
qed

text \<open>
  C31: on a 64-bit file of either byte order, and a machine of either byte order, every
  program header gets its physical address (or zero) as virtual address, and no
  other byte of the file changes.
\<close>

theorem phys2virt_correct:
  assumes "phdr_file (file_bytes f) d off n" and "reliable f" and "file_pos f = 0"
    and "pe = ELFDATA2LSB \<or> pe = ELFDATA2MSB"
  shows "\<exists>f'. phys2virt pe (Some f) zero = (0, Some f') \<and>
    vaddrs_replaced zero off n (file_bytes f) (file_bytes f')"
proof -
  obtain f' where "phys2virt pe (Some f) zero = (0, Some f')"
    "file_bytes f' = patch (file_bytes f) off (set_vaddrs zero n (window (file_bytes f) off (56 * n)))"
    using phys2virt_image [OF assms] by blast
  then show ?thesis using image_vaddrs [of off n "file_bytes f" zero] assms(1) by (auto simp: phdr_file_def)
qed

lemma window_eqI:
  assumes "length xs = length ys" and "\<And>q. p \<le> q \<Longrightarrow> q < p + n \<Longrightarrow> q < length xs \<Longrightarrow> xs ! q = ys ! q"
  shows "window xs p n = window ys p n"
proof (rule nth_equalityI)
  show "length (window xs p n) = length (window ys p n)" using assms(1) by (simp add: length_window)
  fix i assume "i < length (window xs p n)"
  then have "i < n" "p + i < length xs" by (auto simp: length_window)
  then show "window xs p n ! i = window ys p n ! i" using assms by (simp add: window_def)
qed

lemma window_nth: "p \<le> q \<Longrightarrow> q < p + n \<Longrightarrow> p + n \<le> length xs \<Longrightarrow> xs ! q = window xs p n ! (q - p)"
  by (simp add: window_def)

lemma phdr_file_kept:
  assumes b: "phdr_file bs d off n" and v: "vaddrs_replaced zero off n bs bs'"
  shows "phdr_file bs' d off n"
proof -
  from v have l: "length bs' = length bs" by (simp add: vaddrs_replaced_def)
  have low: "bs' ! q = bs ! q" if "q < 64" for q
  proof -
    have "\<not> in_vaddr off n q" using that b by (auto simp: in_vaddr_def phdr_file_def)
    moreover have "q < length bs" using that b by (simp add: phdr_file_def)
    ultimately show ?thesis using v unfolding vaddrs_replaced_def by blast
  qed
  have "window bs' p k = window bs p k" if "p + k \<le> 64" for p k
    by (rule window_eqI) (use l low that in auto)
  then have "window bs' 0 4 = window bs 0 4" "window bs' 54 2 = window bs 54 2" "window bs' 56 2 = window bs 56 2"
    "window bs' 32 8 = window bs 32 8" by simp_all
  then show ?thesis using b l low [of 4] low [of 5] by (simp add: phdr_file_def)
qed

lemma vaddrs_replaced_twice:
  assumes b: "phdr_file bs d off n" and v1: "vaddrs_replaced zero off n bs bs1" and v2: "vaddrs_replaced zero off n bs1 bs2"
  shows "bs2 = bs1"
proof (rule nth_equalityI)
  from v1 v2 have l: "length bs1 = length bs" "length bs2 = length bs1" by (simp_all add: vaddrs_replaced_def)
  show "length bs2 = length bs1" by (rule l)
  fix q assume q: "q < length bs2"
  show "bs2 ! q = bs1 ! q"
  proof (cases "in_vaddr off n q")
    case False
    then show ?thesis using v2 q l unfolding vaddrs_replaced_def by auto
  next
    case True
    then obtain i where i: "i < n" "off + i * 56 + 16 \<le> q" "q < off + i * 56 + 16 + 8" by (auto simp: in_vaddr_def)
    have fit: "off + i * 56 + 32 \<le> length bs" using i(1) b by (auto simp: phdr_file_def)
    have "window bs1 (off + i * 56 + 24) 8 = window bs (off + i * 56 + 24) 8"
    proof (rule window_eqI [OF l(1)])
      fix k assume k: "off + i * 56 + 24 \<le> k" "k < off + i * 56 + 24 + 8" "k < length bs1"
      have "\<not> in_vaddr off n k"
      proof
        assume "in_vaddr off n k"
        then obtain m where "m < n" "off + m * 56 + 16 \<le> k" "k < off + m * 56 + 24" by (auto simp: in_vaddr_def)
        with k paddr_apart [of i m] show False by linarith
      qed
      then show "bs1 ! k = bs ! k" using v1 k(3) l unfolding vaddrs_replaced_def by auto
    qed
    then have "window bs2 (off + i * 56 + 16) 8 = window bs1 (off + i * 56 + 16) 8"
      using v1 v2 i(1) unfolding vaddrs_replaced_def by auto
    then show ?thesis
      using window_nth [OF i(2,3), of bs2] window_nth [OF i(2,3), of bs1] fit l by simp
  qed
qed

text \<open>
  Running the program once more, on a machine of either byte order, changes nothing.
\<close>

theorem phys2virt_idempotent:
  assumes b: "phdr_file (file_bytes f) d off n" and r: "reliable f" "file_pos f = 0"
    and pe: "pe = ELFDATA2LSB \<or> pe = ELFDATA2MSB" "pe' = ELFDATA2LSB \<or> pe' = ELFDATA2MSB"
  shows "\<exists>f1 f2. phys2virt pe (Some f) zero = (0, Some f1) \<and>
    phys2virt pe' (Some (f1\<lparr>file_pos := 0\<rparr>)) zero = (0, Some f2) \<and> file_bytes f2 = file_bytes f1"
proof -
  obtain f1 where f1: "phys2virt pe (Some f) zero = (0, Some f1)" "reliable f1"
    "file_bytes f1 = patch (file_bytes f) off (set_vaddrs zero n (window (file_bytes f) off (56 * n)))"
    using phys2virt_image [OF b r pe(1)] by blast
  have v1: "vaddrs_replaced zero off n (file_bytes f) (file_bytes f1)"
    unfolding f1(3) by (rule image_vaddrs) (use b in \<open>simp add: phdr_file_def\<close>)
  let ?f1 = "f1\<lparr>file_pos := 0\<rparr>"
  have b1: "phdr_file (file_bytes ?f1) d off n" using phdr_file_kept [OF b v1] by simp
  have "reliable ?f1" "file_pos ?f1 = 0" using f1(2) by (simp_all add: reliable_def)
  then obtain f2 where f2: "phys2virt pe' (Some ?f1) zero = (0, Some f2)"
    "file_bytes f2 = patch (file_bytes ?f1) off (set_vaddrs zero n (window (file_bytes ?f1) off (56 * n)))"
    using phys2virt_image [OF b1 _ _ pe(2)] by blast
  have "vaddrs_replaced zero off n (file_bytes f1) (file_bytes f2)"
    using image_vaddrs [of off n "file_bytes ?f1" zero] b1 f2(2) by (simp add: phdr_file_def)
  then have "file_bytes f2 = file_bytes f1" by (rule vaddrs_replaced_twice [OF b v1])
  then show ?thesis using f1(1) f2(1) by blast
qed

section \<open>Example\<close>

text \<open>A big-endian file with one program header, virtual address 1 and physical address 258.\<close>

definition p2v_image :: "u8 list" where
  "p2v_image = [0x7f, 0x45, 0x4c, 0x46, 2, 2, 1, 0] @ replicate 24 0 @ [0, 0, 0, 0, 0, 0, 0, 64] @ replicate 14 0 @
    [0, 56, 0, 1, 0, 0, 0, 0, 0, 0] @ replicate 16 0 @ [0, 0, 0, 0, 0, 0, 0, 1] @ [0, 0, 0, 0, 0, 0, 1, 2] @ replicate 24 0"

definition p2v_file :: ofile where
  "p2v_file = \<lparr>file_bytes = p2v_image, file_pos = 0, file_calls = 0, file_env = (\<lambda>_. Full)\<rparr>"

lemma p2v_phdr_file: "phdr_file (file_bytes p2v_file) 2 64 1"
proof -
  have "length p2v_image = 120" "window p2v_image 0 4 = [0x7f, 0x45, 0x4c, 0x46]" "uint (p2v_image ! 4) = 2"
    "uint (p2v_image ! 5) = 2" "mem_nat 2 (window p2v_image 54 2) = 56" "mem_nat 2 (window p2v_image 56 2) = 1"
    "mem_nat 2 (window p2v_image 32 8) = 64" by code_simp+
  then show ?thesis by (simp add: phdr_file_def p2v_file_def)
qed

lemma p2v_reliable: "reliable p2v_file" "file_pos p2v_file = 0"
  by (simp_all add: p2v_file_def reliable_def)

theorem phys2virt_correct_witness:
  "\<exists>f'. phys2virt 1 (Some p2v_file) False = (0, Some f') \<and> window (file_bytes f') 80 8 = [0, 0, 0, 0, 0, 0, 1, 2]"
proof -
  have "window p2v_image 88 8 = [0, 0, 0, 0, 0, 0, 1, 2]" by code_simp
  then show ?thesis
    using phys2virt_correct [OF p2v_phdr_file p2v_reliable, of 1 False]
    by (auto simp: vaddrs_replaced_def p2v_file_def)
qed

theorem phys2virt_idempotent_witness:
  "\<exists>f1 f2. phys2virt 1 (Some p2v_file) True = (0, Some f1) \<and>
    phys2virt 2 (Some (f1\<lparr>file_pos := 0\<rparr>)) True = (0, Some f2) \<and> file_bytes f2 = file_bytes f1"
  by (rule phys2virt_idempotent [OF p2v_phdr_file p2v_reliable]) simp_all

end
