(* ===== verification/Negdent.thy ===== *)
theory Negdent
  imports Bytes
begin

text \<open>
  \<open>negdentcreate\<close> (\<open>src/negdentcreate/negdentcreate.c\<close>): threads that run an operation
  on numbered file names, and a main thread that adds up their progress. The directory
  is a set of names, on which each system call may fail as its environment decides; the
  threads, the signal and the main thread interleave: a step is one operation on one
  name, one test of a loop, or one read of a thread's counter by the main thread.
  Not modelled: a \<open>pthread_create\<close> that fails (its result is not looked at), the sleep
  between two sums, the messages, and an allocation that fails.
\<close>

section \<open>Operations\<close>

text \<open>
  \<open>dir_fault\<close>: whether the \<open>k\<close>th call fails for a reason of its own, other than that
  a name is missing.
\<close>

record dir =
  names :: "u8 list set"
  dir_calls :: nat
  dir_fault :: "nat \<Rightarrow> bool"

definition dir_tick :: "dir \<Rightarrow> dir" where
  "dir_tick d = d\<lparr>dir_calls := dir_calls d + 1\<rparr>"

definition fault :: "dir \<Rightarrow> bool" where
  "fault d = dir_fault d (dir_calls d)"

text \<open>The system calls; \<open>fstatat\<close> returns whether it failed with an error other than \<open>ENOENT\<close>.\<close>

definition sys_fstatat :: "dir \<Rightarrow> u8 list \<Rightarrow> dir \<times> bool" where
  "sys_fstatat d name = (dir_tick d, fault d)"

definition sys_open :: "dir \<Rightarrow> u8 list \<Rightarrow> dir \<times> int" where
  "sys_open d name = (dir_tick d, if fault d \<or> name \<notin> names d then -1 else 3)"

definition sys_creat :: "dir \<Rightarrow> u8 list \<Rightarrow> dir \<times> int" where
  "sys_creat d name = (if fault d then (dir_tick d, -1) else ((dir_tick d)\<lparr>names := insert name (names d)\<rparr>, 3))"

definition sys_close :: "dir \<Rightarrow> dir \<times> int" where
  "sys_close d = (dir_tick d, if fault d then -1 else 0)"

definition sys_unlink :: "dir \<Rightarrow> u8 list \<Rightarrow> dir \<times> int" where
  "sys_unlink d name = (if fault d \<or> name \<notin> names d then (dir_tick d, -1)
    else ((dir_tick d)\<lparr>names := names d - {name}\<rparr>, 0))"

type_synonym work_op = "dir \<Rightarrow> u8 list \<Rightarrow> dir \<times> int"

definition do_stat :: work_op where
  "do_stat d name = (case sys_fstatat d name of (d, err) \<Rightarrow> if err then (d, -1) else (d, 0))"

definition do_open :: work_op where
  "do_open d name = (case sys_open d name of (d, fd) \<Rightarrow>
    if fd < 0 then (d, -1)
    else case sys_close d of (d, r) \<Rightarrow> if r \<noteq> 0 then (d, -1) else (d, 0))"

definition do_create :: work_op where
  "do_create d name = (case sys_creat d name of (d, fd) \<Rightarrow>
    if fd < 0 then (d, -1)
    else case sys_close d of (d, r) \<Rightarrow> if r \<noteq> 0 then (d, -1) else (d, 0))"

definition do_unlink :: work_op where
  "do_unlink d name = (case sys_unlink d name of (d, rv) \<Rightarrow> if rv < 0 then (d, -1) else (d, 0))"

definition do_create_close_unlink :: work_op where
  "do_create_close_unlink d name = (case sys_creat d name of (d, fd) \<Rightarrow>
    if fd < 0 then (d, -1)
    else case sys_close d of (d, r) \<Rightarrow>
    if r \<noteq> 0 then (d, -1)
    else case sys_unlink d name of (d, rv) \<Rightarrow> if rv < 0 then (d, -1) else (d, 0))"

definition do_create_unlink_close :: work_op where
  "do_create_unlink_close d name = (case sys_creat d name of (d, fd) \<Rightarrow>
    if fd < 0 then (d, -1)
    else case sys_unlink d name of (d, rv) \<Rightarrow>
    if rv < 0 then (d, -1)
    else case sys_close d of (d, r) \<Rightarrow> if r \<noteq> 0 then (d, -1) else (d, 0))"

definition OPERATIONS :: "(string \<times> work_op) list" where
  "OPERATIONS = [(''stat'', do_stat), (''open'', do_open), (''create'', do_create), (''unlink'', do_unlink),
    (''create_close_unlink'', do_create_close_unlink), (''create_unlink_close'', do_create_unlink_close)]"

section \<open>File names\<close>

text \<open>\<open>snprintf (filename, 64, "%s%010lu", pfx, n)\<close>: at most 63 bytes of it.\<close>

fun decimal :: "nat \<Rightarrow> u8 list" where
  "decimal n = (if n < 10 then [0x30 + of_nat n] else decimal (n div 10) @ [0x30 + of_nat (n mod 10)])"

declare decimal.simps [simp del]

definition pad10 :: "u8 list \<Rightarrow> u8 list" where
  "pad10 ds = replicate (10 - length ds) 0x30 @ ds"

definition filename :: "u8 list \<Rightarrow> u64 \<Rightarrow> u8 list" where
  "filename pfx n = take 63 (pfx @ pad10 (decimal (unat n)))"

section \<open>Threads\<close>

text \<open>Where a thread is in \<open>stat_worker\<close>.\<close>

datatype worker_pc = W_open | W_test | W_op | W_tail | W_again | W_done

record work =
  w_start :: u64
  w_stop :: u64
  w_cur :: u64
  w_cnt :: u64
  w_error :: bool
  w_cancel :: bool
  w_pc :: worker_pc

text \<open>
  Where the main thread is: at thread \<open>i\<close> of its list, about to read \<open>cur\<close>, \<open>cnt\<close> or
  \<open>error\<close>, with \<open>progress\<close> and \<open>err\<close> so far; at the end of the loop; joining; done.
\<close>

datatype main_pc = M_cur nat u64 nat | M_cnt nat u64 nat | M_err nat u64 nat
  | M_check u64 nat | M_join int | M_done int

record sys =
  threads :: "work list"
  exiting :: bool
  directory :: dir
  dir_opens :: "nat \<Rightarrow> bool"
  log :: "u8 list list"
  main_at :: main_pc

text \<open>The parameters of a run: \<open>loop\<close>, the operation, the prefix, and \<open>count\<close> (rounded).\<close>

record config =
  c_loop :: bool
  c_op :: work_op
  c_pfx :: "u8 list"
  c_count :: u64

text \<open>
  One step of thread \<open>t\<close>: the thread, the directory, and the name that was operated on.
  \<open>opens\<close> tells whether its \<open>open\<close> of the directory succeeds.
\<close>

definition worker_step :: "config \<Rightarrow> bool \<Rightarrow> bool \<Rightarrow> work \<Rightarrow> dir \<Rightarrow> work \<times> dir \<times> u8 list list" where
  "worker_step c opens ex t d =
    (case w_pc t of
       W_open \<Rightarrow> if \<not> opens then (t\<lparr>w_error := True, w_pc := W_done\<rparr>, d, [])
                 else (t\<lparr>w_cur := w_start t, w_pc := W_test\<rparr>, d, [])
     | W_test \<Rightarrow> if w_cur t < w_stop t \<and> \<not> ex then (t\<lparr>w_pc := W_op\<rparr>, d, []) else (t\<lparr>w_pc := W_tail\<rparr>, d, [])
     | W_op \<Rightarrow>
         let name = filename (c_pfx c) (w_cur t) in
         (case c_op c d name of (d, r) \<Rightarrow>
          if r = -1 then (t\<lparr>w_error := True, w_pc := W_done\<rparr>, d, [])
          else (t\<lparr>w_cur := w_cur t + 1, w_pc := W_test\<rparr>, d, [name]))
     | W_tail \<Rightarrow> ((if c_loop c then t\<lparr>w_cnt := w_cnt t + 1, w_pc := W_again\<rparr> else t\<lparr>w_pc := W_again\<rparr>), d, [])
     | W_again \<Rightarrow> if c_loop c \<and> \<not> ex then (t\<lparr>w_cur := w_start t, w_pc := W_test\<rparr>, d, []) else (t\<lparr>w_pc := W_done\<rparr>, d, [])
     | W_done \<Rightarrow> (t, d, []))"

text \<open>
  \<open>pthread_cancel\<close> of the threads without an error: a request, on which the thread ends
  at one of its next cancellation points, if it has any.
\<close>

definition cancel :: "work \<Rightarrow> work" where
  "cancel t = (if w_error t then t else t\<lparr>w_cancel := True\<rparr>)"

definition main_step :: "config \<Rightarrow> sys \<Rightarrow> sys" where
  "main_step c s =
    (case main_at s of
       M_cur i progress err \<Rightarrow>
         if i < length (threads s) then
           let t = threads s ! i in s\<lparr>main_at := M_cnt i (progress + (w_cur t - w_start t)) err\<rparr>
         else s\<lparr>main_at := M_check progress err\<rparr>
     | M_cnt i progress err \<Rightarrow>
         let t = threads s ! i in s\<lparr>main_at := M_err i (progress + w_cnt t * (w_stop t - w_start t)) err\<rparr>
     | M_err i progress err \<Rightarrow>
         s\<lparr>main_at := M_cur (i + 1) progress (err + (if w_error (threads s ! i) then 1 else 0))\<rparr>
     | M_check progress err \<Rightarrow>
         if (progress < c_count c \<or> c_loop c) \<and> err = 0 \<and> \<not> exiting s then s\<lparr>main_at := M_cur 0 0 0\<rparr>
         else if err \<noteq> 0 then s\<lparr>threads := map cancel (threads s), main_at := M_join 1\<rparr>
         else if exiting s then s\<lparr>main_at := M_join 1\<rparr>
         else s\<lparr>main_at := M_join 0\<rparr>
     | M_join rv \<Rightarrow> if list_all (\<lambda>t. w_pc t = W_done) (threads s) then s\<lparr>main_at := M_done rv\<rparr> else s
     | M_done rv \<Rightarrow> s)"

definition thread_step :: "config \<Rightarrow> nat \<Rightarrow> sys \<Rightarrow> sys" where
  "thread_step c i s =
    (case worker_step c (dir_opens s i) (exiting s) (threads s ! i) (directory s) of (t, d, l) \<Rightarrow>
     s\<lparr>threads := (threads s)[i := t], directory := d, log := log s @ l\<rparr>)"

definition thread_ends :: "nat \<Rightarrow> sys \<Rightarrow> sys" where
  "thread_ends i s = s\<lparr>threads := (threads s)[i := (threads s ! i)\<lparr>w_pc := W_done\<rparr>]\<rparr>"

definition interrupt :: "sys \<Rightarrow> sys" where
  "interrupt s = s\<lparr>exiting := True\<rparr>"

inductive neg_step :: "config \<Rightarrow> sys \<Rightarrow> sys \<Rightarrow> bool" for c where
  thread: "i < length (threads s) \<Longrightarrow> neg_step c s (thread_step c i s)"
| cancelled: "i < length (threads s) \<Longrightarrow> w_cancel (threads s ! i) \<Longrightarrow> neg_step c s (thread_ends i s)"
| main: "neg_step c s (main_step c s)"
| signal: "neg_step c s (interrupt s)"

inductive_cases neg_stepE: "neg_step c s s'"

section \<open>Starting the threads\<close>

text \<open>
  \<open>nthread\<close> is an \<open>int\<close>: in the arithmetic with \<open>unsigned long\<close> it is converted, and a
  division by zero is a crash (\<open>None\<close>).
\<close>

definition increment :: "int \<Rightarrow> u64 \<Rightarrow> u64 option" where
  "increment nthread cnt = (if (word_of_int nthread :: u64) = 0 then None else Some (cnt div word_of_int nthread))"

definition new_work :: "u64 \<Rightarrow> nat \<Rightarrow> work" where
  "new_work inc i = \<lparr>w_start = of_nat i * inc, w_stop = of_nat i * inc + inc, w_cur = of_nat i * inc, w_cnt = 0,
    w_error = False, w_cancel = False, w_pc = W_open\<rparr>"

definition start :: "int \<Rightarrow> u64 \<Rightarrow> dir \<Rightarrow> (nat \<Rightarrow> bool) \<Rightarrow> (u64 \<times> sys) option" where
  "start nthread cnt d opens =
    (case increment nthread cnt of None \<Rightarrow> None
     | Some inc \<Rightarrow> Some (inc * word_of_int nthread,
         \<lparr>threads = map (new_work inc) [0..<nat nthread], exiting = False, directory = d, dir_opens = opens,
           log = [], main_at = M_cur 0 0 0\<rparr>))"

text \<open>
  The options that \<open>getopt_long\<close> returns, the arguments of \<open>-t\<close> and \<open>-c\<close> as the numbers
  that \<open>atoi\<close> and \<open>atol\<close> read; the result is an exit value or the settings.
\<close>

datatype neg_opt = Opt_h | Opt_l | Opt_t int | Opt_c u64 | Opt_p string | Opt_o string | Opt_P "u8 list" | Opt_unknown

record settings =
  s_nthread :: int
  s_count :: u64
  s_path :: string
  s_pfx :: "u8 list"
  s_loop :: bool
  s_op :: work_op

fun neg_options :: "neg_opt list \<Rightarrow> settings \<Rightarrow> int + settings" where
  "neg_options [] s = Inr s"
| "neg_options (Opt_h # os) s = Inl 0"
| "neg_options (Opt_l # os) s = neg_options os (s\<lparr>s_loop := True\<rparr>)"
| "neg_options (Opt_t n # os) s = neg_options os (s\<lparr>s_nthread := n\<rparr>)"
| "neg_options (Opt_c n # os) s = neg_options os (s\<lparr>s_count := n\<rparr>)"
| "neg_options (Opt_p p # os) s = neg_options os (s\<lparr>s_path := p\<rparr>)"
| "neg_options (Opt_o name # os) s =
    (case map_of OPERATIONS name of None \<Rightarrow> Inl 1 | Some op \<Rightarrow> neg_options os (s\<lparr>s_op := op\<rparr>))"
| "neg_options (Opt_P p # os) s = neg_options os (s\<lparr>s_pfx := p\<rparr>)"
| "neg_options (Opt_unknown # os) s = Inl 1"

end
