(* ===== verification/NegdentProps.thy ===== *)
theory NegdentProps
  imports Negdent
begin

text \<open>
  What \<open>negdentcreate\<close> promises: the threads get the numbers \<open>0\<close> to \<open>count\<close>, rounded
  down, in disjoint ranges; each name is operated on once when the program reports
  success; and the names of different numbers differ, as long as the prefix leaves
  room for the digits.
\<close>

section \<open>The ranges of the threads\<close>

lemma word_nthread:
  assumes "- (2 ^ 31) \<le> nthread" and "nthread < 2 ^ 31"
  shows "(word_of_int nthread :: u64) = 0 \<longleftrightarrow> nthread = 0"
proof -
  have "(word_of_int nthread :: u64) = 0 \<longleftrightarrow> nthread mod 2 ^ 64 = 0"
    by (simp add: word_of_int_eq_0_iff dvd_eq_mod_eq_0)
  also have "\<dots> \<longleftrightarrow> nthread = 0"
  proof (cases "0 \<le> nthread")
    case True
    then show ?thesis using assms by simp
  next
    case False
    have "nthread mod 2 ^ 64 = (nthread + 2 ^ 64) mod 2 ^ 64" by simp
    also have "\<dots> = nthread + 2 ^ 64" using False assms by (intro mod_pos_pos_trivial) simp_all
    finally show ?thesis using False assms by simp
  qed
  finally show ?thesis .
qed

lemma unat_nthread:
  assumes "0 < nthread" and "nthread < 2 ^ 31"
  shows "unat (word_of_int nthread :: u64) = nat nthread"
proof -
  have "(word_of_int nthread :: u64) = of_nat (nat nthread)" using assms(1) by simp
  then show ?thesis using assms by (simp only: unsigned_of_nat) (simp add: take_bit_nat_eq_self nat_less_iff)
qed

text \<open>The interval of each thread, over natural numbers.\<close>

lemma new_work_range:
  assumes "i < n" and "n * unat inc < 2 ^ 64"
  shows "unat (w_start (new_work inc i)) = i * unat inc"
    and "unat (w_stop (new_work inc i)) = i * unat inc + unat inc"
proof -
  have le: "i * unat inc + unat inc \<le> n * unat inc"
    using mult_le_mono1 [of "Suc i" n "unat inc"] assms(1) by simp
  have s: "of_nat i * inc = (of_nat (i * unat inc) :: u64)" by simp
  have e: "of_nat i * inc + inc = (of_nat (i * unat inc + unat inc) :: u64)" by simp
  show "unat (w_start (new_work inc i)) = i * unat inc"
    using le assms(2) unfolding new_work_def work.simps s by (simp only: unsigned_of_nat) (simp add: take_bit_nat_eq_self)
  show "unat (w_stop (new_work inc i)) = i * unat inc + unat inc"
    using le assms(2) unfolding new_work_def work.simps e by (simp only: unsigned_of_nat) (simp add: take_bit_nat_eq_self)
qed

lemma concat_ranges: "concat (map (\<lambda>i. [i * m..<i * m + m]) [0..<n]) = [0..<n * m]"
proof (induction n)
  case (Suc n)
  have "[0..<n * m + m] = [0..<n * m] @ [n * m..<n * m + m]"
    by (rule upt_add_eq_append) simp
  with Suc show ?case by (simp add: add.commute)
qed simp

lemma start_cases:
  assumes "start nthread cnt d opens = Some (rounded, s)" and "0 < nthread" and "nthread < 2 ^ 31"
  obtains inc where "unat inc = unat cnt div nat nthread" and "rounded = inc * word_of_int nthread"
    and "unat rounded = nat nthread * unat inc" and "nat nthread * unat inc \<le> unat cnt"
    and "s = \<lparr>threads = map (new_work inc) [0..<nat nthread], exiting = False, directory = d, dir_opens = opens,
           log = [], main_at = M_cur 0 0 0\<rparr>"
proof -
  from assms(1) obtain inc where i: "increment nthread cnt = Some inc" "rounded = inc * word_of_int nthread"
    "s = \<lparr>threads = map (new_work inc) [0..<nat nthread], exiting = False, directory = d, dir_opens = opens,
           log = [], main_at = M_cur 0 0 0\<rparr>"
    by (auto simp: start_def split: option.splits)
  from i(1) have inc: "unat inc = unat cnt div nat nthread"
    using unat_nthread [OF assms(2,3)] by (auto simp: increment_def unat_div split: if_splits)
  then have le: "nat nthread * unat inc \<le> unat cnt" by simp
  have "unat inc * unat (word_of_int nthread :: u64) < 2 ^ 64"
    using le unat_u64_less [of cnt] unat_nthread [OF assms(2,3)] by (simp add: mult.commute)
  then have "unat rounded = nat nthread * unat inc"
    using unat_nthread [OF assms(2,3)] unat_mult_lem [of inc "word_of_int nthread :: u64"]
    by (simp add: i(2) mult.commute)
  from that [OF inc i(2) this le i(3)] show thesis .
qed

lemma start_ranges:
  assumes "start nthread cnt d opens = Some (rounded, s)" and "0 < nthread" and "nthread < 2 ^ 31"
  shows "concat (map (\<lambda>t. [unat (w_start t)..<unat (w_stop t)]) (threads s)) = [0..<unat rounded]"
proof -
  obtain inc where "unat inc = unat cnt div nat nthread" and tot: "unat rounded = nat nthread * unat inc"
    and s: "s = \<lparr>threads = map (new_work inc) [0..<nat nthread], exiting = False, directory = d, dir_opens = opens,
           log = [], main_at = M_cur 0 0 0\<rparr>"
    by (rule start_cases [OF assms]) blast
  have fit: "nat nthread * unat inc < 2 ^ 64" using unat_u64_less [of rounded] tot by simp
  have "map (\<lambda>t. [unat (w_start t)..<unat (w_stop t)]) (threads s)
      = map (\<lambda>i. [i * unat inc..<i * unat inc + unat inc]) [0..<nat nthread]"
    unfolding s by (auto simp: new_work_range [OF _ fit])
  then show ?thesis by (simp only: concat_ranges tot)
qed

text \<open>
  C34: The work is shared out without a gap or an overlap: with \<open>-t N\<close>, \<open>N > 0\<close>, there
  are \<open>N\<close> threads whose ranges, put one after the other, are the numbers from \<open>0\<close> to
  \<open>count\<close>, after \<open>count\<close> was rounded down by less than \<open>N\<close>; every range has the same
  length. \<open>-t 0\<close> divides by zero, and a negative \<open>N\<close> starts no thread.
\<close>
lemma negdent_partition:
  assumes "- (2 ^ 31) \<le> nthread" and "nthread < 2 ^ 31"
  shows "case start nthread cnt d opens of
      None \<Rightarrow> nthread = 0
    | Some (rounded, s) \<Rightarrow> nthread \<noteq> 0 \<and>
        (if nthread < 0 then threads s = []
         else int (length (threads s)) = nthread \<and> unat rounded \<le> unat cnt \<and> int (unat cnt - unat rounded) < nthread \<and>
           (\<forall>t \<in> set (threads s). unat (w_stop t) - unat (w_start t) = unat cnt div nat nthread) \<and>
           concat (map (\<lambda>t. [unat (w_start t)..<unat (w_stop t)]) (threads s)) = [0..<unat rounded])"
proof (cases "start nthread cnt d opens")
  case None
  then show ?thesis using word_nthread [OF assms] by (simp add: start_def increment_def split: if_splits)
next
  case (Some p)
  obtain rounded s where p: "p = (rounded, s)" by (cases p)
  note st = Some [unfolded p]
  from st have nz: "nthread \<noteq> 0" by (auto simp: start_def increment_def)
  show ?thesis
  proof (cases "nthread < 0")
    case True
    then show ?thesis using st nz by (auto simp: start_def p split: option.splits)
  next
    case False
    with nz have pos: "0 < nthread" by simp
    obtain inc where inc: "unat inc = unat cnt div nat nthread" and tot: "unat rounded = nat nthread * unat inc"
      and le: "nat nthread * unat inc \<le> unat cnt"
      and s: "s = \<lparr>threads = map (new_work inc) [0..<nat nthread], exiting = False, directory = d, dir_opens = opens,
             log = [], main_at = M_cur 0 0 0\<rparr>"
      by (rule start_cases [OF st pos assms(2)]) blast
    have fit: "nat nthread * unat inc < 2 ^ 64" using unat_u64_less [of rounded] tot by simp
    have "unat cnt - unat rounded = unat cnt mod nat nthread"
      by (simp add: tot inc minus_mult_div_eq_mod)
    moreover have "unat cnt mod nat nthread < nat nthread" using pos by simp
    ultimately have "int (unat cnt - unat rounded) < nthread" using pos by linarith
    moreover have "\<forall>t \<in> set (threads s). unat (w_stop t) - unat (w_start t) = unat cnt div nat nthread"
      unfolding s by (auto simp: new_work_range [OF _ fit] inc)
    moreover have "int (length (threads s)) = nthread" using pos by (simp add: s)
    moreover note start_ranges [OF st pos assms(2)]
    ultimately show ?thesis using st pos le tot by (simp add: Some p)
  qed
qed

definition quiet_dir :: dir where
  "quiet_dir = \<lparr>names = {}, dir_calls = 0, dir_fault = \<lambda>_. False\<rparr>"

lemma negdent_partition_witness:
  "case start 3 10 quiet_dir (\<lambda>_. True) of
      None \<Rightarrow> False
    | Some (rounded, s) \<Rightarrow> int (length (threads s)) = 3 \<and>
        concat (map (\<lambda>t. [unat (w_start t)..<unat (w_stop t)]) (threads s)) = [0..<unat rounded]"
  using negdent_partition [of 3 10 quiet_dir "\<lambda>_. True"] by (auto split: option.splits)

section \<open>The names\<close>

lemma decimal_small: "n < 10 \<Longrightarrow> decimal n = [0x30 + of_nat n]"
  by (simp add: decimal.simps [of n])

lemma decimal_large: "10 \<le> n \<Longrightarrow> decimal n = decimal (n div 10) @ [0x30 + of_nat (n mod 10)]"
  by (simp add: decimal.simps [of n])

lemma length_decimal: "n < 10 ^ Suc k \<Longrightarrow> length (decimal n) \<le> Suc k"
proof (induction k arbitrary: n)
  case 0
  then show ?case by (simp add: decimal_small)
next
  case (Suc k)
  show ?case
  proof (cases "n < 10")
    case False
    have "n div 10 < 10 ^ Suc k" using Suc.prems by (simp add: div_less_iff_less_mult)
    then show ?thesis using Suc.IH [of "n div 10"] False by (simp add: decimal_large)
  qed (simp add: decimal_small)
qed

text \<open>The number that decimal digits spell; leading zeros do not count.\<close>

definition digits_value :: "u8 list \<Rightarrow> nat" where
  "digits_value ds = foldl (\<lambda>v d. 10 * v + unat (d - 0x30)) 0 ds"

lemma digits_value_zeros: "digits_value (replicate k 0x30 @ ds) = digits_value ds"
proof -
  have "foldl (\<lambda>v d. 10 * v + unat (d - 0x30)) 0 (replicate k (0x30 :: u8)) = 0"
    by (induction k) simp_all
  then show ?thesis by (simp add: digits_value_def)
qed

lemma digit: "k < 10 \<Longrightarrow> unat ((0x30 + of_nat k :: u8) - 0x30) = k"
  by (simp add: unsigned_of_nat take_bit_nat_eq_self)

lemma digits_value_decimal: "digits_value (decimal n) = n"
proof (induction n rule: decimal.induct)
  case (1 n)
  show ?case
  proof (cases "n < 10")
    case True
    then show ?thesis using digit [of n] by (simp add: decimal_small digits_value_def)
  next
    case False
    then have "digits_value (decimal n) = 10 * digits_value (decimal (n div 10)) + n mod 10"
      using digit [of "n mod 10"] by (simp add: decimal_large digits_value_def)
    then show ?thesis using 1 [OF False] by simp
  qed
qed

lemma pad10_inj: "pad10 (decimal m) = pad10 (decimal n) \<longleftrightarrow> m = n"
  using digits_value_zeros digits_value_decimal unfolding pad10_def by metis

lemma length_pad10: "length (pad10 ds) = max 10 (length ds)"
  by (simp add: pad10_def)

lemma filename_inj:
  assumes "length pfx + max 10 (length (decimal (unat m))) \<le> 63"
    and "length pfx + max 10 (length (decimal (unat n))) \<le> 63"
    and "filename pfx m = filename pfx n"
  shows "m = n"
proof -
  have fit: "filename pfx k = pfx @ pad10 (decimal (unat k))"
    if "length pfx + max 10 (length (decimal (unat k))) \<le> 63" for k
    unfolding filename_def by (rule take_all) (use that in \<open>simp add: length_pad10\<close>)
  have "pad10 (decimal (unat m)) = pad10 (decimal (unat n))"
    using assms(3) unfolding fit [OF assms(1)] fit [OF assms(2)] by simp
  then show ?thesis by (simp add: pad10_inj word_unat_eq_iff)
qed

text \<open>
  C35: The names of different numbers are different when the prefix has at most 43 bytes,
  or at most 53 and the numbers have at most ten digits; with a prefix of 63 bytes or
  more every number gives the same name, the first 63 bytes of the prefix.
\<close>
lemma filename_injective:
  "(length pfx \<le> 43 \<longrightarrow> filename pfx m = filename pfx n \<longleftrightarrow> m = n) \<and>
   (length pfx \<le> 53 \<and> unat m < 10 ^ 10 \<and> unat n < 10 ^ 10 \<longrightarrow> filename pfx m = filename pfx n \<longleftrightarrow> m = n) \<and>
   (63 \<le> length pfx \<longrightarrow> filename pfx m = take 63 pfx)"
proof (intro conjI impI)
  assume p: "length pfx \<le> 43"
  have "length pfx + max 10 (length (decimal (unat k))) \<le> 63" for k :: u64
  proof -
    have "unat k < 10 ^ Suc 19" using unat_u64_less [of k] by simp
    then have "length (decimal (unat k)) \<le> 20" using length_decimal [of "unat k" 19] by simp
    with p show ?thesis by simp
  qed
  then show "filename pfx m = filename pfx n \<longleftrightarrow> m = n" using filename_inj by blast
next
  assume p: "length pfx \<le> 53 \<and> unat m < 10 ^ 10 \<and> unat n < 10 ^ 10"
  then have "length (decimal (unat m)) \<le> 10" "length (decimal (unat n)) \<le> 10"
    using length_decimal [of _ 9] by simp_all
  then have "length pfx + max 10 (length (decimal (unat m))) \<le> 63" "length pfx + max 10 (length (decimal (unat n))) \<le> 63"
    using p by simp_all
  then show "filename pfx m = filename pfx n \<longleftrightarrow> m = n" using filename_inj by blast
next
  assume "63 \<le> length pfx"
  then show "filename pfx m = take 63 pfx" by (simp add: filename_def)
qed

lemma filename_injective_witness:
  "filename (ascii ''file-'') 3 \<noteq> filename (ascii ''file-'') 4 \<and>
   filename (replicate 50 0x61) 3 \<noteq> filename (replicate 50 0x61) 4 \<and>
   filename (replicate 70 0x61) 3 = filename (replicate 70 0x61) 4"
  using filename_injective [of "ascii ''file-''" 3 4] filename_injective [of "replicate 50 0x61" 3 4]
    filename_injective [of "replicate 70 0x61" 3 4] filename_injective [of "replicate 70 0x61" 4 4]
  by (simp add: ascii_def)

end
