(* ===== verification/NegdentRun.thy ===== *)
theory NegdentRun
  imports NegdentProps
begin

text \<open>
  A run of \<open>negdentcreate\<close> without \<open>--loop\<close>: the invariant of the interleaved steps
  (\<open>neg_inv\<close>), an instance of \<open>invariant_system\<close>, and what an exit with 0 means.
\<close>

section \<open>What an operation leaves\<close>

text \<open>The names in the directory when the operation \<open>nm\<close> succeeded on the names \<open>L\<close>.\<close>

definition op_effect :: "string \<Rightarrow> u8 list set \<Rightarrow> u8 list set \<Rightarrow> u8 list set" where
  "op_effect nm D L =
    (if nm = ''create'' then D \<union> L else if nm = ''stat'' \<or> nm = ''open'' then D else D - L)"

lemma op_effect_empty [simp]: "op_effect nm D {} = D"
  by (simp add: op_effect_def)

lemmas sys_defs = sys_fstatat_def sys_open_def sys_creat_def sys_close_def sys_unlink_def dir_tick_def

text \<open>What one successful operation does to the names.\<close>

lemma op_names:
  "do_stat d name = (d', r) \<Longrightarrow> names d' = names d"
  "do_open d name = (d', r) \<Longrightarrow> names d' = names d"
  "do_create d name = (d', r) \<Longrightarrow> r \<noteq> -1 \<Longrightarrow> names d' = insert name (names d)"
  "do_unlink d name = (d', r) \<Longrightarrow> r \<noteq> -1 \<Longrightarrow> names d' = names d - {name}"
  "do_create_close_unlink d name = (d', r) \<Longrightarrow> r \<noteq> -1 \<Longrightarrow> names d' = names d - {name}"
  "do_create_unlink_close d name = (d', r) \<Longrightarrow> r \<noteq> -1 \<Longrightarrow> names d' = names d - {name}"
  by (auto simp: do_stat_def do_open_def do_create_def do_unlink_def do_create_close_unlink_def
    do_create_unlink_close_def sys_defs split: if_splits)

lemma op_effect_insert:
  "op_effect ''stat'' D (insert x L) = op_effect ''stat'' D L"
  "op_effect ''open'' D (insert x L) = op_effect ''open'' D L"
  "op_effect ''create'' D (insert x L) = insert x (op_effect ''create'' D L)"
  "op_effect ''unlink'' D (insert x L) = op_effect ''unlink'' D L - {x}"
  "op_effect ''create_close_unlink'' D (insert x L) = op_effect ''create_close_unlink'' D L - {x}"
  "op_effect ''create_unlink_close'' D (insert x L) = op_effect ''create_unlink_close'' D L - {x}"
  by (auto simp: op_effect_def)

lemma op_ok:
  assumes "map_of OPERATIONS nm = Some f" and "f d name = (d', r)" and "r \<noteq> -1"
    and "names d = op_effect nm D L"
  shows "names d' = op_effect nm D (insert name L)"
proof -
  from map_of_SomeD [OF assms(1)] have "(nm, f) \<in> {(''stat'', do_stat), (''open'', do_open),
    (''create'', do_create), (''unlink'', do_unlink), (''create_close_unlink'', do_create_close_unlink),
    (''create_unlink_close'', do_create_unlink_close)}"
    by (simp only: OPERATIONS_def list.set)
  then show ?thesis
    using assms(2-4) unfolding insert_iff prod.inject empty_iff
    by (elim disjE conjE FalseE; hypsubst; simp only: op_effect_insert op_names)
qed

section \<open>The invariant\<close>

definition thread_ok :: "nat \<Rightarrow> nat \<Rightarrow> work \<Rightarrow> bool" where
  "thread_ok N i t \<longleftrightarrow> unat (w_start t) = i * N \<and> unat (w_stop t) = i * N + N \<and>
    w_start t \<le> w_cur t \<and> w_cur t \<le> w_stop t \<and> w_cnt t = 0 \<and>
    (w_pc t = W_op \<longrightarrow> w_cur t < w_stop t) \<and> (w_pc t = W_open \<longrightarrow> w_cur t = w_start t) \<and>
    (w_error t \<longrightarrow> w_pc t = W_done \<and> (w_cur t < w_stop t \<or> w_start t = w_stop t))"

definition done_by :: "work \<Rightarrow> nat" where
  "done_by t = unat (w_cur t) - unat (w_start t)"

definition done_names :: "config \<Rightarrow> work \<Rightarrow> u8 list multiset" where
  "done_names c t = image_mset (\<lambda>k. filename (c_pfx c) (of_nat k)) (mset [unat (w_start t)..<unat (w_cur t)])"

definition polled :: "nat \<Rightarrow> work list \<Rightarrow> nat" where
  "polled i ts = sum_list (map done_by (take i ts))"

fun main_ok :: "work list \<Rightarrow> main_pc \<Rightarrow> bool" where
  "main_ok ts (M_cur i p e) \<longleftrightarrow> i \<le> length ts \<and> unat p \<le> polled i ts"
| "main_ok ts (M_cnt i p e) \<longleftrightarrow> i < length ts \<and> unat p \<le> polled (Suc i) ts"
| "main_ok ts (M_err i p e) \<longleftrightarrow> i < length ts \<and> unat p \<le> polled (Suc i) ts"
| "main_ok ts (M_check p e) \<longleftrightarrow> unat p \<le> polled (length ts) ts"
| "main_ok ts (M_join r) \<longleftrightarrow> (r = 0 \<longrightarrow> (\<forall>t \<in> set ts. w_cur t = w_stop t))"
| "main_ok ts (M_done r) \<longleftrightarrow> (r = 0 \<longrightarrow> (\<forall>t \<in> set ts. w_cur t = w_stop t))"

definition threads_ok :: "nat \<Rightarrow> work list \<Rightarrow> bool" where
  "threads_ok N ts \<longleftrightarrow> (\<forall>i < length ts. thread_ok N i (ts ! i))"

text \<open>A thread failed before its end.\<close>

definition stuck :: "work list \<Rightarrow> bool" where
  "stuck ts \<longleftrightarrow> (\<exists>t \<in> set ts. w_error t \<and> w_cur t < w_stop t)"

definition neg_inv :: "config \<Rightarrow> nat \<Rightarrow> string \<Rightarrow> u8 list set \<Rightarrow> sys \<Rightarrow> bool" where
  "neg_inv c N nm D s \<longleftrightarrow> \<not> c_loop c \<and> map_of OPERATIONS nm = Some (c_op c) \<and>
    unat (c_count c) = length (threads s) * N \<and> threads_ok N (threads s) \<and>
    mset (log s) = sum_list (map (done_names c) (threads s)) \<and>
    (stuck (threads s) \<or> names (directory s) = op_effect nm D (set (log s))) \<and>
    main_ok (threads s) (main_at s)"

definition neg_start :: "config \<Rightarrow> int \<Rightarrow> u64 \<Rightarrow> dir \<Rightarrow> (nat \<Rightarrow> bool) \<Rightarrow> string \<Rightarrow> sys \<Rightarrow> bool" where
  "neg_start c nthread cnt d opens nm s \<longleftrightarrow> \<not> c_loop c \<and> map_of OPERATIONS nm = Some (c_op c) \<and>
    0 < nthread \<and> nthread < 2 ^ 31 \<and> start nthread cnt d opens = Some (c_count c, s)"

section \<open>One step of a thread\<close>

text \<open>What a thread does to its own record: it stays well formed and only moves on.\<close>

definition moves :: "work \<Rightarrow> work \<Rightarrow> bool" where
  "moves t t' \<longleftrightarrow> w_start t' = w_start t \<and> w_stop t' = w_stop t \<and> w_cur t \<le> w_cur t' \<and> w_cur t' \<le> w_stop t' \<and>
    (w_error t \<longrightarrow> w_error t' \<and> w_cur t' = w_cur t)"

lemma moves_refl: "thread_ok N i t \<Longrightarrow> moves t t"
  by (simp add: moves_def thread_ok_def)

lemma moves_done_by: "moves t t' \<Longrightarrow> done_by t \<le> done_by t'"
  by (simp add: moves_def done_by_def diff_le_mono word_le_nat_alt)

lemma moves_stop: "moves t t' \<Longrightarrow> w_cur t = w_stop t \<Longrightarrow> w_cur t' = w_stop t'"
  by (auto simp: moves_def)

lemma done_names_Suc:
  assumes "w_start t \<le> w_cur t" and "w_cur t < w_stop t"
  shows "done_names c (t\<lparr>w_cur := w_cur t + 1, w_pc := q\<rparr>) = add_mset (filename (c_pfx c) (w_cur t)) (done_names c t)"
  using assms by (simp add: done_names_def word_le_nat_alt unat_Suc_less [OF assms(2)])

lemma worker_step_ok:
  assumes "thread_ok N i t" and "\<not> c_loop c" and "worker_step c opens ex t d = (t', d', l)"
  shows "thread_ok N i t' \<and> moves t t' \<and> done_names c t' = done_names c t + mset l"
proof (cases "w_pc t")
  case W_op
  then have lt: "w_start t \<le> w_cur t" "w_cur t < w_stop t" using assms(1) by (simp_all add: thread_ok_def)
  have up: "w_cur t \<le> w_cur t + 1" "w_cur t + 1 \<le> w_stop t"
    using lt(2) unat_Suc_less [OF lt(2)] by (simp_all add: word_le_nat_alt word_less_nat_alt)
  obtain d2 r where op: "c_op c d (filename (c_pfx c) (w_cur t)) = (d2, r)" by force
  show ?thesis
  proof (cases "r = -1")
    case True
    then have "t' = t\<lparr>w_error := True, w_pc := W_done\<rparr>" "l = []"
      using assms(3) W_op op by (simp_all add: worker_step_def)
    then show ?thesis using assms(1) lt by (simp add: thread_ok_def moves_def done_names_def)
  next
    case False
    then have "t' = t\<lparr>w_cur := w_cur t + 1, w_pc := W_test\<rparr>" "l = [filename (c_pfx c) (w_cur t)]"
      using assms(3) W_op op by (simp_all add: worker_step_def)
    then show ?thesis using assms(1) W_op lt up by (simp add: thread_ok_def moves_def done_names_Suc)
  qed
qed (use assms in \<open>auto simp: worker_step_def thread_ok_def moves_def done_names_def split: if_splits\<close>)

section \<open>One step of the program\<close>

text \<open>All threads move on: what the main thread has read stays a lower bound.\<close>

definition advances :: "work list \<Rightarrow> work list \<Rightarrow> bool" where
  "advances ts ts' \<longleftrightarrow> list_all2 moves ts ts'"

lemma advances_update:
  assumes "threads_ok N ts" and "i < length ts" and "moves (ts ! i) t'"
  shows "advances ts (ts[i := t'])"
  using assms by (auto simp: advances_def list_all2_conv_all_nth nth_list_update threads_ok_def intro: moves_refl)

lemma polled_mono: "advances ts ts' \<Longrightarrow> polled i ts \<le> polled i ts'"
  unfolding polled_def advances_def
  by (rule sum_list_mono2) (auto simp: list_all2_conv_all_nth intro: moves_done_by)

lemma stuck_mono:
  assumes "stuck ts" and "advances ts ts'"
  shows "stuck ts'"
proof -
  obtain i where i: "i < length ts" "w_error (ts ! i)" "w_cur (ts ! i) < w_stop (ts ! i)"
    using assms(1) by (auto simp: stuck_def in_set_conv_nth)
  then have "i < length ts'" "moves (ts ! i) (ts' ! i)"
    using assms(2) by (simp_all add: advances_def list_all2_conv_all_nth)
  then show ?thesis using i unfolding stuck_def moves_def by (metis nth_mem)
qed

lemma main_ok_mono:
  assumes "main_ok ts m" and "advances ts ts'"
  shows "main_ok ts' m"
proof -
  have l: "length ts' = length ts" using assms(2) by (simp add: advances_def list_all2_lengthD)
  have s: "\<forall>t \<in> set ts'. w_cur t = w_stop t" if "\<forall>t \<in> set ts. w_cur t = w_stop t"
    using that assms(2) unfolding advances_def list_all2_conv_all_nth all_set_conv_all_nth by (metis moves_stop)
  have p: "x \<le> polled i ts'" if "x \<le> polled i ts" for x i
    using that polled_mono [OF assms(2)] by (rule le_trans)
  show ?thesis using assms(1) l s p by (cases m) auto
qed

lemma threads_ok_update:
  assumes "threads_ok N ts" and "thread_ok N i t"
  shows "threads_ok N (ts[i := t])"
  unfolding threads_ok_def
proof (intro allI impI)
  fix j assume "j < length (ts[i := t])"
  then show "thread_ok N j (ts[i := t] ! j)"
    using assms by (cases "j = i") (simp_all add: threads_ok_def)
qed

text \<open>What the step leaves in the directory, if the thread did not fail in it.\<close>

lemma worker_step_names:
  assumes "thread_ok N i t" and "worker_step c opens ex t d = (t', d', l)"
    and "map_of OPERATIONS nm = Some (c_op c)"
  shows "w_error t' \<and> w_cur t' < w_stop t' \<or>
    (names d = op_effect nm D (set ls) \<longrightarrow> names d' = op_effect nm D (set (ls @ l)))"
proof (cases "w_pc t = W_op")
  case True
  obtain d2 r where op: "c_op c d (filename (c_pfx c) (w_cur t)) = (d2, r)" by force
  have lt: "w_cur t < w_stop t" using assms(1) True by (simp add: thread_ok_def)
  show ?thesis
  proof (cases "r = -1")
    case True
    then have "t' = t\<lparr>w_error := True, w_pc := W_done\<rparr>"
      using assms(2) \<open>w_pc t = W_op\<close> op by (simp add: worker_step_def)
    then show ?thesis using lt by simp
  next
    case False
    then have "d' = d2" "l = [filename (c_pfx c) (w_cur t)]"
      using assms(2) \<open>w_pc t = W_op\<close> op by (simp_all add: worker_step_def)
    then have "set (ls @ l) = insert (filename (c_pfx c) (w_cur t)) (set ls)" by simp
    then show ?thesis using op_ok [OF assms(3) op False, of D "set ls"] \<open>d' = d2\<close> by metis
  qed
next
  case False
  then have "d' = d \<and> l = []" using assms(2) by (cases "w_pc t") (simp_all add: worker_step_def split: if_split_asm)
  then show ?thesis by simp
qed

lemma neg_inv_thread:
  assumes "neg_inv c N nm D s" and "i < length (threads s)"
  shows "neg_inv c N nm D (thread_step c i s)"
proof -
  let ?ts = "threads s"
  obtain t d l where w: "worker_step c (dir_opens s i) (exiting s) (?ts ! i) (directory s) = (t, d, l)"
    by (metis prod_cases3)
  have inv: "\<not> c_loop c" "map_of OPERATIONS nm = Some (c_op c)" "unat (c_count c) = length ?ts * N"
    "threads_ok N ?ts" "mset (log s) = sum_list (map (done_names c) ?ts)"
    "stuck ?ts \<or> names (directory s) = op_effect nm D (set (log s))"
    "main_ok ?ts (main_at s)"
    using assms(1) unfolding neg_inv_def by blast+
  have ok: "thread_ok N i (?ts ! i)" using inv(4) assms(2) by (simp add: threads_ok_def)
  note st = worker_step_ok [OF ok inv(1) w]
  have adv: "advances ?ts (?ts[i := t])"
    using advances_update [OF inv(4) assms(2)] st by simp
  have names: "mset (log s @ l) = sum_list (map (done_names c) (?ts[i := t]))"
    using sum_list_map_update [OF assms(2), of "done_names c" t] st inv(5) by simp
  have dir: "stuck (?ts[i := t]) \<or> names d = op_effect nm D (set (log s @ l))"
    using worker_step_names [OF ok w inv(2)] inv(6) stuck_mono [OF _ adv] assms(2)
    unfolding stuck_def by (metis set_update_memI)
  show ?thesis
    using inv(1-3) names dir main_ok_mono [OF inv(7) adv] threads_ok_update [OF inv(4), of i t] st
    by (simp add: neg_inv_def thread_step_def w)
qed

lemma neg_inv_ends:
  assumes "neg_inv c N nm D s" and "i < length (threads s)"
  shows "neg_inv c N nm D (thread_ends i s)"
proof -
  let ?ts = "threads s" and ?t = "(threads s ! i)\<lparr>w_pc := W_done\<rparr>"
  have inv: "\<not> c_loop c" "map_of OPERATIONS nm = Some (c_op c)" "unat (c_count c) = length ?ts * N"
    "threads_ok N ?ts" "mset (log s) = sum_list (map (done_names c) ?ts)"
    "stuck ?ts \<or> names (directory s) = op_effect nm D (set (log s))"
    "main_ok ?ts (main_at s)"
    using assms(1) unfolding neg_inv_def by blast+
  have ok: "thread_ok N i (?ts ! i)" using inv(4) assms(2) by (simp add: threads_ok_def)
  then have t: "thread_ok N i ?t" "moves (?ts ! i) ?t" "done_names c ?t = done_names c (?ts ! i)"
    by (auto simp: thread_ok_def moves_def done_names_def)
  have "sum_list (map (done_names c) (?ts[i := ?t])) = sum_list (map (done_names c) ?ts)"
    using sum_list_map_update [OF assms(2), of "done_names c" ?t] t(3) by simp
  moreover note adv = advances_update [OF inv(4) assms(2) t(2)]
  ultimately show ?thesis
    using inv main_ok_mono [OF inv(7) adv] threads_ok_update [OF inv(4) t(1)] stuck_mono [OF _ adv]
    by (auto simp: neg_inv_def thread_ends_def)
qed

lemma neg_inv_interrupt: "neg_inv c N nm D s \<Longrightarrow> neg_inv c N nm D (interrupt s)"
  by (simp add: neg_inv_def interrupt_def)

text \<open>The main thread: what it has added up is a lower bound of the work done.\<close>

lemma done_by_le: "thread_ok N i t \<Longrightarrow> done_by t \<le> N"
  by (auto simp: thread_ok_def done_by_def word_le_nat_alt)

lemma done_by_all: "thread_ok N i t \<Longrightarrow> N \<le> done_by t \<Longrightarrow> w_cur t = w_stop t"
  by (auto simp: thread_ok_def done_by_def word_le_nat_alt word_unat_eq_iff)

lemma polled_Suc: "i < length ts \<Longrightarrow> polled (Suc i) ts = polled i ts + done_by (ts ! i)"
  by (simp add: polled_def take_Suc_conv_app_nth)

lemma polled_le: "threads_ok N ts \<Longrightarrow> i \<le> length ts \<Longrightarrow> polled i ts \<le> i * N"
proof (induction i)
  case (Suc i)
  then have "done_by (ts ! i) \<le> N" using done_by_le [of N i "ts ! i"] by (simp add: threads_ok_def)
  with Suc show ?case by (simp add: polled_Suc)
qed (simp add: polled_def)

lemma polled_all:
  assumes "threads_ok N ts" and "i \<le> length ts" and "i * N \<le> polled i ts" and "j < i"
  shows "w_cur (ts ! j) = w_stop (ts ! j)"
  using assms
proof (induction i)
  case (Suc i)
  have ok: "thread_ok N i (ts ! i)" using Suc.prems by (simp add: threads_ok_def)
  have le: "polled i ts \<le> i * N" using Suc.prems by (intro polled_le) simp_all
  have sum: "N + i * N \<le> polled i ts + done_by (ts ! i)" using Suc.prems by (simp add: polled_Suc)
  show ?case
  proof (cases "j = i")
    case True
    then show ?thesis using done_by_all [OF ok] le sum by simp
  next
    case False
    then show ?thesis using Suc done_by_le [OF ok] sum by simp
  qed
qed simp

lemma unat_progress:
  assumes "thread_ok N i t" and "unat p \<le> m"
  shows "unat (p + (w_cur t - w_start t)) \<le> m + done_by t"
proof -
  have "unat (w_cur t - w_start t) = done_by t"
    using assms(1) by (simp add: done_by_def thread_ok_def unat_sub)
  then show ?thesis using unat_add_le [of p "w_cur t - w_start t"] assms(2) by simp
qed

lemma main_at_ok:
  assumes "threads_ok N (threads s)" and "unat (c_count c) = length (threads s) * N" and "\<not> c_loop c"
    and "main_ok (threads s) (main_at s)"
  shows "main_ok (threads s) (main_at (main_step c s))"
proof (cases "main_at s")
  case (M_cur i p e)
  show ?thesis
  proof (cases "i < length (threads s)")
    case True
    then have "thread_ok N i (threads s ! i)" using assms(1) by (simp add: threads_ok_def)
    then show ?thesis using M_cur True assms(4) unat_progress [of N i "threads s ! i" p]
      by (simp add: main_step_def polled_Suc Let_def)
  next
    case False
    then show ?thesis using M_cur assms(4) by (auto simp: main_step_def)
  qed
next
  case (M_cnt i p e)
  then have "w_cnt (threads s ! i) = 0" using assms(1,4) by (simp add: threads_ok_def thread_ok_def)
  then show ?thesis using M_cnt assms(4) by (simp add: main_step_def Let_def)
next
  case (M_err i p e)
  then show ?thesis using assms(4) by (simp add: main_step_def)
next
  case (M_check p e)
  show ?thesis
  proof (cases "p < c_count c")
    case True
    then show ?thesis using M_check by (simp add: main_step_def polled_def)
  next
    case False
    then have "length (threads s) * N \<le> polled (length (threads s)) (threads s)"
      using M_check assms(2,4) by (simp add: word_less_nat_alt)
    then have "\<forall>t \<in> set (threads s). w_cur t = w_stop t"
      using polled_all [OF assms(1) order_refl] by (auto simp: in_set_conv_nth)
    then show ?thesis using M_check False assms(3) by (simp add: main_step_def)
  qed
next
  case (M_join r)
  then show ?thesis using assms(4) by (simp add: main_step_def)
next
  case (M_done r)
  then show ?thesis using assms(4) by (simp add: main_step_def)
qed

lemma cancel_ok:
  "thread_ok N i t \<Longrightarrow> thread_ok N i (cancel t) \<and> moves t (cancel t)"
  by (auto simp: cancel_def thread_ok_def moves_def)

lemma done_names_cancel: "done_names c (cancel t) = done_names c t"
  by (simp add: cancel_def done_names_def)

lemma main_step_parts:
  "log (main_step c s) = log s" "directory (main_step c s) = directory s"
  "threads (main_step c s) = threads s \<or> threads (main_step c s) = map cancel (threads s) \<and> main_at (main_step c s) = M_join 1"
  by (auto simp: main_step_def Let_def split: main_pc.splits)

lemma neg_inv_main:
  assumes "neg_inv c N nm D s"
  shows "neg_inv c N nm D (main_step c s)"
proof -
  let ?ts = "threads s"
  have inv: "\<not> c_loop c" "map_of OPERATIONS nm = Some (c_op c)" "unat (c_count c) = length ?ts * N"
    "threads_ok N ?ts" "mset (log s) = sum_list (map (done_names c) ?ts)"
    "stuck ?ts \<or> names (directory s) = op_effect nm D (set (log s))"
    "main_ok ?ts (main_at s)"
    using assms(1) unfolding neg_inv_def by blast+
  from main_step_parts(3) [of c s] show ?thesis
  proof
    assume t: "threads (main_step c s) = ?ts"
    show ?thesis using inv(1-6) main_at_ok [OF inv(4,3,1,7)]
      unfolding neg_inv_def t main_step_parts(1,2) by blast
  next
    assume t: "threads (main_step c s) = map cancel ?ts \<and> main_at (main_step c s) = M_join 1"
    have ok: "threads_ok N (map cancel ?ts)" using inv(4) cancel_ok by (simp add: threads_ok_def)
    have "advances ?ts (map cancel ?ts)"
      using inv(4) cancel_ok by (auto simp: threads_ok_def advances_def list_all2_conv_all_nth)
    then have "stuck ?ts \<Longrightarrow> stuck (map cancel ?ts)" by (rule stuck_mono [rotated])
    moreover have "map (done_names c) (map cancel ?ts) = map (done_names c) ?ts"
      by (simp add: done_names_cancel)
    ultimately show ?thesis using inv(1-3,5,6) ok t
      unfolding neg_inv_def main_step_parts(1,2) by (simp del: map_map) blast
  qed
qed

lemma neg_inv_step:
  assumes "neg_inv c N nm D s" and "neg_step c s s'"
  shows "neg_inv c N nm D s'"
  using assms(2,1)
  by (elim neg_stepE) (auto intro: neg_inv_thread neg_inv_ends neg_inv_main neg_inv_interrupt)

lemma neg_inv_start:
  assumes "neg_start c nthread cnt d opens nm s"
  shows "neg_inv c (unat cnt div nat nthread) nm (names d) s"
proof -
  have st: "\<not> c_loop c" "map_of OPERATIONS nm = Some (c_op c)" "0 < nthread" "nthread < 2 ^ 31"
    "start nthread cnt d opens = Some (c_count c, s)"
    using assms unfolding neg_start_def by blast+
  obtain inc where inc: "unat inc = unat cnt div nat nthread" and tot: "unat (c_count c) = nat nthread * unat inc"
    and s: "s = \<lparr>threads = map (new_work inc) [0..<nat nthread], exiting = False, directory = d, dir_opens = opens,
           log = [], main_at = M_cur 0 0 0\<rparr>"
    by (rule start_cases [OF st(5,3,4)]) blast
  have fit: "nat nthread * unat inc < 2 ^ 64" using unat_u64_less [of "c_count c"] tot by simp
  have cur: "w_cur (new_work inc i) = w_start (new_work inc i)" "w_pc (new_work inc i) = W_open"
    "w_cnt (new_work inc i) = 0" "\<not> w_error (new_work inc i)" for i
    by (simp_all add: new_work_def)
  have "thread_ok (unat inc) i (new_work inc i)" if "i < nat nthread" for i
    using new_work_range [OF that fit] by (simp add: thread_ok_def cur word_le_nat_alt)
  then have "threads_ok (unat inc) (threads s)" by (simp add: s threads_ok_def)
  moreover have "sum_list (map (done_names c) (threads s)) = {#}"
    by (simp add: s done_names_def cur comp_def)
  ultimately show ?thesis
    using st(1,2) tot by (simp add: neg_inv_def inc [symmetric] s polled_def)
qed

interpretation negdent: invariant_system "neg_start c nthread cnt d opens nm" "neg_step c"
    "neg_inv c (unat cnt div nat nthread) nm (names d)" for c nthread cnt d opens nm
  by unfold_locales (rule neg_inv_start, assumption, rule neg_inv_step, assumption+)

section \<open>What the exit value means\<close>

lemma sum_list_subseteq:
  "(\<And>x. x \<in> set xs \<Longrightarrow> f x \<subseteq># g x) \<Longrightarrow> sum_list (map f xs) \<subseteq># sum_list (map g xs)"
  by (induction xs) (auto intro: subset_mset.add_mono)

text \<open>The names of the whole range of a thread, and of all threads.\<close>

definition all_names :: "config \<Rightarrow> work \<Rightarrow> u8 list multiset" where
  "all_names c t = image_mset (\<lambda>k. filename (c_pfx c) (of_nat k)) (mset [unat (w_start t)..<unat (w_stop t)])"

lemma done_names_subseteq:
  assumes "thread_ok N i t"
  shows "done_names c t \<subseteq># all_names c t"
proof -
  have "unat (w_start t) \<le> unat (w_cur t)" "unat (w_cur t) \<le> unat (w_stop t)"
    using assms by (simp_all add: thread_ok_def word_le_nat_alt)
  note upt_split [OF this]
  then show ?thesis unfolding done_names_def all_names_def by simp
qed

lemma all_names_sum:
  assumes "threads_ok N ts"
  shows "sum_list (map (all_names c) ts) = mset (map (\<lambda>k. filename (c_pfx c) (of_nat k)) [0..<length ts * N])"
proof -
  let ?f = "\<lambda>k. filename (c_pfx c) (of_nat k)" and ?r = "\<lambda>i. [i * N..<i * N + N]"
  have "map (all_names c) ts = map (\<lambda>i. image_mset ?f (mset (?r i))) [0..<length ts]"
    using assms by (intro nth_equalityI) (simp_all add: all_names_def threads_ok_def thread_ok_def)
  then have "sum_list (map (all_names c) ts) = sum_list (map (\<lambda>i. image_mset ?f (mset (?r i))) [0..<length ts])"
    by (rule arg_cong)
  also have "\<dots> = mset (map ?f (concat (map ?r [0..<length ts])))"
    by (simp add: mset_concat map_concat comp_def)
  finally show ?thesis by (simp only: concat_ranges)
qed


text \<open>A schedule to evaluate: \<open>Some i\<close> is a step of thread \<open>i\<close>, \<open>None\<close> one of the main thread.\<close>

definition schedule :: "config \<Rightarrow> nat option list \<Rightarrow> sys \<Rightarrow> sys" where
  "schedule c es s = fold (\<lambda>e s. case e of None \<Rightarrow> main_step c s
     | Some i \<Rightarrow> if i < length (threads s) then thread_step c i s else s) es s"

lemma schedule_steps: "(neg_step c)\<^sup>*\<^sup>* s (schedule c es s)"
proof (induction es arbitrary: s)
  case (Cons e es)
  have "(neg_step c)\<^sup>*\<^sup>* s (schedule c [e] s)"
    by (auto simp: schedule_def intro: neg_step.intros split: option.split)
  with Cons [of "schedule c [e] s"] show ?case
    by (simp add: schedule_def)
qed (simp add: schedule_def)

definition example_config :: config where
  "example_config = \<lparr>c_loop = False, c_op = do_create, c_pfx = [0x66], c_count = 2\<rparr>"

definition example_start :: sys where
  "example_start = \<lparr>threads = map (new_work 1) [0, 1], exiting = False, directory = quiet_dir,
    dir_opens = \<lambda>_. True, log = [], main_at = M_cur 0 0 0\<rparr>"

definition example_schedule :: "nat option list" where
  "example_schedule = concat (replicate 6 [Some 0, Some 1]) @ replicate 9 None"


end
