(* ===== verification/NegdentStop.thy ===== *)
theory NegdentStop
  imports NegdentRun
begin

text \<open>
  Interrupting \<open>negdentcreate\<close>: once the signal has come, with or without \<open>--loop\<close>, every
  step either changes nothing or brings the end nearer, and only a program that is done
  cannot make a step that changes something.
\<close>

section \<open>Steps that remain\<close>

fun worker_left :: "worker_pc \<Rightarrow> nat" where
  "worker_left W_open = 4"
| "worker_left W_op = 4"
| "worker_left W_test = 3"
| "worker_left W_tail = 2"
| "worker_left W_again = 1"
| "worker_left W_done = 0"

fun main_left :: "nat \<Rightarrow> main_pc \<Rightarrow> nat" where
  "main_left n (M_cur i p e) = 3 * (n - i) + 3"
| "main_left n (M_cnt i p e) = 3 * (n - i) + 2"
| "main_left n (M_err i p e) = 3 * (n - i) + 1"
| "main_left n (M_check p e) = 2"
| "main_left n (M_join r) = 1"
| "main_left n (M_done r) = 0"

definition steps_left :: "sys \<Rightarrow> nat" where
  "steps_left s = sum_list (map (\<lambda>t. worker_left (w_pc t)) (threads s)) + main_left (length (threads s)) (main_at s)"

text \<open>The index of the main thread is within its list.\<close>

fun index_ok :: "nat \<Rightarrow> main_pc \<Rightarrow> bool" where
  "index_ok n (M_cur i p e) \<longleftrightarrow> i \<le> n"
| "index_ok n (M_cnt i p e) \<longleftrightarrow> i < n"
| "index_ok n (M_err i p e) \<longleftrightarrow> i < n"
| "index_ok n m \<longleftrightarrow> True"

definition main_inv :: "sys \<Rightarrow> bool" where
  "main_inv s \<longleftrightarrow> index_ok (length (threads s)) (main_at s)"

lemma length_threads_main [simp]: "length (threads (main_step c s)) = length (threads s)"
  using main_step_parts(3) [of c s] by auto

lemma thread_step_parts [simp]:
  "length (threads (thread_step c i s)) = length (threads s)" "main_at (thread_step c i s) = main_at s"
  by (simp_all add: thread_step_def split: prod.split)

lemma main_inv_step:
  assumes "main_inv s" and "neg_step c s s'"
  shows "main_inv s'"
  using assms(2)
proof (elim neg_stepE)
  assume "s' = main_step c s"
  then show ?thesis using assms(1)
    by (cases "main_at s") (auto simp: main_inv_def main_step_def Let_def)
qed (use assms(1) in \<open>simp_all add: main_inv_def thread_ends_def interrupt_def\<close>)

lemma main_inv_start: "start nthread cnt d opens = Some (rounded, s) \<Longrightarrow> main_inv s"
  by (auto simp: start_def main_inv_def split: option.splits)

interpretation negdent_index: invariant_system
    "\<lambda>s. start nthread cnt d opens = Some (rounded, s)" "neg_step c" main_inv for nthread cnt d opens rounded c
  by unfold_locales (rule main_inv_start, assumption, rule main_inv_step, assumption+)

section \<open>After the signal\<close>

lemma worker_step_exiting:
  assumes "worker_step c opens True t d = (t', d', l)"
  shows "(w_pc t = W_done \<and> t' = t \<and> d' = d \<and> l = []) \<or> worker_left (w_pc t') < worker_left (w_pc t)"
  using assms by (cases "w_pc t") (auto simp: worker_step_def Let_def split: if_splits prod.splits)

lemma sum_left_update:
  assumes "i < length ts" and "worker_left (w_pc t) < worker_left (w_pc (ts ! i))"
  shows "sum_list (map (\<lambda>t. worker_left (w_pc t)) (ts[i := t])) < sum_list (map (\<lambda>t. worker_left (w_pc t)) ts)"
  using sum_list_map_update [OF assms(1), of "\<lambda>t. worker_left (w_pc t)" t] assms(2) by simp

lemma thread_step_exiting:
  assumes "exiting s" and "i < length (threads s)"
  shows "(w_pc (threads s ! i) = W_done \<and> thread_step c i s = s) \<or> steps_left (thread_step c i s) < steps_left s"
proof -
  obtain t d l where w: "worker_step c (dir_opens s i) True (threads s ! i) (directory s) = (t, d, l)"
    by (metis prod_cases3)
  have st: "thread_step c i s = s\<lparr>threads := (threads s)[i := t], directory := d, log := log s @ l\<rparr>"
    using assms(1) w by (simp add: thread_step_def)
  from worker_step_exiting [OF w] show ?thesis
  proof
    assume "w_pc (threads s ! i) = W_done \<and> t = threads s ! i \<and> d = directory s \<and> l = []"
    then show ?thesis using st by simp
  next
    assume "worker_left (w_pc t) < worker_left (w_pc (threads s ! i))"
    then show ?thesis using sum_left_update [OF assms(2)] st by (simp add: steps_left_def)
  qed
qed

lemma thread_ends_left:
  assumes "i < length (threads s)"
  shows "thread_ends i s = s \<or> steps_left (thread_ends i s) < steps_left s"
proof (cases "w_pc (threads s ! i) = W_done")
  case True
  then have "(threads s ! i)\<lparr>w_pc := W_done\<rparr> = threads s ! i" by simp
  then show ?thesis by (simp add: thread_ends_def)
next
  case False
  then have "worker_left (w_pc ((threads s ! i)\<lparr>w_pc := W_done\<rparr>)) < worker_left (w_pc (threads s ! i))"
    by (cases "w_pc (threads s ! i)") simp_all
  then show ?thesis using sum_left_update [OF assms] by (simp add: thread_ends_def steps_left_def)
qed

lemma main_step_exiting:
  assumes "exiting s" and "main_inv s"
  shows "steps_left (main_step c s) < steps_left s \<or> (main_step c s = s \<and>
    ((\<exists>r. main_at s = M_done r) \<or> (\<exists>t \<in> set (threads s). w_pc t \<noteq> W_done)))"
proof (cases "main_at s")
  case (M_check p e)
  have "map (\<lambda>t. worker_left (w_pc t)) (map cancel (threads s)) = map (\<lambda>t. worker_left (w_pc t)) (threads s)"
    by (simp add: cancel_def)
  then show ?thesis using M_check assms(1) by (simp add: main_step_def steps_left_def del: map_map)
next
  case (M_join r)
  then show ?thesis by (auto simp: main_step_def steps_left_def list_all_iff)
qed (use assms(2) in \<open>auto simp: main_step_def steps_left_def main_inv_def Let_def\<close>)

lemma exiting_step: "exiting s \<Longrightarrow> neg_step c s s' \<Longrightarrow> exiting s'"
  by (elim neg_stepE) (auto simp: thread_step_def thread_ends_def interrupt_def main_step_def Let_def
    split: prod.splits main_pc.splits)

text \<open>
  C33: After an interrupt the program ends, with or without \<open>--loop\<close>, under every schedule:
  each further step changes nothing or lowers the number of steps that remain, and in a state
  where no step changes anything all threads are done and the main thread has returned.
\<close>
lemma negdent_interrupt_ends:
  assumes "start nthread cnt d opens = Some (rounded, s0)" and "(neg_step c)\<^sup>*\<^sup>* s0 s" and "exiting s"
  shows "(\<forall>s'. neg_step c s s' \<longrightarrow> s' = s \<or> steps_left s' < steps_left s) \<and>
    ((\<forall>s'. neg_step c s s' \<longrightarrow> s' = s) \<longrightarrow>
      (\<exists>r. main_at s = M_done r) \<and> (\<forall>t \<in> set (threads s). w_pc t = W_done))"
proof (intro conjI allI impI)
  have inv: "main_inv s" using assms(1,2) by (rule negdent_index.inv_reachable)
  show "s' = s \<or> steps_left s' < steps_left s" if "neg_step c s s'" for s'
    using that
  proof (elim neg_stepE)
    assume "s' = interrupt s"
    then show ?thesis using assms(3) by (simp add: interrupt_def)
  qed (use thread_step_exiting [OF assms(3)] thread_ends_left main_step_exiting [OF assms(3) inv] in blast)+
  assume stuck: "\<forall>s'. neg_step c s s' \<longrightarrow> s' = s"
  show idle: "\<forall>t \<in> set (threads s). w_pc t = W_done"
  proof
    fix t assume "t \<in> set (threads s)"
    then obtain i where i: "i < length (threads s)" "t = threads s ! i" by (auto simp: in_set_conv_nth)
    then have "thread_step c i s = s" using stuck neg_step.thread by blast
    then show "w_pc t = W_done" using thread_step_exiting [OF assms(3) i(1), of c] i(2) by auto
  qed
  have "main_step c s = s" using stuck neg_step.main by blast
  then show "\<exists>r. main_at s = M_done r" using main_step_exiting [OF assms(3) inv, of c] idle by auto
qed

definition loop_config :: config where
  "loop_config = \<lparr>c_loop = True, c_op = do_stat, c_pfx = [0x66], c_count = 2\<rparr>"

lemma negdent_interrupt_ends_witness:
  "let s = interrupt (schedule loop_config (concat (replicate 8 [Some 0, Some 1, None])) example_start)
   in steps_left (schedule loop_config [Some 0] s) < steps_left s"
proof -
  let ?s = "interrupt (schedule loop_config (concat (replicate 8 [Some 0, Some 1, None])) example_start)"
  have st: "start 2 3 quiet_dir (\<lambda>_. True) = Some (2, example_start)"
    by (simp add: start_def increment_def example_start_def upt_rec)
  have "(neg_step loop_config)\<^sup>*\<^sup>* example_start ?s"
    by (rule rtranclp.rtrancl_into_rtrancl [OF schedule_steps neg_step.signal])
  note ends = negdent_interrupt_ends [OF st this]
  have ex: "exiting ?s" by (simp add: interrupt_def)
  have len: "0 < length (threads ?s)" by code_simp
  have "w_pc (threads (thread_step loop_config 0 ?s) ! 0) \<noteq> w_pc (threads ?s ! 0)" by code_simp
  then have "thread_step loop_config 0 ?s \<noteq> ?s" by metis
  moreover have "neg_step loop_config ?s (thread_step loop_config 0 ?s)" using len by (rule neg_step.thread)
  ultimately have "steps_left (thread_step loop_config 0 ?s) < steps_left ?s" using ends [OF ex] by blast
  then show ?thesis using len by (simp add: schedule_def)
qed

end
