(* ===== verification/DumpPhys.thy ===== *)
theory DumpPhys
  imports FileIO
begin

text \<open>
  \<open>dumpphys\<close> (\<open>src/vmcoreinfo/dumpphys.c\<close>): write the memory of a core dump to a file, or
  search it for a VMCOREINFO note. The functions of libkdumpfile and the clock are the
  fields of a record \<open>kdump\<close>, arguments of the definitions; what the lemmas need of the
  page bitmap is \<open>bitmap_ok\<close>. Of a progress message the numbers are kept that go into it.
\<close>

section \<open>Times\<close>

text \<open>Seconds and nanoseconds of the monotonic clock, far from the ends of their types.\<close>

record timespec =
  tv_sec :: int
  tv_nsec :: int

definition timespec_sub :: "timespec \<Rightarrow> timespec \<Rightarrow> timespec" where
  "timespec_sub a b =
    (let r = (if tv_nsec a < tv_nsec b
              then a\<lparr>tv_sec := tv_sec a - 1, tv_nsec := tv_nsec a + 1000000000\<rparr> else a);
         r = r\<lparr>tv_nsec := tv_nsec r - tv_nsec b\<rparr>
     in r\<lparr>tv_sec := tv_sec r - tv_sec b\<rparr>)"

definition timespec_cmp :: "timespec \<Rightarrow> timespec \<Rightarrow> int" where
  "timespec_cmp a b = (if tv_sec a = tv_sec b then tv_nsec a - tv_nsec b else tv_sec a - tv_sec b)"

section \<open>The library\<close>

datatype kdump_status = KDUMP_OK | KDUMP_ERR_NODATA | KDUMP_ERR

text \<open>
  The calls that set up the context and whether they succeed, the attributes (\<open>None\<close> is a
  failing call), the two searches in the page bitmap, \<open>kdump_read\<close> with the bytes it puts
  into the buffer, \<open>kdump_read_string\<close>, and the successive readings of the clock.
\<close>

record kdump =
  kdump_new :: bool
  kdump_set_fd :: bool
  kdump_set_ostype :: bool
  attr_max_pfn :: "u64 option"
  attr_page_size :: "u64 option"
  attr_page_shift :: "u64 option"
  attr_pagemap :: "bool option"
  kdump_bmp_find_set :: "u64 \<Rightarrow> kdump_status \<times> u64"
  kdump_bmp_find_clear :: "u64 \<Rightarrow> kdump_status \<times> u64"
  kdump_read :: "u64 \<Rightarrow> u64 \<Rightarrow> kdump_status \<times> u8 list"
  kdump_read_string :: "u64 \<Rightarrow> kdump_status \<times> u8 list"
  clock :: "nat \<Rightarrow> timespec"

section \<open>Progress\<close>

record progress =
  total_bytes :: u64
  current_bytes :: u64
  start_time :: timespec
  last_update :: timespec
  update_interval :: timespec
  prog_print :: bool

text \<open>The progress, the number of readings of the clock, and the lines printed so far.\<close>

record meter =
  prog :: progress
  ticks :: nat
  lines :: "(u64 \<times> u64 \<times> timespec) list"

definition progress_update :: "kdump \<Rightarrow> bool \<Rightarrow> u64 \<Rightarrow> meter \<Rightarrow> meter" where
  "progress_update k force add_bytes m =
    (let p = prog m in
     if \<not> prog_print p then m
     else
       let p = p\<lparr>current_bytes := current_bytes p + add_bytes\<rparr>;
           now = clock k (ticks m);
           m = m\<lparr>ticks := ticks m + 1\<rparr>;
           since_last = timespec_sub now (last_update p)
       in if \<not> force \<and> timespec_cmp since_last (update_interval p) < 0 then m\<lparr>prog := p\<rparr>
       else
         let p = p\<lparr>last_update := now\<rparr>;
             elapsed = timespec_sub now (start_time p)
         in m\<lparr>prog := p, lines := lines m @ [(current_bytes p, total_bytes p, elapsed)]\<rparr>)"

definition progress_complete :: "kdump \<Rightarrow> meter \<Rightarrow> meter" where
  "progress_complete k m = (if prog_print (prog m) then progress_update k True 0 m else m)"

definition progress_init :: "kdump \<Rightarrow> bool \<Rightarrow> u64 \<Rightarrow> meter \<Rightarrow> meter" where
  "progress_init k verbose total1 m =
    (let p = (prog m)\<lparr>prog_print := verbose\<rparr> in
     if \<not> verbose then m\<lparr>prog := p\<rparr>
     else m\<lparr>prog := p\<lparr>total_bytes := total1, current_bytes := 0, start_time := clock k (ticks m),
              update_interval := \<lparr>tv_sec = 0, tv_nsec = 200000000\<rparr>,
              last_update := \<lparr>tv_sec = 0, tv_nsec = 0\<rparr>\<rparr>,
            ticks := ticks m + 1\<rparr>)"

section \<open>The memory\<close>

record memory_info =
  max_pfn :: u64
  page_size :: u64
  page_shift :: u64

text \<open>\<open>attr_pagemap\<close> tells whether the attribute is a bitmap, which is asserted.\<close>

definition get_memory_info :: "kdump \<Rightarrow> crash + memory_info" where
  "get_memory_info k =
    (case attr_max_pfn k of None \<Rightarrow> Inl Exit_failure | Some pfn \<Rightarrow>
     case attr_page_size k of None \<Rightarrow> Inl Exit_failure | Some sz \<Rightarrow>
     case attr_page_shift k of None \<Rightarrow> Inl Exit_failure | Some sh \<Rightarrow>
     case attr_pagemap k of None \<Rightarrow> Inl Exit_failure | Some is_bitmap \<Rightarrow>
     if \<not> is_bitmap then Inl Assert_failed
     else Inr \<lparr>max_pfn = pfn, page_size = (if sz = 0 then 4096 else sz), page_shift = sh\<rparr>)"

section \<open>What is done with a page\<close>

text \<open>
  \<open>struct vmcoreinfo_arg\<close>: the output file, whose descriptor \<open>dump_page\<close> takes from the same
  place, the flags, and the number of notes found (an \<open>int\<close>, here without a bound: it
  counts pages that hold a note, and is only printed).
\<close>

record vmcoreinfo_arg =
  fd :: ofile
  should_continue :: bool
  found_count :: int
  search_within_page :: bool

text \<open>A page function gets the address, the length and the buffer, and returns an \<open>int\<close>.\<close>

type_synonym page_fn = "vmcoreinfo_arg \<Rightarrow> u64 \<Rightarrow> nat \<Rightarrow> u8 list \<Rightarrow> crash + vmcoreinfo_arg \<times> int"

definition dump_page :: page_fn where
  "dump_page arg addr len buf =
    (if length buf < len then Inl Overread
     else case file_write (fd arg) (take len buf) of (f, rv) \<Rightarrow>
       Inr (arg\<lparr>fd := f\<rparr>, if rv < 0 then -1 else 0))"

text \<open>\<open>strncmp (s, buf, strlen (s)) == 0\<close>, \<open>strlen\<close> and \<open>memmem\<close> on a buffer.\<close>

fun strncmp_is :: "u8 list \<Rightarrow> u8 list \<Rightarrow> nat \<Rightarrow> crash + bool" where
  "strncmp_is [] buf p = Inr True"
| "strncmp_is (c # cs) buf p =
    bindR (load buf p 1) (\<lambda>b. if b = [c] then strncmp_is cs buf (p + 1) else Inr False)"

definition buf_strlen :: "u8 list \<Rightarrow> crash + nat" where
  "buf_strlen buf = (if 0 \<in> set buf then Inr (length (takeWhile (\<lambda>b. b \<noteq> 0) buf)) else Inl Overread)"

fun memmem :: "u8 list \<Rightarrow> u8 list \<Rightarrow> nat option" where
  "memmem [] s = (if s = [] then Some 0 else None)"
| "memmem (b # bs) s = (if take (length s) (b # bs) = s then Some 0 else map_option Suc (memmem bs s))"

text \<open>The results of the writes are not looked at.\<close>

definition put_string :: "vmcoreinfo_arg \<Rightarrow> u8 list \<Rightarrow> vmcoreinfo_arg" where
  "put_string arg s = arg\<lparr>fd := fst (file_write (fd arg) s)\<rparr>"

definition OSRELEASE :: "u8 list" where
  "OSRELEASE = ascii ''OSRELEASE=''"

definition check_vmcoreinfo :: "kdump \<Rightarrow> page_fn" where
  "check_vmcoreinfo k arg addr len buf =
    bindR (if search_within_page arg then Inr False else strncmp_is OSRELEASE buf 0) (\<lambda>starts.
    if starts then
      bindR (buf_strlen buf) (\<lambda>vmcoreinfo_len.
        let arg = put_string arg (take vmcoreinfo_len buf);
            arg = arg\<lparr>found_count := found_count arg + 1\<rparr>
        in if should_continue arg then Inr (put_string arg (ascii ''---'' @ [0x0a]), 0)
        else Inr (arg, -1))
    else if search_within_page arg then
      (case memmem (take len buf) OSRELEASE of
         None \<Rightarrow> Inr (arg, 0)
       | Some found \<Rightarrow>
         (case kdump_read_string k (addr + of_nat found) of (st, str) \<Rightarrow>
          if st \<noteq> KDUMP_OK then Inr (arg, -1)
          else
            let arg = put_string arg str
            in if should_continue arg then Inr (put_string arg (ascii ''---'' @ [0x0a]), 0)
            else Inr (arg, -1)))
    else Inr (arg, 0))"

section \<open>The pages that are present\<close>

text \<open>How a turn of the loops ends: they go on, return, exit with a failure, or crash.\<close>

datatype turn = Go | Return int | Crash crash

definition page_turn :: "kdump \<Rightarrow> memory_info \<Rightarrow> page_fn \<Rightarrow> bool \<Rightarrow> u64 \<Rightarrow>
    u8 list \<times> vmcoreinfo_arg \<times> u64 \<times> meter \<Rightarrow> turn \<times> u8 list \<times> vmcoreinfo_arg \<times> u64 \<times> meter" where
  "page_turn k mi fn persist offset st =
    (case st of (buf, arg, pages_read, m) \<Rightarrow>
     case kdump_read k (push_bit (unat (page_shift mi)) offset) (page_size mi) of (ks, data) \<Rightarrow>
     let buf = patch buf 0 data;
         m = progress_update k False (page_size mi) m
     in if ks \<noteq> KDUMP_OK then (if persist then Go else Crash Exit_failure, buf, arg, pages_read, m)
     else case fn arg (push_bit (unat (page_shift mi)) offset) (length data) buf of
       Inl e \<Rightarrow> (Crash e, buf, arg, pages_read + 1, m)
     | Inr (arg, rv) \<Rightarrow>
       if rv < 0 then (Return rv, buf, arg, pages_read + 1, progress_complete k m)
       else (Go, buf, arg, pages_read + 1, m))"

text \<open>The inner loop, over the page frames from \<open>offset\<close> to \<open>stop\<close>.\<close>

function page_loop :: "kdump \<Rightarrow> memory_info \<Rightarrow> page_fn \<Rightarrow> bool \<Rightarrow> u64 \<Rightarrow> u64 \<Rightarrow>
    u8 list \<times> vmcoreinfo_arg \<times> u64 \<times> meter \<Rightarrow> turn \<times> u8 list \<times> vmcoreinfo_arg \<times> u64 \<times> meter" where
  "page_loop k mi fn persist offset stop st =
    (if offset < stop then
       (case page_turn k mi fn persist offset st of
          (Go, st) \<Rightarrow> page_loop k mi fn persist (offset + 1) stop st
        | (t, st) \<Rightarrow> (t, st))
     else (Go, st))"
  by pat_completeness auto
termination
proof (relation "measure (\<lambda>(k, mi, fn, persist, offset, stop, st). unat stop - unat offset)", goal_cases)
  case 1
  show ?case by simp
next
  case (2 k mi fn persist offset stop st)
  then have "unat (offset + 1) = Suc (unat offset)" by (intro unat_Suc_less)
  with 2 show ?case by (simp add: word_less_nat_alt)
qed

declare page_loop.simps [simp del]

text \<open>
  The outer loop, over the ranges of the bitmap; \<open>None\<close> when it does not end. It ends
  with a \<open>Return\<close> or a \<open>Crash\<close>, never with \<open>Go\<close>.
\<close>

partial_function (option) range_loop :: "kdump \<Rightarrow> memory_info \<Rightarrow> page_fn \<Rightarrow> bool \<Rightarrow> bool \<Rightarrow> u64 \<Rightarrow>
    u8 list \<times> vmcoreinfo_arg \<times> u64 \<times> meter \<Rightarrow> (turn \<times> u8 list \<times> vmcoreinfo_arg \<times> u64 \<times> meter) option" where
  "range_loop k mi fn verbose persist addr st =
    (case kdump_bmp_find_set k addr of (ks, begin1) \<Rightarrow>
     if ks = KDUMP_ERR_NODATA then Some (Return 0, st)
     else if ks \<noteq> KDUMP_OK then Some (Crash Exit_failure, st)
     else case kdump_bmp_find_clear k begin1 of (ks, end1) \<Rightarrow>
     if ks \<noteq> KDUMP_OK then Some (Crash Exit_failure, st)
     else case st of (buf, arg, pages_read, m) \<Rightarrow>
     let m = progress_init k verbose (push_bit (unat (page_shift mi)) (end1 - begin1)) m in
     case page_loop k mi fn persist begin1 end1 (buf, arg, pages_read, m) of (t, buf, arg, pages_read, m) \<Rightarrow>
     if t = Go then range_loop k mi fn verbose persist end1 (buf, arg, pages_read, progress_complete k m)
     else Some (t, buf, arg, pages_read, m))"

text \<open>\<open>junk\<close> is what \<open>malloc\<close> returns, \<open>m0\<close> the unset progress.\<close>

definition count_pages :: "kdump \<Rightarrow> memory_info \<Rightarrow> page_fn \<Rightarrow> bool \<Rightarrow> bool \<Rightarrow> u8 list \<Rightarrow> meter \<Rightarrow>
    vmcoreinfo_arg \<Rightarrow> (turn \<times> vmcoreinfo_arg \<times> u64 \<times> meter) option" where
  "count_pages k mi fn verbose persist junk m0 arg =
    map_option (\<lambda>(t, buf, arg, pages_read, m). (t, arg, pages_read, m))
      (range_loop k mi fn verbose persist 0 (junk, arg, 0, m0))"

section \<open>The program\<close>

text \<open>The options \<open>getopt_long\<close> returns, with the results of the calls of \<open>open\<close>.\<close>

datatype dump_opt = Opt_help | Opt_core bool | Opt_output "ofile option" | Opt_vmcoreinfo | Opt_vmcoreinfo_all
  | Opt_verbose | Opt_persist | Opt_flexible | Opt_invalid

record dump_settings =
  has_core :: bool
  via :: vmcoreinfo_arg
  check_op :: bool
  dump_verbose :: bool
  dump_persist :: bool

fun dump_options :: "dump_opt list \<Rightarrow> dump_settings \<Rightarrow> int + dump_settings" where
  "dump_options [] s = Inr s"
| "dump_options (Opt_help # os) s = Inl 0"
| "dump_options (Opt_core ok # os) s = (if ok then dump_options os (s\<lparr>has_core := True\<rparr>) else Inl 1)"
| "dump_options (Opt_output fo # os) s = (case fo of None \<Rightarrow> Inl 1
    | Some f \<Rightarrow> dump_options os (s\<lparr>via := (via s)\<lparr>fd := f\<rparr>\<rparr>))"
| "dump_options (Opt_vmcoreinfo_all # os) s =
    dump_options os (s\<lparr>via := (via s)\<lparr>should_continue := True\<rparr>, check_op := True\<rparr>)"
| "dump_options (Opt_vmcoreinfo # os) s = dump_options os (s\<lparr>check_op := True\<rparr>)"
| "dump_options (Opt_verbose # os) s = dump_options os (s\<lparr>dump_verbose := True\<rparr>)"
| "dump_options (Opt_persist # os) s = dump_options os (s\<lparr>dump_persist := True\<rparr>)"
| "dump_options (Opt_flexible # os) s = dump_options os (s\<lparr>via := (via s)\<lparr>search_within_page := True\<rparr>\<rparr>)"
| "dump_options (Opt_invalid # os) s = Inl 1"

definition dump_defaults :: "ofile \<Rightarrow> dump_settings" where
  "dump_defaults stdout1 = \<lparr>has_core = False,
    via = \<lparr>fd = stdout1, should_continue = False, found_count = 0, search_within_page = False\<rparr>,
    check_op = False, dump_verbose = False, dump_persist = False\<rparr>"

text \<open>The message at the end, and how the program ends: an exit value, the output and the message.\<close>

datatype report = Found_several int | Not_found | Silent

definition final_report :: "bool \<Rightarrow> int \<Rightarrow> int \<Rightarrow> report" where
  "final_report checked rv found =
    (if checked \<and> found > 1 then Found_several found
     else if rv = 0 \<and> found = 0 \<and> checked then Not_found
     else Silent)"

definition dumpphys_main :: "kdump \<Rightarrow> dump_opt list \<Rightarrow> u8 list \<Rightarrow> meter \<Rightarrow> ofile \<Rightarrow>
    (crash + int \<times> ofile \<times> report) option" where
  "dumpphys_main k opts junk m0 stdout1 =
    (case dump_options opts (dump_defaults stdout1) of
       Inl rv \<Rightarrow> Some (Inr (rv, stdout1, Silent))
     | Inr s \<Rightarrow>
       if \<not> has_core s then Some (Inl Exit_failure)
       else if \<not> kdump_new k then Some (Inl Exit_failure)
       else if \<not> kdump_set_fd k then Some (Inl Exit_failure)
       else if \<not> kdump_set_ostype k then Some (Inl Exit_failure)
       else case get_memory_info k of
         Inl e \<Rightarrow> Some (Inl e)
       | Inr mi \<Rightarrow>
         case count_pages k mi (if check_op s then check_vmcoreinfo k else dump_page)
           (dump_verbose s) (dump_persist s) junk m0 (via s) of
           None \<Rightarrow> None
         | Some (t, arg, pages_read, m) \<Rightarrow>
           (case t of
              Return rv \<Rightarrow> Some (Inr (if rv \<noteq> 0 then 1 else 0, fd arg, final_report (check_op s) rv (found_count arg)))
            | Crash e \<Rightarrow> Some (Inl e)
            | Go \<Rightarrow> None))"

end
