(* ===== verification/DumpPhysProps.thy ===== *)
theory DumpPhysProps
  imports DumpPhys
begin

text \<open>
  What \<open>dumpphys\<close> does: the times of the progress stay normalised; the loops visit the
  page frames of the bitmap in ascending order, whatever is printed (\<open>count_pages_visits\<close>);
  so the dump is the memory, page after page, and the search finds the first page that
  starts like a VMCOREINFO note.
\<close>

section \<open>Times and progress\<close>

definition normal_time :: "timespec \<Rightarrow> bool" where
  "normal_time t \<longleftrightarrow> 0 \<le> tv_nsec t \<and> tv_nsec t < 1000000000"

definition nanos :: "timespec \<Rightarrow> int" where
  "nanos t = tv_sec t * 1000000000 + tv_nsec t"

lemma timespec_sub_normal: "normal_time a \<Longrightarrow> normal_time b \<Longrightarrow> normal_time (timespec_sub a b)"
  by (auto simp: normal_time_def timespec_sub_def Let_def)

lemma nanos_sub: "nanos (timespec_sub a b) = nanos a - nanos b"
  by (simp add: nanos_def timespec_sub_def Let_def left_diff_distrib)

lemma timespec_cmp_less:
  assumes "normal_time a" and "normal_time b"
  shows "timespec_cmp a b < 0 \<longleftrightarrow> nanos a < nanos b"
  using assms by (auto simp: timespec_cmp_def nanos_def normal_time_def)

definition normal_meter :: "meter \<Rightarrow> bool" where
  "normal_meter m \<longleftrightarrow> (prog_print (prog m) \<longrightarrow> normal_time (start_time (prog m)) \<and>
      normal_time (last_update (prog m)) \<and> normal_time (update_interval (prog m))) \<and>
    (\<forall>(c, t, e) \<in> set (lines m). normal_time e)"

lemma progress_update_quiet [simp]: "\<not> prog_print (prog m) \<Longrightarrow> progress_update k force b m = m"
  by (simp add: progress_update_def)

lemma progress_update_prints:
  assumes "prog_print (prog m)"
  shows "lines (progress_update k force b m) =
    (if \<not> force \<and> timespec_cmp (timespec_sub (clock k (ticks m)) (last_update (prog m))) (update_interval (prog m)) < 0
     then lines m
     else lines m @ [(current_bytes (prog m) + b, total_bytes (prog m), timespec_sub (clock k (ticks m)) (start_time (prog m)))])"
  using assms by (simp add: progress_update_def Let_def)

lemma normal_meter_update:
  assumes "normal_meter m" and "\<And>n. normal_time (clock k n)"
  shows "normal_meter (progress_update k force b m)"
proof (cases "prog_print (prog m)")
  case True
  then have n: "normal_time (start_time (prog m))" "normal_time (last_update (prog m))"
    "normal_time (update_interval (prog m))" "\<forall>(c, t, e) \<in> set (lines m). normal_time e"
    using assms(1) unfolding normal_meter_def by blast+
  have "normal_time (timespec_sub (clock k (ticks m)) (start_time (prog m)))"
    by (rule timespec_sub_normal [OF assms(2) n(1)])
  then show ?thesis using n assms(2) True by (simp add: normal_meter_def progress_update_def Let_def)
next
  case False
  then show ?thesis using assms(1) by simp
qed

text \<open>
  C39: All times stay normalised (nanoseconds between 0 and one second) through the three
  progress functions, on a clock that gives normalised times; a line is printed exactly
  when it is forced or the interval has passed since the last line; and the time in it is
  the time since the start.
\<close>
lemma progress_times:
  assumes "\<forall>n. normal_time (clock k n)" and "normal_meter m"
  shows "normal_meter (progress_init k verbose b m) \<and> normal_meter (progress_update k force b m) \<and>
    normal_meter (progress_complete k m) \<and>
    (prog_print (prog m) \<longrightarrow> lines (progress_update k force b m) =
      (if force \<or> nanos (update_interval (prog m)) \<le> nanos (clock k (ticks m)) - nanos (last_update (prog m))
       then lines m @ [(current_bytes (prog m) + b, total_bytes (prog m),
         timespec_sub (clock k (ticks m)) (start_time (prog m)))]
       else lines m))"
proof (intro conjI impI)
  have c: "normal_time (clock k n)" for n using assms(1) by blast
  show u: "normal_meter (progress_update k force b m)" for force b
    using assms(2) c by (rule normal_meter_update)
  show "normal_meter (progress_complete k m)"
    using u assms(2) by (simp add: progress_complete_def)
  show "normal_meter (progress_init k verbose b m)"
    using assms(2) c by (auto simp: normal_meter_def progress_init_def Let_def normal_time_def)
  assume p: "prog_print (prog m)"
  then have n: "normal_time (last_update (prog m))" "normal_time (update_interval (prog m))"
    using assms(2) by (simp_all add: normal_meter_def)
  show "lines (progress_update k force b m) =
      (if force \<or> nanos (update_interval (prog m)) \<le> nanos (clock k (ticks m)) - nanos (last_update (prog m))
       then lines m @ [(current_bytes (prog m) + b, total_bytes (prog m),
         timespec_sub (clock k (ticks m)) (start_time (prog m)))]
       else lines m)"
    using timespec_cmp_less [OF timespec_sub_normal [OF c n(1)] n(2)]
    by (auto simp: progress_update_prints [OF p] nanos_sub)
qed

section \<open>The page frames that are visited\<close>

text \<open>
  What the two searches of the bitmap return, for the set \<open>S\<close> of frames that are present:
  the next one that is present, or \<open>KDUMP_ERR_NODATA\<close>; and the next one that is not.
\<close>

definition bitmap_ok :: "kdump \<Rightarrow> u64 set \<Rightarrow> bool" where
  "bitmap_ok k S \<longleftrightarrow>
    (\<forall>i st j. kdump_bmp_find_set k i = (st, j) \<longrightarrow>
      (st = KDUMP_OK \<and> i \<le> j \<and> j \<in> S \<and> (\<forall>x. i \<le> x \<and> x < j \<longrightarrow> x \<notin> S)) \<or>
      (st = KDUMP_ERR_NODATA \<and> (\<forall>x. i \<le> x \<longrightarrow> x \<notin> S))) \<and>
    (\<forall>i st j. kdump_bmp_find_clear k i = (st, j) \<longrightarrow>
      st = KDUMP_OK \<and> i \<le> j \<and> j \<notin> S \<and> (\<forall>x. i \<le> x \<and> x < j \<longrightarrow> x \<in> S))"

text \<open>What is done with one page, and with a list of them, without the progress.\<close>

definition core_turn :: "kdump \<Rightarrow> memory_info \<Rightarrow> page_fn \<Rightarrow> bool \<Rightarrow> u64 \<Rightarrow> u8 list \<Rightarrow> vmcoreinfo_arg \<Rightarrow>
    turn \<times> u8 list \<times> vmcoreinfo_arg" where
  "core_turn k mi fn persist p buf arg =
    (case kdump_read k (push_bit (unat (page_shift mi)) p) (page_size mi) of (ks, data) \<Rightarrow>
     if ks \<noteq> KDUMP_OK then (if persist then Go else Crash Exit_failure, patch buf 0 data, arg)
     else case fn arg (push_bit (unat (page_shift mi)) p) (length data) (patch buf 0 data) of
       Inl e \<Rightarrow> (Crash e, patch buf 0 data, arg)
     | Inr (arg, rv) \<Rightarrow> (if rv < 0 then Return rv else Go, patch buf 0 data, arg))"

fun visits :: "kdump \<Rightarrow> memory_info \<Rightarrow> page_fn \<Rightarrow> bool \<Rightarrow> u64 list \<Rightarrow> u8 list \<Rightarrow> vmcoreinfo_arg \<Rightarrow>
    turn \<times> u8 list \<times> vmcoreinfo_arg" where
  "visits k mi fn persist [] buf arg = (Go, buf, arg)"
| "visits k mi fn persist (p # ps) buf arg =
    (case core_turn k mi fn persist p buf arg of (t, buf, arg) \<Rightarrow>
     if t = Go then visits k mi fn persist ps buf arg else (t, buf, arg))"

lemma visits_append:
  "visits k mi fn persist (xs @ ys) buf arg =
    (case visits k mi fn persist xs buf arg of (t, buf, arg) \<Rightarrow>
     if t = Go then visits k mi fn persist ys buf arg else (t, buf, arg))"
  by (induction xs arbitrary: buf arg) (simp_all split: prod.split)

lemma page_turn_core:
  "\<exists>n' m'. page_turn k mi fn persist p (buf, arg, n, m) =
    (case core_turn k mi fn persist p buf arg of (t, buf, arg) \<Rightarrow> (t, buf, arg, n', m'))"
  by (auto simp: page_turn_def core_turn_def Let_def split: prod.split sum.split)

text \<open>The frames of a range, and those of the bitmap from one on.\<close>

definition frames :: "u64 \<Rightarrow> u64 \<Rightarrow> u64 list" where
  "frames p q = map of_nat [unat p..<unat q]"

definition frames_from :: "u64 set \<Rightarrow> u64 \<Rightarrow> u64 list" where
  "frames_from S p = map of_nat (filter (\<lambda>i. of_nat i \<in> S) [unat p..<2 ^ 64])"

lemma frames_Cons: "p < q \<Longrightarrow> frames p q = p # frames (p + 1) q"
  by (simp add: frames_def unat_Suc_less word_less_nat_alt upt_conv_Cons)

lemma page_loop_visits:
  "\<exists>n' m'. page_loop k mi fn persist p q (buf, arg, n, m) =
    (case visits k mi fn persist (frames p q) buf arg of (t, buf, arg) \<Rightarrow> (t, buf, arg, n', m'))"
proof (induction "unat q - unat p" arbitrary: p buf arg n m)
  case 0
  then have "\<not> p < q" by (simp add: word_less_nat_alt)
  with 0 show ?case by (simp add: page_loop.simps frames_def)
next
  case (Suc d)
  then have lt: "p < q" by (simp add: word_less_nat_alt)
  obtain n1 m1 where t: "page_turn k mi fn persist p (buf, arg, n, m) =
    (case core_turn k mi fn persist p buf arg of (t, buf, arg) \<Rightarrow> (t, buf, arg, n1, m1))"
    using page_turn_core by blast
  obtain t1 b1 a1 where c: "core_turn k mi fn persist p buf arg = (t1, b1, a1)" by (metis prod_cases3)
  show ?case
  proof (cases "t1 = Go")
    case True
    have "d = unat q - unat (p + 1)" using Suc.hyps(2) by (simp add: unat_Suc_less [OF lt])
    note IH = Suc.hyps(1) [OF this, of b1 a1 n1 m1]
    have "page_loop k mi fn persist p q (buf, arg, n, m) = page_loop k mi fn persist (p + 1) q (b1, a1, n1, m1)"
      using lt t c True by (subst page_loop.simps) simp
    moreover have "visits k mi fn persist (frames p q) buf arg = visits k mi fn persist (frames (p + 1) q) b1 a1"
      using c True by (simp add: frames_Cons [OF lt])
    ultimately show ?thesis using IH by simp
  next
    case False
    have "page_loop k mi fn persist p q (buf, arg, n, m) = (t1, b1, a1, n1, m1)"
      using lt t c False by (subst page_loop.simps) (simp split: turn.split)
    moreover have "visits k mi fn persist (frames p q) buf arg = (t1, b1, a1)"
      using c False by (simp add: frames_Cons [OF lt])
    ultimately show ?thesis by simp
  qed
qed

lemma filter_range:
  assumes "n \<le> 2 ^ 64"
  shows "(\<And>x. m \<le> unat x \<Longrightarrow> unat x < n \<Longrightarrow> x \<notin> S) \<Longrightarrow> filter (\<lambda>i. (of_nat i :: u64) \<in> S) [m..<n] = []"
    and "(\<And>x. m \<le> unat x \<Longrightarrow> unat x < n \<Longrightarrow> x \<in> S) \<Longrightarrow> filter (\<lambda>i. (of_nat i :: u64) \<in> S) [m..<n] = [m..<n]"
proof -
  have u: "unat (of_nat i :: u64) = i" if "i < n" for i
    using that assms by (simp add: unsigned_of_nat take_bit_nat_eq_self)
  show "(\<And>x. m \<le> unat x \<Longrightarrow> unat x < n \<Longrightarrow> x \<notin> S) \<Longrightarrow> filter (\<lambda>i. (of_nat i :: u64) \<in> S) [m..<n] = []"
    using u by (simp add: filter_empty_conv)
  show "(\<And>x. m \<le> unat x \<Longrightarrow> unat x < n \<Longrightarrow> x \<in> S) \<Longrightarrow> filter (\<lambda>i. (of_nat i :: u64) \<in> S) [m..<n] = [m..<n]"
    using u by (simp add: filter_id_conv)
qed

lemma frames_from_empty:
  "(\<And>x. p \<le> x \<Longrightarrow> x \<notin> S) \<Longrightarrow> frames_from S p = []"
  using filter_range(1) [of "2 ^ 64" "unat p" S] by (simp add: frames_from_def word_le_nat_alt)

lemma frames_from_split:
  assumes "p \<le> b" and "b \<le> e"
    and "\<And>x. p \<le> x \<Longrightarrow> x < b \<Longrightarrow> x \<notin> S" and "\<And>x. b \<le> x \<Longrightarrow> x < e \<Longrightarrow> x \<in> S"
  shows "frames_from S p = frames b e @ frames_from S e"
proof -
  let ?f = "filter (\<lambda>i. (of_nat i :: u64) \<in> S)"
  have le: "unat p \<le> unat b" "unat b \<le> unat e" "unat e \<le> 2 ^ 64"
    using assms(1,2) unat_u64_less [of e] by (simp_all add: word_le_nat_alt)
  then have "[unat p..<2 ^ 64] = [unat p..<unat b] @ [unat b..<unat e] @ [unat e..<2 ^ 64]"
    by (metis le_trans upt_split)
  moreover have "?f [unat p..<unat b] = []"
    using assms(3) le by (intro filter_range(1)) (simp_all add: word_le_nat_alt word_less_nat_alt)
  moreover have "?f [unat b..<unat e] = [unat b..<unat e]"
    using assms(4) le by (intro filter_range(2)) (simp_all add: word_le_nat_alt word_less_nat_alt)
  ultimately show ?thesis unfolding frames_from_def frames_def by (simp only: filter_append append_Nil map_append)
qed

lemma frames_from_sorted: "frames_from S 0 = sorted_list_of_set S"
proof -
  let ?xs = "filter (\<lambda>i. (of_nat i :: u64) \<in> S) [0..<2 ^ 64]"
  have u: "unat (of_nat i :: u64) = i" if "i < 2 ^ 64" for i
    using that by (simp add: unsigned_of_nat take_bit_nat_eq_self)
  have lt: "i < 2 ^ 64" if "i \<in> set ?xs" for i using that by (simp only: set_filter set_upt) simp
  have "sorted_wrt (\<lambda>i j. i < j) ?xs" by (simp only: sorted_wrt_filter sorted_wrt_upt)
  then have "sorted_wrt (\<lambda>i j. (of_nat i :: u64) < of_nat j) ?xs"
  proof (rule sorted_wrt_mono_rel [rotated])
    fix i j assume "i \<in> set ?xs" and "j \<in> set ?xs" and "i < j"
    then show "(of_nat i :: u64) < of_nat j"
      unfolding word_less_nat_alt by (simp only: u [OF lt])
  qed
  then have "sorted_wrt (<) (frames_from S 0)" by (simp add: frames_from_def sorted_wrt_map del: sorted_wrt_filter)
  moreover have "set (frames_from S 0) = S"
  proof
    show "S \<subseteq> set (frames_from S 0)"
    proof
      fix x assume "x \<in> S"
      then have "unat x \<in> set ?xs" using unat_u64_less [of x] by (simp only: set_filter set_upt) simp
      moreover have "x = of_nat (unat x)" by simp
      ultimately show "x \<in> set (frames_from S 0)" unfolding frames_from_def list.set_map unat_0 by (rule rev_image_eqI)
    qed
  qed (auto simp: frames_from_def)
  ultimately show ?thesis using sorted_list_of_set.idem_if_sorted_distinct [of "frames_from S 0"]
    by (simp add: strict_sorted_iff)
qed

text \<open>The loops of the program: they return, and do to the frames of the bitmap what \<open>visits\<close> does.\<close>

definition ended :: "turn \<Rightarrow> turn" where
  "ended t = (if t = Go then Return 0 else t)"

lemma range_loop_visits:
  assumes "bitmap_ok k S"
  shows "\<exists>n' m'. range_loop k mi fn verbose persist addr (buf, arg, n, m) =
    (case visits k mi fn persist (frames_from S addr) buf arg of (t, buf, arg) \<Rightarrow> Some (ended t, buf, arg, n', m'))"
proof (induction "2 ^ 64 - unat addr" arbitrary: addr buf arg n m rule: less_induct)
  case less
  obtain ks b where f: "kdump_bmp_find_set k addr = (ks, b)" by force
  show ?case
  proof (cases "ks = KDUMP_OK")
    case True
    then have b: "addr \<le> b" "b \<in> S" "\<And>x. addr \<le> x \<Longrightarrow> x < b \<Longrightarrow> x \<notin> S"
      using assms f unfolding bitmap_ok_def by blast+
    obtain kc e where c: "kdump_bmp_find_clear k b = (kc, e)" by force
    then have e: "kc = KDUMP_OK" "b \<le> e" "e \<notin> S" "\<And>x. b \<le> x \<Longrightarrow> x < e \<Longrightarrow> x \<in> S"
      using assms unfolding bitmap_ok_def by blast+
    have "b < e" using b(2) e(2,3) by (metis order_le_less)
    then have dec: "2 ^ 64 - unat e < 2 ^ 64 - unat addr"
      using b(1) unat_u64_less [of e] by (simp add: word_le_nat_alt word_less_nat_alt)
    let ?m = "progress_init k verbose (push_bit (unat (page_shift mi)) (e - b)) m"
    obtain t b1 a1 where v: "visits k mi fn persist (frames b e) buf arg = (t, b1, a1)" by (metis prod_cases3)
    obtain n1 m1 where pl: "page_loop k mi fn persist b e (buf, arg, n, ?m) = (t, b1, a1, n1, m1)"
      using page_loop_visits [of k mi fn persist b e buf arg n ?m] v by auto
    have vs: "visits k mi fn persist (frames_from S addr) buf arg =
      (if t = Go then visits k mi fn persist (frames_from S e) b1 a1 else (t, b1, a1))"
      using frames_from_split [OF b(1) e(2) b(3) e(4)] v by (simp add: visits_append)
    have rl: "range_loop k mi fn verbose persist addr (buf, arg, n, m) =
      (if t = Go then range_loop k mi fn verbose persist e (b1, a1, n1, progress_complete k m1)
       else Some (t, b1, a1, n1, m1))"
      using f True c e(1) pl by (subst range_loop.simps) (simp add: Let_def)
    show ?thesis
    proof (cases "t = Go")
      case True
      then show ?thesis using less [OF dec, of b1 a1 n1 "progress_complete k m1"] vs rl by simp
    next
      case False
      then show ?thesis using vs rl by (simp add: ended_def)
    qed
  next
    case False
    then have "ks = KDUMP_ERR_NODATA" "\<And>x. addr \<le> x \<Longrightarrow> x \<notin> S"
      using assms f unfolding bitmap_ok_def by blast+
    then show ?thesis using f by (subst range_loop.simps) (simp add: frames_from_empty ended_def)
  qed
qed

lemma count_pages_visits:
  assumes "bitmap_ok k S" and "visits k mi fn persist (sorted_list_of_set S) junk arg = (t, buf, arg')"
  shows "\<exists>n m. count_pages k mi fn verbose persist junk m0 arg = Some (ended t, arg', n, m)"
  using range_loop_visits [OF assms(1), of mi fn verbose persist 0 junk arg 0 m0] assms(2)
  by (auto simp: count_pages_def frames_from_sorted)

end
