(* ===== verification/DumpPhysRun.thy ===== *)
theory DumpPhysRun
  imports DumpPhysProps
begin

text \<open>
  Whole runs of \<open>dumpphys\<close> on a readable memory (\<open>memory\<close>): the dump, the search for the
  first VMCOREINFO note and for all of them, and what the program says and returns.
\<close>

section \<open>A readable memory and an output that takes all\<close>

text \<open>\<open>S\<close> is the set of page frames, \<open>page\<close> their contents.\<close>

definition memory :: "kdump \<Rightarrow> memory_info \<Rightarrow> u64 set \<Rightarrow> (u64 \<Rightarrow> u8 list) \<Rightarrow> bool" where
  "memory k mi S page \<longleftrightarrow> kdump_new k \<and> kdump_set_fd k \<and> kdump_set_ostype k \<and>
    get_memory_info k = Inr mi \<and> bitmap_ok k S \<and> unat (page_size mi) \<le> MAX_RW_COUNT \<and>
    (\<forall>p \<in> S. kdump_read k (push_bit (unat (page_shift mi)) p) (page_size mi) = (KDUMP_OK, page p) \<and>
      length (page p) = unat (page_size mi))"

definition sink :: "ofile \<Rightarrow> bool" where
  "sink f \<longleftrightarrow> reliable f \<and> file_pos f = length (file_bytes f)"

lemma sink_write:
  assumes "sink f" and "length xs \<le> MAX_RW_COUNT"
  shows "\<exists>f'. file_write f xs = (f', int (length xs)) \<and> sink f' \<and> file_bytes f' = file_bytes f @ xs"
  using reliable_write [of f xs] assms by (auto simp: sink_def patch_end)

lemma core_turn_memory:
  assumes "memory k mi S page" and "p \<in> S" and "length buf = unat (page_size mi)"
  shows "core_turn k mi fn persist p buf arg =
    (case fn arg (push_bit (unat (page_shift mi)) p) (length (page p)) (page p) of
       Inl e \<Rightarrow> (Crash e, page p, arg)
     | Inr (arg, rv) \<Rightarrow> (if rv < 0 then Return rv else Go, page p, arg))"
proof -
  have r: "kdump_read k (push_bit (unat (page_shift mi)) p) (page_size mi) = (KDUMP_OK, page p)"
    and l: "length (page p) = length buf"
    using assms unfolding memory_def by auto
  have "patch buf 0 (page p) = page p" using l by (auto simp: patch_def)
  then show ?thesis using r by (simp add: core_turn_def split: sum.split)
qed

lemma memory_length: "memory k mi S page \<Longrightarrow> p \<in> S \<Longrightarrow> length (page p) = unat (page_size mi)"
  by (simp add: memory_def)

text \<open>The end of the program after the loops.\<close>

lemma main_visits:
  assumes "memory k mi S page" and "dump_options opts (dump_defaults f) = Inr s" and "has_core s"
    and "visits k mi (if check_op s then check_vmcoreinfo k else dump_page) (dump_persist s)
      (sorted_list_of_set S) junk (via s) = (t, buf, arg)"
  shows "dumpphys_main k opts junk m0 f = (case ended t of
      Return rv \<Rightarrow> Some (Inr (if rv \<noteq> 0 then 1 else 0, fd arg, final_report (check_op s) rv (found_count arg)))
    | Crash e \<Rightarrow> Some (Inl e) | Go \<Rightarrow> None)"
proof -
  have k: "kdump_new k" "kdump_set_fd k" "kdump_set_ostype k" "get_memory_info k = Inr mi" "bitmap_ok k S"
    using assms(1) unfolding memory_def by blast+
  obtain n m where "count_pages k mi (if check_op s then check_vmcoreinfo k else dump_page)
      (dump_verbose s) (dump_persist s) junk m0 (via s) = Some (ended t, arg, n, m)"
    using count_pages_visits [OF k(5) assms(4)] by blast
  then show ?thesis using k assms(2,3) by (simp add: dumpphys_main_def)
qed

text \<open>The flags that do not change the result.\<close>

lemma quiet_options:
  "set opts \<subseteq> {Opt_verbose, Opt_persist} \<Longrightarrow>
    \<exists>v pe. dump_options opts s = Inr (s\<lparr>dump_verbose := v, dump_persist := pe\<rparr>)"
proof (induction opts arbitrary: s)
  case Nil
  have "s = s\<lparr>dump_verbose := dump_verbose s, dump_persist := dump_persist s\<rparr>" by simp
  then show ?case by (metis dump_options.simps(1))
next
  case (Cons opt opts)
  then consider "opt = Opt_verbose" | "opt = Opt_persist" by auto
  then show ?case
  proof cases
    case 1
    then show ?thesis using Cons.IH [of "s\<lparr>dump_verbose := True\<rparr>"] Cons.prems by simp
  next
    case 2
    then show ?thesis using Cons.IH [of "s\<lparr>dump_persist := True\<rparr>"] Cons.prems by auto
  qed
qed

section \<open>The dump\<close>

lemma visits_dump:
  assumes "memory k mi S page" and "set ps \<subseteq> S" and "length buf = unat (page_size mi)" and "sink (fd arg)"
  shows "\<exists>buf' f'. visits k mi dump_page persist ps buf arg = (Go, buf', arg\<lparr>fd := f'\<rparr>) \<and> sink f' \<and>
    file_bytes f' = file_bytes (fd arg) @ concat (map page ps)"
  using assms(2-4)
proof (induction ps arbitrary: buf arg)
  case Nil
  have "arg = arg\<lparr>fd := fd arg\<rparr>" by simp
  then show ?case using Nil by (metis append_Nil2 concat.simps(1) list.map(1) visits.simps(1))
next
  case (Cons p ps)
  then have p: "p \<in> S" by simp
  have l: "length (page p) = unat (page_size mi)" "length (page p) \<le> MAX_RW_COUNT"
    using assms(1) p by (simp_all add: memory_def)
  obtain f1 where w: "file_write (fd arg) (page p) = (f1, int (length (page p)))" "sink f1"
    "file_bytes f1 = file_bytes (fd arg) @ page p"
    using sink_write [OF Cons.prems(3) l(2)] by blast
  have "core_turn k mi dump_page persist p buf arg = (Go, page p, arg\<lparr>fd := f1\<rparr>)"
    using core_turn_memory [OF assms(1) p Cons.prems(2)] w(1) by (simp add: dump_page_def)
  moreover obtain buf' f' where "visits k mi dump_page persist ps (page p) (arg\<lparr>fd := f1\<rparr>) =
      (Go, buf', arg\<lparr>fd := f1\<rparr>\<lparr>fd := f'\<rparr>)" "sink f'" "file_bytes f' = file_bytes f1 @ concat (map page ps)"
    using Cons.IH [of "page p" "arg\<lparr>fd := f1\<rparr>"] Cons.prems(1) l(1) w(2) by auto
  ultimately show ?case using w(3) by (intro exI [of _ buf'] exI [of _ f']) simp
qed

text \<open>
  C36: On a core dump whose pages can be read and an output that takes every write, with or
  without \<open>-v\<close> and \<open>-p\<close>, the program returns, with exit value 0, and has appended the
  contents of the page frames that are present, in ascending order, and nothing else.
\<close>
lemma dumpphys_dumps:
  assumes "memory k mi S page" and "length junk = unat (page_size mi)" and "sink f"
    and "set opts \<subseteq> {Opt_verbose, Opt_persist}"
  shows "\<exists>f'. dumpphys_main k (Opt_core True # opts) junk m0 f = Some (Inr (0, f', Silent)) \<and>
    file_bytes f' = file_bytes f @ concat (map page (sorted_list_of_set S))"
proof -
  let ?s = "(dump_defaults f)\<lparr>has_core := True\<rparr>"
  obtain v pe where o: "dump_options (Opt_core True # opts) (dump_defaults f) =
      Inr (?s\<lparr>dump_verbose := v, dump_persist := pe\<rparr>)"
    using quiet_options [OF assms(4), of ?s] by auto
  obtain buf' f' where "visits k mi dump_page pe (sorted_list_of_set S) junk (via ?s) = (Go, buf', (via ?s)\<lparr>fd := f'\<rparr>)"
    and b: "file_bytes f' = file_bytes f @ concat (map page (sorted_list_of_set S))"
    using visits_dump [OF assms(1) _ assms(2), of "sorted_list_of_set S" "via ?s" pe] assms(3)
    by (auto simp: dump_defaults_def)
  then have "dumpphys_main k (Opt_core True # opts) junk m0 f = Some (Inr (0, f', Silent))"
    using main_visits [OF assms(1) o, of junk Go buf' "(via ?s)\<lparr>fd := f'\<rparr>"]
    by (simp add: dump_defaults_def ended_def final_report_def)
  with b show ?thesis by blast
qed

section \<open>The search\<close>

text \<open>A page that starts like a note, and the string in it.\<close>

definition is_info :: "u8 list \<Rightarrow> bool" where
  "is_info pg \<longleftrightarrow> take 10 pg = OSRELEASE"

definition info :: "u8 list \<Rightarrow> u8 list" where
  "info pg = takeWhile (\<lambda>b. b \<noteq> 0) pg"

lemma length_OSRELEASE: "length OSRELEASE = 10"
  by (simp add: OSRELEASE_def ascii_def)

lemma strncmp_is_window: "p + length s \<le> length buf \<Longrightarrow> strncmp_is s buf p = Inr (window buf p (length s) = s)"
  by (induction s arbitrary: p) (simp_all add: window_1 window_Suc)

lemma strncmp_is_info: "10 \<le> length pg \<Longrightarrow> strncmp_is OSRELEASE pg 0 = Inr (is_info pg)"
  using strncmp_is_window [of 0 OSRELEASE pg] by (simp add: length_OSRELEASE is_info_def window_def)

lemma take_info: "take (length (info pg)) pg = info pg"
  by (simp add: info_def) (metis takeWhile_eq_take)

lemma length_info: "length (info pg) \<le> length pg"
  by (simp add: info_def length_takeWhile_le)

text \<open>One page in a search that does not look inside of pages.\<close>

lemma check_page:
  assumes "10 \<le> length pg" and "\<not> search_within_page arg"
  shows "check_vmcoreinfo k arg addr len pg =
    (if \<not> is_info pg then Inr (arg, 0)
     else if 0 \<notin> set pg then Inl Overread
     else let arg = (put_string arg (info pg))\<lparr>found_count := found_count arg + 1\<rparr>
       in Inr (if should_continue arg then (put_string arg (ascii ''---'' @ [0x0a]), 0) else (arg, -1)))"
  using assms by (simp add: check_vmcoreinfo_def strncmp_is_info buf_strlen_def Let_def put_string_def
    take_info [unfolded info_def] info_def)

lemma sink_put_string:
  assumes "sink (fd arg)" and "length xs \<le> MAX_RW_COUNT"
  shows "\<exists>f'. put_string arg xs = arg\<lparr>fd := f'\<rparr> \<and> sink f' \<and> file_bytes f' = file_bytes (fd arg) @ xs"
  using sink_write [OF assms] by (auto simp: put_string_def)

lemma visits_search:
  assumes "memory k mi S page" and "10 \<le> unat (page_size mi)" and "set ps \<subseteq> S"
    and "length buf = unat (page_size mi)" and "sink (fd arg)"
    and "\<not> search_within_page arg" and "\<not> should_continue arg"
  shows "case find (\<lambda>p. is_info (page p)) ps of
      None \<Rightarrow> \<exists>buf'. visits k mi (check_vmcoreinfo k) persist ps buf arg = (Go, buf', arg)
    | Some p \<Rightarrow>
        if 0 \<notin> set (page p) then \<exists>buf'. visits k mi (check_vmcoreinfo k) persist ps buf arg = (Crash Overread, buf', arg)
        else \<exists>buf' f'. visits k mi (check_vmcoreinfo k) persist ps buf arg =
          (Return (-1), buf', arg\<lparr>fd := f', found_count := found_count arg + 1\<rparr>) \<and>
          file_bytes f' = file_bytes (fd arg) @ info (page p)"
  using assms(3,4)
proof (induction ps arbitrary: buf)
  case (Cons p ps)
  then have p: "p \<in> S" by simp
  have l: "length (page p) = unat (page_size mi)" "length (page p) \<le> MAX_RW_COUNT" "10 \<le> length (page p)"
    using assms(1,2) p by (simp_all add: memory_def)
  note turn = core_turn_memory [OF assms(1) p Cons.prems(2), of "check_vmcoreinfo k" persist arg,
    unfolded check_page [OF l(3) assms(6)]]
  show ?case
  proof (cases "is_info (page p)")
    case False
    then have "core_turn k mi (check_vmcoreinfo k) persist p buf arg = (Go, page p, arg)"
      using turn by simp
    then have eqs: "visits k mi (check_vmcoreinfo k) persist (p # ps) buf arg =
        visits k mi (check_vmcoreinfo k) persist ps (page p) arg"
      "find (\<lambda>p. is_info (page p)) (p # ps) = find (\<lambda>p. is_info (page p)) ps"
      using False by simp_all
    show ?thesis unfolding eqs by (rule Cons.IH) (use Cons.prems(1) l(1) in simp_all)
  next
    case True
    obtain f' where w: "put_string arg (info (page p)) = arg\<lparr>fd := f'\<rparr>"
      "file_bytes f' = file_bytes (fd arg) @ info (page p)"
      using sink_put_string [OF assms(5), of "info (page p)"] length_info [of "page p"] l(2) by auto
    show ?thesis
    proof (cases "0 \<in> set (page p)")
      case True
      then have "visits k mi (check_vmcoreinfo k) persist (p # ps) buf arg =
          (Return (-1), page p, arg\<lparr>fd := f', found_count := found_count arg + 1\<rparr>)"
        using turn \<open>is_info (page p)\<close> w assms(7) by (simp add: Let_def)
      then show ?thesis using True \<open>is_info (page p)\<close> w(2) by auto
    next
      case False
      then show ?thesis using turn \<open>is_info (page p)\<close> by simp
    qed
  qed
qed simp

text \<open>With \<open>-I\<close>: every note, each followed by a line of dashes.\<close>

definition separator :: "u8 list" where
  "separator = ascii ''---'' @ [0x0a]"

definition all_infos :: "(u64 \<Rightarrow> u8 list) \<Rightarrow> u64 list \<Rightarrow> u8 list list" where
  "all_infos page ps = map (\<lambda>p. info (page p)) (filter (\<lambda>p. is_info (page p)) ps)"

lemma visits_search_all:
  assumes "memory k mi S page" and "10 \<le> unat (page_size mi)" and "set ps \<subseteq> S"
    and "length buf = unat (page_size mi)" and "sink (fd arg)"
    and "\<not> search_within_page arg" and "should_continue arg"
    and "\<forall>p \<in> S. is_info (page p) \<longrightarrow> 0 \<in> set (page p)"
  shows "\<exists>buf' f'. visits k mi (check_vmcoreinfo k) persist ps buf arg =
      (Go, buf', arg\<lparr>fd := f', found_count := found_count arg + int (length (all_infos page ps))\<rparr>) \<and>
    file_bytes f' = file_bytes (fd arg) @ concat (map (\<lambda>s. s @ separator) (all_infos page ps))"
  using assms(3-7)
proof (induction ps arbitrary: buf arg)
  case Nil
  have "arg = arg\<lparr>fd := fd arg, found_count := found_count arg + int (length (all_infos page []))\<rparr>"
    by (simp add: all_infos_def)
  then show ?case by (intro exI [of _ buf] exI [of _ "fd arg"]) (simp add: all_infos_def)
next
  case (Cons p ps)
  then have p: "p \<in> S" by simp
  have l: "length (page p) = unat (page_size mi)" "length (page p) \<le> MAX_RW_COUNT" "10 \<le> length (page p)"
    using assms(1,2) p by (simp_all add: memory_def)
  note turn = core_turn_memory [OF assms(1) p Cons.prems(2), of "check_vmcoreinfo k" persist arg,
    unfolded check_page [OF l(3) Cons.prems(4)]]
  show ?case
  proof (cases "is_info (page p)")
    case False
    then have eqs: "visits k mi (check_vmcoreinfo k) persist (p # ps) buf arg =
        visits k mi (check_vmcoreinfo k) persist ps (page p) arg"
      "all_infos page (p # ps) = all_infos page ps"
      using turn by (simp_all add: all_infos_def)
    show ?thesis unfolding eqs by (rule Cons.IH) (use Cons.prems l(1) in simp_all)
  next
    case True
    obtain f1 where f1: "put_string arg (info (page p)) = arg\<lparr>fd := f1\<rparr>" "sink f1"
      "file_bytes f1 = file_bytes (fd arg) @ info (page p)"
      using sink_put_string [OF Cons.prems(3), of "info (page p)"] length_info [of "page p"] l(2) by auto
    let ?a1 = "arg\<lparr>fd := f1, found_count := found_count arg + 1\<rparr>"
    obtain f2 where f2: "put_string ?a1 separator = ?a1\<lparr>fd := f2\<rparr>" "sink f2"
      "file_bytes f2 = file_bytes f1 @ separator"
      using sink_put_string [of ?a1 separator] f1(2) by (auto simp: separator_def ascii_def MAX_RW_COUNT_def)
    let ?a2 = "arg\<lparr>fd := f2, found_count := found_count arg + 1\<rparr>"
    have "core_turn k mi (check_vmcoreinfo k) persist p buf arg = (Go, page p, ?a2)"
      using turn True assms(8) p f1(1) f2(1) Cons.prems(5) by (simp add: Let_def separator_def)
    then have v: "visits k mi (check_vmcoreinfo k) persist (p # ps) buf arg =
        visits k mi (check_vmcoreinfo k) persist ps (page p) ?a2" by simp
    obtain buf' f' where r: "visits k mi (check_vmcoreinfo k) persist ps (page p) ?a2 =
        (Go, buf', ?a2\<lparr>fd := f', found_count := found_count ?a2 + int (length (all_infos page ps))\<rparr>)"
      "file_bytes f' = file_bytes f2 @ concat (map (\<lambda>s. s @ separator) (all_infos page ps))"
      using Cons.IH [of "page p" ?a2] Cons.prems l(1) f2(2) by auto
    have all: "all_infos page (p # ps) = info (page p) # all_infos page ps"
      using True by (simp add: all_infos_def)
    show ?thesis unfolding v all
      using r f1(3) f2(3) by (intro exI [of _ buf'] exI [of _ f']) (simp add: ac_simps)
  qed
qed

lemma dumpphys_all:
  assumes "memory k mi S page" and "10 \<le> unat (page_size mi)" and "length junk = unat (page_size mi)"
    and "sink f" and "set opts \<subseteq> {Opt_verbose, Opt_persist}"
    and "\<forall>p \<in> S. is_info (page p) \<longrightarrow> 0 \<in> set (page p)"
  shows "\<exists>f'. dumpphys_main k (Opt_core True # Opt_vmcoreinfo_all # opts) junk m0 f =
      Some (Inr (0, f', case length (all_infos page (sorted_list_of_set S)) of
        0 \<Rightarrow> Not_found | Suc 0 \<Rightarrow> Silent | n \<Rightarrow> Found_several (int n))) \<and>
    file_bytes f' = file_bytes f @ concat (map (\<lambda>s. s @ separator) (all_infos page (sorted_list_of_set S)))"
proof -
  let ?via = "\<lparr>fd = f, should_continue = True, found_count = 0, search_within_page = False\<rparr>"
  let ?s = "\<lparr>has_core = True, via = ?via, check_op = True, dump_verbose = False, dump_persist = False\<rparr>"
  let ?n = "length (all_infos page (sorted_list_of_set S))"
  obtain v pe where o: "dump_options (Opt_core True # Opt_vmcoreinfo_all # opts) (dump_defaults f) =
      Inr (?s\<lparr>dump_verbose := v, dump_persist := pe\<rparr>)"
    using quiet_options [OF assms(5), of ?s] by (auto simp: dump_defaults_def)
  obtain buf' f' where vs: "visits k mi (check_vmcoreinfo k) pe (sorted_list_of_set S) junk ?via =
      (Go, buf', ?via\<lparr>fd := f', found_count := int ?n\<rparr>)"
    and b: "file_bytes f' = file_bytes f @ concat (map (\<lambda>s. s @ separator) (all_infos page (sorted_list_of_set S)))"
    using visits_search_all [OF assms(1,2) _ assms(3) _ _ _ assms(6), of "sorted_list_of_set S" ?via pe] assms(4) by auto
  have "dumpphys_main k (Opt_core True # Opt_vmcoreinfo_all # opts) junk m0 f =
      Some (Inr (0, f', final_report True 0 (int ?n)))"
    using main_visits [OF assms(1) o, of junk] vs by (simp add: ended_def)
  moreover have "final_report True 0 (int ?n) = (case ?n of 0 \<Rightarrow> Not_found | Suc 0 \<Rightarrow> Silent | n \<Rightarrow> Found_several (int n))"
    by (simp add: final_report_def split: nat.split)
  ultimately show ?thesis using b by (intro exI [of _ f']) simp
qed

text \<open>With \<open>-i\<close>: the first note.\<close>

lemma dumpphys_first:
  assumes "memory k mi S page" and "10 \<le> unat (page_size mi)" and "length junk = unat (page_size mi)"
    and "sink f" and "set opts \<subseteq> {Opt_verbose, Opt_persist}"
  shows "case find (\<lambda>p. is_info (page p)) (sorted_list_of_set S) of
      None \<Rightarrow> dumpphys_main k (Opt_core True # Opt_vmcoreinfo # opts) junk m0 f = Some (Inr (0, f, Not_found))
    | Some p \<Rightarrow>
        if 0 \<notin> set (page p)
        then dumpphys_main k (Opt_core True # Opt_vmcoreinfo # opts) junk m0 f = Some (Inl Overread)
        else \<exists>f'. dumpphys_main k (Opt_core True # Opt_vmcoreinfo # opts) junk m0 f = Some (Inr (1, f', Silent)) \<and>
          file_bytes f' = file_bytes f @ info (page p)"
proof -
  let ?s = "(dump_defaults f)\<lparr>has_core := True, check_op := True\<rparr>"
  obtain v pe where o: "dump_options (Opt_core True # Opt_vmcoreinfo # opts) (dump_defaults f) =
      Inr (?s\<lparr>dump_verbose := v, dump_persist := pe\<rparr>)"
    using quiet_options [OF assms(5), of ?s] by auto
  have v: "sink (fd (via ?s))" "\<not> search_within_page (via ?s)" "\<not> should_continue (via ?s)"
    "via ?s = via (dump_defaults f)" "fd (via ?s) = f" "found_count (via ?s) = 0"
    using assms(4) by (simp_all add: dump_defaults_def)
  note search = visits_search [OF assms(1,2) _ assms(3) v(1-3), of "sorted_list_of_set S" pe]
  note fin = main_visits [OF assms(1) o, of junk]
  show ?thesis
  proof (cases "find (\<lambda>p. is_info (page p)) (sorted_list_of_set S)")
    case None
    with search obtain buf where "visits k mi (check_vmcoreinfo k) pe (sorted_list_of_set S) junk (via ?s) = (Go, buf, via ?s)"
      by auto
    then show ?thesis using None fin [of Go buf "via ?s"] v
      by (simp add: ended_def final_report_def)
  next
    case (Some p)
    show ?thesis
    proof (cases "0 \<in> set (page p)")
      case True
      with search Some obtain buf f' where
        "visits k mi (check_vmcoreinfo k) pe (sorted_list_of_set S) junk (via ?s) =
          (Return (-1), buf, (via ?s)\<lparr>fd := f', found_count := 1\<rparr>)"
        "file_bytes f' = file_bytes f @ info (page p)" using v by auto
      then show ?thesis using Some True fin [of "Return (-1)" buf "(via ?s)\<lparr>fd := f', found_count := 1\<rparr>"] v
        by (simp add: ended_def final_report_def)
    next
      case False
      with search Some obtain buf where
        "visits k mi (check_vmcoreinfo k) pe (sorted_list_of_set S) junk (via ?s) = (Crash Overread, buf, via ?s)"
        by auto
      then show ?thesis using Some False fin [of "Crash Overread" buf "via ?s"] v
        by (simp add: ended_def)
    qed
  qed
qed

text \<open>
  C37: On a memory that can be read, with \<open>-i\<close>, the program finds the first page that
  starts with \<open>OSRELEASE=\<close> and appends the string in it to the output; it then exits with 1.
  When there is no such page it says so, writes nothing and exits with 0, so the exit value
  tells the opposite of what happened. A first such page without a zero byte is read past its
  end. With \<open>-I\<close>, when every such page has a zero byte, it appends the strings of all of
  them, each with a line of dashes, exits with 0, and tells their number when it is not 1.
\<close>
lemma dumpphys_search:
  assumes "memory k mi S page" and "10 \<le> unat (page_size mi)" and "length junk = unat (page_size mi)"
    and "sink f" and "set opts \<subseteq> {Opt_verbose, Opt_persist}"
  shows "(case find (\<lambda>p. is_info (page p)) (sorted_list_of_set S) of
      None \<Rightarrow> dumpphys_main k (Opt_core True # Opt_vmcoreinfo # opts) junk m0 f = Some (Inr (0, f, Not_found))
    | Some p \<Rightarrow>
        if 0 \<notin> set (page p)
        then dumpphys_main k (Opt_core True # Opt_vmcoreinfo # opts) junk m0 f = Some (Inl Overread)
        else \<exists>f'. dumpphys_main k (Opt_core True # Opt_vmcoreinfo # opts) junk m0 f = Some (Inr (1, f', Silent)) \<and>
          file_bytes f' = file_bytes f @ info (page p)) \<and>
    ((\<forall>p \<in> S. is_info (page p) \<longrightarrow> 0 \<in> set (page p)) \<longrightarrow>
      (\<exists>f'. dumpphys_main k (Opt_core True # Opt_vmcoreinfo_all # opts) junk m0 f =
          Some (Inr (0, f', case length (all_infos page (sorted_list_of_set S)) of
            0 \<Rightarrow> Not_found | Suc 0 \<Rightarrow> Silent | n \<Rightarrow> Found_several (int n))) \<and>
        file_bytes f' = file_bytes f @ concat (map (\<lambda>s. s @ separator) (all_infos page (sorted_list_of_set S)))))"
proof (intro conjI impI)
  assume z: "\<forall>p \<in> S. is_info (page p) \<longrightarrow> 0 \<in> set (page p)"
  show "\<exists>f'. dumpphys_main k (Opt_core True # Opt_vmcoreinfo_all # opts) junk m0 f =
          Some (Inr (0, f', case length (all_infos page (sorted_list_of_set S)) of
            0 \<Rightarrow> Not_found | Suc 0 \<Rightarrow> Silent | n \<Rightarrow> Found_several (int n))) \<and>
        file_bytes f' = file_bytes f @ concat (map (\<lambda>s. s @ separator) (all_infos page (sorted_list_of_set S)))"
    by (rule dumpphys_all [OF assms z])
qed (rule dumpphys_first [OF assms])

section \<open>The flexible search\<close>

lemma check_vmcoreinfo_flexible:
  assumes "search_within_page arg" and "check_vmcoreinfo k arg addr len buf = Inr (arg', rv)"
  shows "search_within_page arg' \<and> found_count arg' = found_count arg"
  using assms by (auto simp: check_vmcoreinfo_def put_string_def Let_def split: option.splits prod.splits if_splits)

lemma visits_flexible:
  assumes "search_within_page arg" and "visits k mi (check_vmcoreinfo k) persist ps buf arg = (t, buf', arg')"
  shows "found_count arg' = found_count arg"
  using assms
proof (induction ps arbitrary: buf arg)
  case (Cons p ps)
  obtain t1 b1 a1 where c: "core_turn k mi (check_vmcoreinfo k) persist p buf arg = (t1, b1, a1)" by (metis prod_cases3)
  then have a: "search_within_page a1 \<and> found_count a1 = found_count arg"
    using Cons.prems(1) check_vmcoreinfo_flexible
    by (auto simp: core_turn_def split: prod.splits sum.splits if_splits)
  show ?case
  proof (cases "t1 = Go")
    case True
    then show ?thesis using Cons.IH [of a1 b1] Cons.prems(2) c a by simp
  next
    case False
    then show ?thesis using Cons.prems(2) c a by simp
  qed
qed simp

lemma options_help: "Opt_help \<notin> set opts \<Longrightarrow> dump_options opts s = Inl e \<Longrightarrow> e = 1"
  by (induction opts s rule: dump_options.induct) (auto split: if_splits option.splits)

lemma options_flags:
  "dump_options opts s = Inr s' \<Longrightarrow>
    (search_within_page (via s') \<longleftrightarrow> search_within_page (via s) \<or> Opt_flexible \<in> set opts) \<and>
    (check_op s' \<longleftrightarrow> check_op s \<or> Opt_vmcoreinfo \<in> set opts \<or> Opt_vmcoreinfo_all \<in> set opts) \<and>
    found_count (via s') = found_count (via s)"
  by (induction opts s rule: dump_options.induct) (auto split: if_splits option.splits)

text \<open>
  C38: With \<open>-f\<close>, whatever the library returns (but for the contract \<open>bitmap_ok\<close> of the
  searches in its page bitmap), a search that ends with exit value 0 says
  that it could not find anything that looks like vmcoreinfo, even when it has written
  notes to the output (\<open>found_count\<close> is not counted up in this mode); and it never tells
  how many it found.
\<close>
lemma dumpphys_flexible:
  assumes "bitmap_ok k S" and "Opt_flexible \<in> set opts" and "Opt_vmcoreinfo \<in> set opts \<or> Opt_vmcoreinfo_all \<in> set opts"
    and "Opt_help \<notin> set opts" and "dumpphys_main k opts junk m0 f = Some (Inr (rv, f', r))"
  shows "r = (if rv = 0 then Not_found else Silent)"
proof (cases "dump_options opts (dump_defaults f)")
  case (Inl e)
  then show ?thesis using options_help [OF assms(4) Inl] assms(5) by (simp add: dumpphys_main_def)
next
  case (Inr s)
  have fl: "search_within_page (via s)" "check_op s" "found_count (via s) = 0"
    using options_flags [OF Inr] assms(2,3) by (auto simp: dump_defaults_def)
  from assms(5) Inr obtain mi where "get_memory_info k = Inr mi"
    by (auto simp: dumpphys_main_def split: if_splits sum.splits)
  obtain t buf arg where v: "visits k mi (check_vmcoreinfo k) (dump_persist s) (sorted_list_of_set S) junk (via s) = (t, buf, arg)"
    by (metis prod_cases3)
  then have "found_count arg = 0" using visits_flexible [OF fl(1) v] fl(3) by simp
  moreover obtain n m where "count_pages k mi (check_vmcoreinfo k) (dump_verbose s) (dump_persist s) junk m0 (via s) =
      Some (ended t, arg, n, m)"
    using count_pages_visits [OF assms(1) v] by blast
  ultimately show ?thesis using assms(5) Inr fl \<open>get_memory_info k = Inr mi\<close>
    by (auto simp: dumpphys_main_def final_report_def split: if_splits turn.splits)
qed

section \<open>A small memory\<close>

text \<open>Two pages of sixteen bytes, frames 1 and 2; the second one holds a note.\<close>

definition small_page :: "u64 \<Rightarrow> u8 list" where
  "small_page p = (if p = 2 then OSRELEASE @ [0x36, 0x2e, 0x31, 0, 0, 0] else replicate 16 0x41)"

definition small_dump :: kdump where
  "small_dump = \<lparr>kdump_new = True, kdump_set_fd = True, kdump_set_ostype = True,
    attr_max_pfn = Some 3, attr_page_size = Some 16, attr_page_shift = Some 4, attr_pagemap = Some True,
    kdump_bmp_find_set = \<lambda>i. if i \<le> 1 then (KDUMP_OK, 1) else if i = 2 then (KDUMP_OK, 2) else (KDUMP_ERR_NODATA, i),
    kdump_bmp_find_clear = \<lambda>i. if i = 1 \<or> i = 2 then (KDUMP_OK, 3) else (KDUMP_OK, i),
    kdump_read = \<lambda>a n. (KDUMP_OK, small_page (drop_bit 4 a)),
    kdump_read_string = \<lambda>a. (KDUMP_OK, OSRELEASE @ [0x36, 0x2e, 0x31]),
    clock = \<lambda>n. \<lparr>tv_sec = int n, tv_nsec = 5\<rparr>\<rparr>"

definition small_info :: memory_info where
  "small_info = \<lparr>max_pfn = 3, page_size = 16, page_shift = 4\<rparr>"

definition empty_file :: ofile where
  "empty_file = \<lparr>file_bytes = [], file_pos = 0, file_calls = 0, file_env = \<lambda>_. Full\<rparr>"

definition unset_meter :: meter where
  "unset_meter = \<lparr>prog = \<lparr>total_bytes = 0, current_bytes = 0, start_time = \<lparr>tv_sec = 0, tv_nsec = 0\<rparr>,
    last_update = \<lparr>tv_sec = 0, tv_nsec = 0\<rparr>, update_interval = \<lparr>tv_sec = 0, tv_nsec = 0\<rparr>, prog_print = False\<rparr>,
    ticks = 0, lines = []\<rparr>"

lemma sink_empty_file: "sink empty_file"
  by (simp add: sink_def reliable_def empty_file_def)

lemma small_bitmap: "bitmap_ok small_dump {1, 2}"
proof -
  have "x \<noteq> 1 \<and> x \<noteq> 2" if "i \<le> x" "\<not> i \<le> 1" "i \<noteq> 2" for i x :: u64
    using that by (auto simp: word_le_nat_alt word_unat_eq_iff)
  moreover have "x = 1 \<or> x = 2" if "1 \<le> x" "x < 3" for x :: u64
    using that by (auto simp: word_le_nat_alt word_less_nat_alt word_unat_eq_iff)
  moreover have "x = 2" if "2 \<le> x" "x < 3" for x :: u64
    using that by (auto simp: word_le_nat_alt word_less_nat_alt word_unat_eq_iff)
  moreover have "x \<noteq> 1 \<and> x \<noteq> 2" if "x < 1" for x :: u64
    using that by (auto simp: word_less_nat_alt word_unat_eq_iff)
  ultimately show ?thesis
    unfolding bitmap_ok_def small_dump_def kdump.simps
    by (auto split: if_split_asm)
qed

lemma small_memory: "memory small_dump small_info {1, 2} small_page"
proof -
  have "get_memory_info small_dump = Inr small_info"
    by (simp add: get_memory_info_def small_dump_def small_info_def)
  moreover have "drop_bit 4 (push_bit 4 p) = p" if "p \<in> {1, 2}" for p :: u64
    using that by auto
  moreover have "length (small_page p) = 16" for p
    by (simp add: small_page_def length_OSRELEASE)
  ultimately show ?thesis
    using small_bitmap unfolding memory_def by (simp add: small_dump_def small_info_def MAX_RW_COUNT_def)
qed

lemma dumpphys_dumps_witness:
  "\<exists>f'. dumpphys_main small_dump [Opt_core True, Opt_verbose] (replicate 16 0) unset_meter empty_file =
      Some (Inr (0, f', Silent)) \<and> file_bytes f' = small_page 1 @ small_page 2"
  using dumpphys_dumps [OF small_memory, of "replicate 16 0" empty_file "[Opt_verbose]" unset_meter] sink_empty_file
  by (simp add: small_info_def empty_file_def)

lemma dumpphys_search_witness:
  "\<exists>f'. dumpphys_main small_dump [Opt_core True, Opt_vmcoreinfo] (replicate 16 0) unset_meter empty_file =
      Some (Inr (1, f', Silent)) \<and> file_bytes f' = OSRELEASE @ [0x36, 0x2e, 0x31]"
proof -
  have "\<not> is_info (small_page 1)" "is_info (small_page 2)" "0 \<in> set (small_page 2)"
    "info (small_page 2) = OSRELEASE @ [0x36, 0x2e, 0x31]"
    by code_simp+
  then have "find (\<lambda>p. is_info (small_page p)) (sorted_list_of_set {1, 2}) = Some 2"
    "0 \<in> set (small_page 2)" "info (small_page 2) = OSRELEASE @ [0x36, 0x2e, 0x31]"
    by simp_all
  then show ?thesis
    using dumpphys_search [OF small_memory, of "replicate 16 0" empty_file "[]" unset_meter] sink_empty_file
    by (simp add: small_info_def empty_file_def)
qed

lemma dumpphys_flexible_witness:
  "\<exists>f'. dumpphys_main small_dump [Opt_core True, Opt_vmcoreinfo_all, Opt_flexible] (replicate 16 0) unset_meter empty_file =
      Some (Inr (0, f', Not_found)) \<and> file_bytes f' = OSRELEASE @ [0x36, 0x2e, 0x31] @ ascii ''---'' @ [0x0a]"
proof -
  let ?opts = "[Opt_core True, Opt_vmcoreinfo_all, Opt_flexible]"
  let ?via = "\<lparr>fd = empty_file, should_continue = True, found_count = 0, search_within_page = True\<rparr>"
  let ?s = "\<lparr>has_core = True, via = ?via, check_op = True, dump_verbose = False, dump_persist = False\<rparr>"
  have o: "dump_options ?opts (dump_defaults empty_file) = Inr ?s" by (simp add: dump_defaults_def)
  let ?note = "OSRELEASE @ [0x36, 0x2e, 0x31]"
  have mm: "memmem (small_page 1) OSRELEASE = None" "memmem (small_page 2) OSRELEASE = Some 0"
    "length (small_page 1) = 16" "length (small_page 2) = 16" by code_simp+
  obtain f1 where f1: "put_string ?via ?note = ?via\<lparr>fd := f1\<rparr>" "sink f1" "file_bytes f1 = ?note"
    using sink_put_string [of ?via ?note] sink_empty_file
    by (auto simp: length_OSRELEASE MAX_RW_COUNT_def empty_file_def)
  obtain f2 where f2: "put_string (?via\<lparr>fd := f1\<rparr>) (ascii ''---'' @ [0x0a]) = ?via\<lparr>fd := f2\<rparr>"
      "file_bytes f2 = ?note @ ascii ''---'' @ [0x0a]"
    using sink_put_string [of "?via\<lparr>fd := f1\<rparr>" "ascii ''---'' @ [0x0a]"] f1(2,3)
    by (auto simp: ascii_def MAX_RW_COUNT_def)
  have "core_turn small_dump small_info (check_vmcoreinfo small_dump) False 1 (replicate 16 0) ?via = (Go, small_page 1, ?via)"
    using core_turn_memory [OF small_memory, of 1 "replicate 16 0"] mm
    by (simp add: small_info_def check_vmcoreinfo_def)
  moreover have "kdump_read_string small_dump x = (KDUMP_OK, ?note)" for x by (simp add: small_dump_def)
  then have "core_turn small_dump small_info (check_vmcoreinfo small_dump) False 2 (small_page 1) ?via =
      (Go, small_page 2, ?via\<lparr>fd := f2\<rparr>)"
    using core_turn_memory [OF small_memory, of 2 "small_page 1"] mm f1(1) f2(1)
    by (simp add: small_info_def check_vmcoreinfo_def Let_def)
  ultimately have v: "visits small_dump small_info (check_vmcoreinfo small_dump) False [1, 2] (replicate 16 0) ?via =
      (Go, small_page 2, ?via\<lparr>fd := f2\<rparr>)" by simp
  have m: "dumpphys_main small_dump ?opts (replicate 16 0) unset_meter empty_file =
      Some (Inr (0, f2, final_report True 0 0))"
    using main_visits [OF small_memory o, of "replicate 16 0" Go "small_page 2" "?via\<lparr>fd := f2\<rparr>" unset_meter] v
    by (simp add: ended_def)
  have "final_report True 0 0 = Not_found"
    using dumpphys_flexible [OF small_bitmap _ _ _ m] by simp
  with m f2(2) show ?thesis by simp
qed

lemma progress_times_witness:
  "normal_meter (progress_complete small_dump (progress_init small_dump True 100 unset_meter)) \<and>
   lines (progress_update small_dump False 16 (progress_init small_dump True 100 unset_meter)) = [(16, 100, \<lparr>tv_sec = 1, tv_nsec = 0\<rparr>)]"
proof -
  have c: "\<forall>n. normal_time (clock small_dump n)" by (simp add: small_dump_def normal_time_def)
  have n: "normal_meter unset_meter" by (simp add: normal_meter_def unset_meter_def)
  let ?m = "progress_init small_dump True 100 unset_meter"
  have m: "normal_meter ?m" using progress_times [OF c n] by blast
  show ?thesis
    using progress_times [OF c m, where force = False and b = 16]
    by (simp add: progress_init_def small_dump_def unset_meter_def nanos_def timespec_sub_def Let_def)
qed

end
