(* ===== verification/SmallTools.thy ===== *)
theory SmallTools
  imports FileIO
begin

text \<open>
  The small programs: \<open>src/drgn_vmalloc_test/drgn_vmalloc_test.c\<close>, a module that maps
  four pages and fills them with a pattern; \<open>src/ctf/ctfdictprint.c\<close>, which reads a file
  into memory and lists the dictionaries that libctf finds in it;
  \<open>src/vmcoreinfo/get_vmcoreinfo.c\<close>, which prints what libkdumpfile returns; and
  \<open>src/openclose/openclose.c\<close>, which opens and closes a file until that fails. What the
  libraries and the kernel return are arguments.
\<close>

section \<open>drgn_vmalloc_test\<close>

abbreviation (input) NPAGE :: nat where "NPAGE \<equiv> 4"
abbreviation (input) PAGE_WORDS :: nat where "PAGE_WORDS \<equiv> 1024"

text \<open>
  The kernel: the pages the allocator will give (0 is a failure), the pages that are
  allocated, the pages behind the mapping, and the 32-bit words of each page. The
  variables \<open>addr\<close> (mapped or not) and \<open>pages\<close> (0 is NULL).
\<close>

record vmtest =
  vm_supply :: "nat list"
  vm_allocated :: "nat multiset"
  vm_mapping :: "nat list option"
  vm_contents :: "nat \<Rightarrow> u32 list"
  vm_addr :: bool
  vm_pages :: "nat list"

definition vm_alloc_page :: "vmtest \<Rightarrow> nat \<times> vmtest" where
  "vm_alloc_page s = (case vm_supply s of [] \<Rightarrow> (0, s)
    | p # ps \<Rightarrow> (p, s\<lparr>vm_supply := ps, vm_allocated := (if p = 0 then vm_allocated s else add_mset p (vm_allocated s))\<rparr>))"

text \<open>Freeing a page that is not allocated, and an access outside of the mapping, would crash.\<close>

definition vm_free_page :: "nat \<Rightarrow> vmtest \<Rightarrow> vmtest option" where
  "vm_free_page p s = (if p \<in># vm_allocated s then Some (s\<lparr>vm_allocated := vm_allocated s - {#p#}\<rparr>) else None)"

definition vm_cleanup :: "vmtest \<Rightarrow> vmtest option" where
  "vm_cleanup s =
    (let s = (if vm_addr s then s\<lparr>vm_mapping := None\<rparr> else s)
     in fold (\<lambda>i r. case r of None \<Rightarrow> None
         | Some s \<Rightarrow> if vm_pages s ! i \<noteq> 0 then vm_free_page (vm_pages s ! i) s else Some s) [0..<NPAGE] (Some s))"

text \<open>The first loop: whether it went through.\<close>

fun vm_alloc_loop :: "nat list \<Rightarrow> vmtest \<Rightarrow> bool \<times> vmtest" where
  "vm_alloc_loop [] s = (True, s)"
| "vm_alloc_loop (i # is) s =
    (case vm_alloc_page s of (p, s) \<Rightarrow>
     let s = s\<lparr>vm_pages := (vm_pages s)[i := p]\<rparr>
     in if p = 0 then (False, s) else vm_alloc_loop is s)"

text \<open>\<open>((uint32_t *) addr)[i] = val\<close>.\<close>

definition vm_store :: "nat \<Rightarrow> u32 \<Rightarrow> vmtest \<Rightarrow> vmtest option" where
  "vm_store i v s = (case vm_mapping s of None \<Rightarrow> None
    | Some ps \<Rightarrow> if i div PAGE_WORDS < length ps
        then let p = ps ! (i div PAGE_WORDS)
          in Some (s\<lparr>vm_contents := (vm_contents s)(p := (vm_contents s p)[i mod PAGE_WORDS := v])\<rparr>)
        else None)"

fun vm_fill :: "nat list \<Rightarrow> u32 \<Rightarrow> vmtest \<Rightarrow> vmtest option" where
  "vm_fill [] val s = Some s"
| "vm_fill (i # is) val s = (case vm_store i val s of None \<Rightarrow> None | Some s \<Rightarrow> vm_fill is (val + 1) s)"

text \<open>\<open>map_ok\<close>: whether \<open>vm_map_ram\<close> succeeds.\<close>

definition init_dentryref :: "bool \<Rightarrow> vmtest \<Rightarrow> (int \<times> vmtest) option" where
  "init_dentryref map_ok s =
    (case vm_alloc_loop [0..<NPAGE] s of (ok, s) \<Rightarrow>
     if \<not> ok then map_option (\<lambda>s. (-1, s)) (vm_cleanup s)
     else if \<not> map_ok then map_option (\<lambda>s. (-1, s)) (vm_cleanup s)
     else map_option (\<lambda>s. (0, s)) (vm_fill [0..<NPAGE * PAGE_WORDS] 0 (s\<lparr>vm_mapping := Some (vm_pages s), vm_addr := True\<rparr>)))"

definition exit_dentryref :: "vmtest \<Rightarrow> vmtest option" where
  "exit_dentryref s = vm_cleanup s"

text \<open>The module as it is loaded.\<close>

definition vm_start :: "nat list \<Rightarrow> (nat \<Rightarrow> u32 list) \<Rightarrow> vmtest" where
  "vm_start ps mem = \<lparr>vm_supply = ps, vm_allocated = {#}, vm_mapping = None, vm_contents = mem, vm_addr = False, vm_pages = replicate NPAGE 0\<rparr>"

section \<open>ctfdictprint\<close>

text \<open>
  \<open>read_file\<close>: \<open>None\<close> is a file that does not open; the result of the second \<open>fseek\<close> is not
  looked at. The size is that of the file as \<open>ftell\<close> gives it, the buffer ends with a zero.
\<close>

definition read_file :: "ofile option \<Rightarrow> crash + nat \<times> u8 list" where
  "read_file file1 =
    (case file1 of None \<Rightarrow> Inl Exit_failure
     | Some f \<Rightarrow>
       case lseek_end f of (f, r) \<Rightarrow>
       if r = -1 then Inl Exit_failure
       else
         let size = nat r in
         case lseek_set f 0 of (f, r) \<Rightarrow>
         case file_fread f size of (f, amt, buf) \<Rightarrow>
         if amt \<noteq> size then Inl Exit_failure else Inr (size, buf @ [0]))"

text \<open>\<open>bufopen\<close>: the names of the dictionaries of an archive in these bytes, as libctf finds them.\<close>

definition open_ctf :: "(u8 list \<Rightarrow> string list option) \<Rightarrow> ofile option \<Rightarrow> crash + string list" where
  "open_ctf bufopen file1 =
    bindR (read_file file1) (\<lambda>(size, buf).
      case bufopen (take size buf) of None \<Rightarrow> Inl Exit_failure | Some arc \<Rightarrow> Inr arc)"

definition visit_dict :: "string \<Rightarrow> string list \<Rightarrow> string list" where
  "visit_dict name out = out @ [name]"

definition ctfdictprint_main :: "(u8 list \<Rightarrow> string list option) \<Rightarrow> ofile option list \<Rightarrow> crash + int \<times> string list" where
  "ctfdictprint_main bufopen args =
    (if length args \<noteq> 1 then Inr (1, [])
     else bindR (open_ctf bufopen (args ! 0)) (\<lambda>arc. Inr (0, fold visit_dict arc [])))"

section \<open>get_vmcoreinfo\<close>

text \<open>The results of the calls in order; \<open>raw\<close> is the string of \<open>kdump_vmcoreinfo_raw\<close>.\<close>

definition get_vmcoreinfo_main :: "nat \<Rightarrow> bool \<Rightarrow> bool \<Rightarrow> bool \<Rightarrow> bool \<Rightarrow> u8 list option \<Rightarrow> crash + u8 list \<times> int" where
  "get_vmcoreinfo_main argc opens new1 set_fd1 set_ostype1 raw =
    (if argc \<noteq> 2 then Inl Exit_failure
     else if \<not> opens then Inl Exit_failure
     else if \<not> new1 then Inl Exit_failure
     else if \<not> set_fd1 then Inl Exit_failure
     else if \<not> set_ostype1 then Inl Exit_failure
     else case raw of None \<Rightarrow> Inl Exit_failure | Some vmcoreinfo \<Rightarrow> Inr (vmcoreinfo, 0))"

section \<open>openclose\<close>

text \<open>\<open>opens k\<close>: whether the \<open>k\<close>th \<open>open\<close> succeeds; \<open>None\<close> when the loop does not end.\<close>

partial_function (option) openclose_loop :: "(nat \<Rightarrow> bool) \<Rightarrow> nat \<Rightarrow> int option" where
  "openclose_loop opens k = (if \<not> opens k then Some 1 else openclose_loop opens (k + 1))"

definition openclose_main :: "nat \<Rightarrow> (nat \<Rightarrow> bool) \<Rightarrow> int option" where
  "openclose_main argc opens = (if argc \<noteq> 2 then Some 1 else openclose_loop opens 0)"

section \<open>What drgn_vmalloc_test leaves\<close>

text \<open>The word at index \<open>i\<close> of the mapping.\<close>

definition vm_word :: "nat list \<Rightarrow> (nat \<Rightarrow> u32 list) \<Rightarrow> nat \<Rightarrow> u32" where
  "vm_word ps c i = c (ps ! (i div PAGE_WORDS)) ! (i mod PAGE_WORDS)"

lemma vm_fill_correct:
  assumes "vm_mapping s = Some ps" and "distinct ps" and "length ps = NPAGE"
    and "\<forall>p. length (vm_contents s p) = PAGE_WORDS" and "n \<le> NPAGE * PAGE_WORDS" and "m \<le> n"
  shows "\<exists>c. vm_fill [m..<n] (of_nat m) s = Some (s\<lparr>vm_contents := c\<rparr>) \<and>
    (\<forall>p. p \<notin> set ps \<longrightarrow> c p = vm_contents s p) \<and>
    (\<forall>i < NPAGE * PAGE_WORDS. vm_word ps c i = (if m \<le> i \<and> i < n then of_nat i else vm_word ps (vm_contents s) i))"
  using assms(1,4,6)
proof (induction "n - m" arbitrary: m s)
  case 0
  have "s = s\<lparr>vm_contents := vm_contents s\<rparr>" by simp
  with 0 show ?case by (intro exI [of _ "vm_contents s"]) auto
next
  case (Suc d)
  then have mn: "m < n" by simp
  let ?p = "ps ! (m div PAGE_WORDS)" and ?k = "m mod PAGE_WORDS"
  have q: "m div PAGE_WORDS < NPAGE" using mn assms(5) by (simp add: div_less_iff_less_mult)
  define c1 where "c1 = (vm_contents s)(?p := (vm_contents s ?p)[?k := of_nat m])"
  have st: "vm_store m (of_nat m) s = Some (s\<lparr>vm_contents := c1\<rparr>)"
    using Suc.prems(1) q assms(3) by (simp add: vm_store_def c1_def Let_def)
  have w1: "vm_word ps c1 i = (if i = m then of_nat i else vm_word ps (vm_contents s) i)" if "i < NPAGE * PAGE_WORDS" for i
  proof -
    have "i div PAGE_WORDS < NPAGE" using that by (simp add: div_less_iff_less_mult)
    then have "ps ! (i div PAGE_WORDS) = ?p \<longleftrightarrow> i div PAGE_WORDS = m div PAGE_WORDS"
      using q assms(2,3) by (simp add: nth_eq_iff_index_eq)
    moreover have "i = m \<longleftrightarrow> i div PAGE_WORDS = m div PAGE_WORDS \<and> i mod PAGE_WORDS = m mod PAGE_WORDS"
      by (metis div_mult_mod_eq)
    ultimately show ?thesis using Suc.prems(2) by (auto simp: vm_word_def c1_def nth_list_update)
  qed
  define t where "t = s\<lparr>vm_contents := c1\<rparr>"
  have t: "vm_contents t = c1" "vm_mapping t = Some ps" using Suc.prems(1) by (simp_all add: t_def)
  then have "\<forall>p. length (vm_contents t p) = PAGE_WORDS" using Suc.prems(2) by (simp add: c1_def)
  moreover have "d = n - Suc m" "Suc m \<le> n" using Suc.hyps(2) mn by simp_all
  ultimately obtain c where c: "vm_fill [Suc m..<n] (of_nat (Suc m)) t = Some (t\<lparr>vm_contents := c\<rparr>)"
    "\<forall>p. p \<notin> set ps \<longrightarrow> c p = c1 p"
    "\<forall>i < NPAGE * PAGE_WORDS. vm_word ps c i = (if Suc m \<le> i \<and> i < n then of_nat i else vm_word ps c1 i)"
    using Suc.hyps(1) [of "Suc m" t] t(2) unfolding t(1) by blast
  have "vm_fill [m..<n] (of_nat m) s = Some (s\<lparr>vm_contents := c\<rparr>)"
    using c(1) st mn by (simp add: upt_conv_Cons add.commute t_def)
  moreover have "\<forall>p. p \<notin> set ps \<longrightarrow> c p = vm_contents s p"
    using c(2) q assms(3) by (simp add: c1_def) 
  moreover have "\<forall>i < NPAGE * PAGE_WORDS. vm_word ps c i = (if m \<le> i \<and> i < n then of_nat i else vm_word ps (vm_contents s) i)"
    using c(3) w1 mn by auto
  ultimately show ?case by blast
qed

text \<open>The allocations: all four pages, or those before the first failure.\<close>

lemma vm_free_page_simp:
  "vm_allocated s = add_mset p A \<Longrightarrow> vm_free_page p s = Some (s\<lparr>vm_allocated := A\<rparr>)"
  by (simp add: vm_free_page_def)

text \<open>Freeing the pages from \<open>i\<close> on, when these are what is allocated.\<close>

definition vm_free_step :: "nat \<Rightarrow> vmtest option \<Rightarrow> vmtest option" where
  "vm_free_step i r = (case r of None \<Rightarrow> None
     | Some s \<Rightarrow> if vm_pages s ! i \<noteq> 0 then vm_free_page (vm_pages s ! i) s else Some s)"

lemma vm_free_steps:
  assumes "vm_allocated s = mset (filter (\<lambda>p. p \<noteq> 0) (drop i (vm_pages s)))" and "i \<le> n" and "length (vm_pages s) = n"
  shows "fold vm_free_step [i..<n] (Some s) = Some (s\<lparr>vm_allocated := {#}\<rparr>)"
  using assms
proof (induction "n - i" arbitrary: i s)
  case 0
  then show ?case by simp
next
  case (Suc d)
  then have i: "i < n" "drop i (vm_pages s) = vm_pages s ! i # drop (Suc i) (vm_pages s)"
    by (simp_all add: Cons_nth_drop_Suc)
  let ?A = "mset (filter (\<lambda>p. p \<noteq> 0) (drop (Suc i) (vm_pages s)))"
  have "vm_free_step i (Some s) = Some (s\<lparr>vm_allocated := ?A\<rparr>)"
    using Suc.prems(1) i(2) by (simp add: vm_free_step_def vm_free_page_simp)
  moreover have "fold vm_free_step [Suc i..<n] (Some (s\<lparr>vm_allocated := ?A\<rparr>)) = Some (s\<lparr>vm_allocated := {#}\<rparr>)"
    using Suc.hyps(1) [of "Suc i" "s\<lparr>vm_allocated := ?A\<rparr>"] Suc.hyps(2) Suc.prems(3) i(1) by simp
  ultimately show ?case using i(1) by (simp add: upt_conv_Cons)
qed

lemma vm_cleanup_frees:
  assumes "length (vm_pages s) = NPAGE" and "vm_allocated s = mset (filter (\<lambda>p. p \<noteq> 0) (vm_pages s))"
    and "vm_addr s \<or> vm_mapping s = None"
  shows "vm_cleanup s = Some (s\<lparr>vm_mapping := None, vm_allocated := {#}\<rparr>)"
proof -
  let ?s = "if vm_addr s then s\<lparr>vm_mapping := None\<rparr> else s"
  have s: "?s = s\<lparr>vm_mapping := None\<rparr>" using assms(3) by auto
  have "vm_cleanup s = fold vm_free_step [0..<NPAGE] (Some ?s)"
    by (simp only: vm_cleanup_def Let_def vm_free_step_def [abs_def])
  then show ?thesis using vm_free_steps [of "s\<lparr>vm_mapping := None\<rparr>" 0 NPAGE] assms(1,2) by (simp only: s) simp
qed

text \<open>The allocations: all pages, or those before the first failure.\<close>

definition vm_can_alloc :: "nat list \<Rightarrow> nat \<Rightarrow> bool" where
  "vm_can_alloc ps n \<longleftrightarrow> n \<le> length ps \<and> 0 \<notin> set (take n ps)"

lemma vm_alloc_steps:
  assumes "i \<le> NPAGE" and "vm_pages s = xs @ replicate (NPAGE - i) 0" and "length xs = i" and "0 \<notin> set xs"
    and "vm_allocated s = mset xs"
  shows "\<exists>s'. vm_alloc_loop [i..<NPAGE] s = (vm_can_alloc (vm_supply s) (NPAGE - i), s') \<and>
    length (vm_pages s') = NPAGE \<and> vm_allocated s' = mset (filter (\<lambda>p. p \<noteq> 0) (vm_pages s')) \<and>
    vm_addr s' = vm_addr s \<and> vm_mapping s' = vm_mapping s \<and> vm_contents s' = vm_contents s \<and>
    (vm_can_alloc (vm_supply s) (NPAGE - i) \<longrightarrow> vm_pages s' = xs @ take (NPAGE - i) (vm_supply s))"
  using assms
proof (induction "NPAGE - i" arbitrary: i s xs)
  case 0
  have "filter (\<lambda>p. p \<noteq> 0) xs = xs" using 0(5) by (auto simp: filter_id_conv intro: ccontr)
  then show ?case using 0 by (simp add: vm_can_alloc_def del: mset_filter)
next
  case (Suc d)
  then have i: "i < NPAGE" by simp
  have r: "replicate (NPAGE - i) (0::nat) = 0 # replicate (NPAGE - Suc i) 0"
    using i by (metis Suc_diff_Suc replicate_Suc)
  have fil: "filter (\<lambda>p. p \<noteq> 0) xs = xs" using Suc.prems(4) by (auto simp: filter_id_conv intro: ccontr)
  have l: "length xs + (NPAGE - i) = NPAGE" using Suc.prems(3) i by simp
  show ?case
  proof (cases "vm_supply s")
    case Nil
    then have "vm_alloc_loop [i..<NPAGE] s = (False, s)"
      using i Suc.prems(2,3) r by (simp add: upt_conv_Cons vm_alloc_page_def Let_def)
    moreover have "\<not> vm_can_alloc (vm_supply s) (NPAGE - i)" using Nil i by (simp add: vm_can_alloc_def)
    ultimately show ?thesis using Suc.prems(2,5) l fil by (simp del: mset_filter)
  next
    case (Cons p ps)
    show ?thesis
    proof (cases "p = 0")
      case True
      then have "vm_alloc_loop [i..<NPAGE] s = (False, s\<lparr>vm_supply := ps\<rparr>)"
        using Cons i Suc.prems(2,3) r by (simp add: upt_conv_Cons vm_alloc_page_def Let_def)
      moreover have "\<not> vm_can_alloc (vm_supply s) (NPAGE - i)" using Cons True i by (simp add: vm_can_alloc_def take_Cons')
      ultimately show ?thesis using Suc.prems(2,5) l fil by (simp del: mset_filter)
    next
      case False
      let ?s = "s\<lparr>vm_supply := ps, vm_allocated := add_mset p (vm_allocated s), vm_pages := (xs @ [p]) @ replicate (NPAGE - Suc i) 0\<rparr>"
      have "vm_alloc_loop [i..<NPAGE] s = vm_alloc_loop [Suc i..<NPAGE] ?s"
        using Cons False i Suc.prems(2,3) r by (simp add: upt_conv_Cons vm_alloc_page_def Let_def)
      moreover have "vm_can_alloc (vm_supply s) (NPAGE - i) = vm_can_alloc ps (NPAGE - Suc i)"
        "take (NPAGE - i) (vm_supply s) = p # take (NPAGE - Suc i) ps"
        using Cons False i by (auto simp: vm_can_alloc_def take_Cons')
      ultimately show ?thesis
        using Suc.hyps(1) [of "Suc i" ?s "xs @ [p]"] Suc.hyps(2) Suc.prems i False by simp
    qed
  qed
qed

text \<open>
  C40: Loading the module succeeds exactly when the allocator has four pages and the mapping
  can be made; then word \<open>i\<close> of the mapping is \<open>i\<close>, no other page is written, and unloading
  frees every page and the mapping. Otherwise loading fails with -1 and leaves no page
  allocated, no mapping, and the memory as it was. It never crashes.
\<close>
lemma vmalloc_test_correct:
  assumes "distinct (take NPAGE ps)" and "\<forall>p. length (mem p) = PAGE_WORDS"
  shows "\<exists>r s. init_dentryref map_ok (vm_start ps mem) = Some (r, s) \<and>
    (if map_ok \<and> vm_can_alloc ps NPAGE
     then r = 0 \<and> vm_mapping s = Some (take NPAGE ps) \<and>
       (\<forall>i < NPAGE * PAGE_WORDS. vm_word (take NPAGE ps) (vm_contents s) i = of_nat i) \<and>
       (\<forall>p. p \<notin> set (take NPAGE ps) \<longrightarrow> vm_contents s p = mem p) \<and>
       (\<exists>s'. exit_dentryref s = Some s' \<and> vm_allocated s' = {#} \<and> vm_mapping s' = None)
     else r = -1 \<and> vm_allocated s = {#} \<and> vm_mapping s = None \<and> vm_contents s = mem)"
proof -
  obtain s1 where a: "vm_alloc_loop [0..<NPAGE] (vm_start ps mem) = (vm_can_alloc ps NPAGE, s1)"
    "length (vm_pages s1) = NPAGE" "vm_allocated s1 = mset (filter (\<lambda>p. p \<noteq> 0) (vm_pages s1))"
    "\<not> vm_addr s1" "vm_mapping s1 = None" "vm_contents s1 = mem"
    "vm_can_alloc ps NPAGE \<longrightarrow> vm_pages s1 = take NPAGE ps"
    using vm_alloc_steps [of 0 "vm_start ps mem" "[]"] by (auto simp: vm_start_def)
  show ?thesis
  proof (cases "map_ok \<and> vm_can_alloc ps NPAGE")
    case False
    have "vm_cleanup s1 = Some (s1\<lparr>vm_mapping := None, vm_allocated := {#}\<rparr>)"
      using a by (intro vm_cleanup_frees) simp_all
    then have "init_dentryref map_ok (vm_start ps mem) = Some (-1, s1\<lparr>vm_mapping := None, vm_allocated := {#}\<rparr>)"
      using False a(1) by (auto simp: init_dentryref_def)
    then show ?thesis using False a(6) by auto
  next
    case True
    let ?s = "s1\<lparr>vm_mapping := Some (vm_pages s1), vm_addr := True\<rparr>"
    have p: "vm_pages s1 = take NPAGE ps" using True a(7) by blast
    obtain c where c: "vm_fill [0..<NPAGE * PAGE_WORDS] 0 ?s = Some (?s\<lparr>vm_contents := c\<rparr>)"
      "\<forall>p. p \<notin> set (vm_pages s1) \<longrightarrow> c p = mem p"
      "\<forall>i < NPAGE * PAGE_WORDS. vm_word (vm_pages s1) c i = of_nat i"
      using vm_fill_correct [of ?s "vm_pages s1" "NPAGE * PAGE_WORDS" 0] a(2,6) p assms by auto
    have "vm_cleanup (?s\<lparr>vm_contents := c\<rparr>) = Some (?s\<lparr>vm_contents := c\<rparr>\<lparr>vm_mapping := None, vm_allocated := {#}\<rparr>)"
      using a(2,3) by (intro vm_cleanup_frees) simp_all
    moreover have "init_dentryref map_ok (vm_start ps mem) = Some (0, ?s\<lparr>vm_contents := c\<rparr>)"
      using True a(1) c(1) by (simp add: init_dentryref_def)
    ultimately show ?thesis using True c(2,3) p by (auto simp: exit_dentryref_def)
  qed
qed

lemma vmalloc_test_correct_witness:
  "\<exists>r s. init_dentryref True (vm_start [5, 7, 6, 8] (\<lambda>_. replicate 1024 0)) = Some (r, s) \<and> r = 0 \<and>
    vm_mapping s = Some [5, 7, 6, 8] \<and> vm_word [5, 7, 6, 8] (vm_contents s) 1025 = 1025"
  using vmalloc_test_correct [of "[5, 7, 6, 8]" "\<lambda>_. replicate 1024 0" True]
  by (auto simp: vm_can_alloc_def)

section \<open>What the other programs return\<close>

text \<open>\<open>openclose\<close> returns exactly when an \<open>open\<close> fails at some point.\<close>

lemma openclose_returns: "k \<le> n \<Longrightarrow> \<not> opens n \<Longrightarrow> openclose_loop opens k = Some 1"
proof (induction "n - k" arbitrary: k)
  case 0
  then show ?case by (simp add: openclose_loop.simps)
next
  case (Suc d)
  then have "openclose_loop opens (k + 1) = Some 1" by simp
  then show ?case by (subst openclose_loop.simps) simp
qed

lemma openclose_fails:
  assumes "openclose_loop opens k = Some r"
  shows "r = 1 \<and> (\<exists>n \<ge> k. \<not> opens n)"
proof (rule openclose_loop.raw_induct [where P = "\<lambda>opens k r. r = 1 \<and> (\<exists>n \<ge> k. \<not> opens n)", OF _ assms])
  fix f :: "(nat \<Rightarrow> bool) \<Rightarrow> nat \<Rightarrow> int option"
  fix opens k r
  assume IH: "\<And>opens k r. f opens k = Some r \<Longrightarrow> r = 1 \<and> (\<exists>n \<ge> k. \<not> opens n)"
  assume body: "(if \<not> opens k then Some 1 else f opens (k + 1)) = Some r"
  show "r = 1 \<and> (\<exists>n \<ge> k. \<not> opens n)"
  proof (cases "opens k")
    case True
    then obtain n where "r = 1" "k + 1 \<le> n" "\<not> opens n" using IH body by fastforce
    then show ?thesis by (intro conjI exI [of _ n]) simp_all
  next
    case False
    then show ?thesis using body by auto
  qed
qed

lemma openclose_main_returns:
  "openclose_main argc opens = (if argc \<noteq> 2 \<or> (\<exists>n. \<not> opens n) then Some 1 else None)"
  using openclose_returns [of 0 _ opens] openclose_fails [of opens 0]
  by (cases "openclose_loop opens 0") (auto simp: openclose_main_def)

text \<open>\<open>read_file\<close> returns the whole file with a zero behind it, and its size.\<close>

lemma read_file_correct:
  assumes "reliable f"
  shows "read_file (Some f) = Inr (length (file_bytes f), file_bytes f @ [0])"
proof -
  obtain f1 where f1: "lseek_end f = (f1, int (length (file_bytes f)))" "file_bytes f1 = file_bytes f" "reliable f1"
    using reliable_lseek_end [OF assms] by blast
  obtain f2 where f2: "lseek_set f1 0 = (f2, 0)" "file_bytes f2 = file_bytes f" "reliable f2" "file_pos f2 = 0"
    using reliable_lseek [OF f1(3), of 0] f1(2) by auto
  obtain f3 where "file_fread f2 (length (file_bytes f)) = (f3, length (file_bytes f), file_bytes f)"
    using reliable_fread [OF f2(3), of "length (file_bytes f)"] f2(2,4) by (auto simp: window_def)
  then show ?thesis by (simp add: read_file_def f1(1) f2(1) Let_def)
qed

text \<open>So \<open>ctfdictprint\<close> prints the names that libctf finds in the file, in this order.\<close>

lemma fold_visit_dict: "fold visit_dict ns out = out @ ns"
  by (induction ns arbitrary: out) (simp_all add: visit_dict_def)

lemma ctfdictprint_correct:
  "reliable f \<Longrightarrow> ctfdictprint_main bufopen [Some f] =
    (case bufopen (file_bytes f) of None \<Rightarrow> Inl Exit_failure | Some ns \<Rightarrow> Inr (0, ns))"
  by (simp add: ctfdictprint_main_def open_ctf_def read_file_correct fold_visit_dict split: option.split)

end
