(* ===== verification/Spec2Isabelle.thy ===== *)
theory Spec2Isabelle
  imports AssocProps AssocCaptureProps CrashstashProps BuildIdRoundtrip VmcoreFail Phys2virt NegdentStop
    DumpPhysRun SmallTools
begin

text \<open>
  A verification development for the kernel diagnostics and bug reproducers of this
  repository. The programs under \<open>src/\<close> are independent of each other; each has its own
  theories, on a common prelude. The definitions are translations of the C code (and of
  two Python functions) and can be evaluated; a crash, an exit and a run that does not
  return are values of their own.

  \<^bold>\<open>Shared theories.\<close>

  \<^item> \<open>Prelude\<close>: machine integers, the error monad (\<open>bindR\<close>, the loop \<open>forE\<close> with its invariant
    and simulation rules), facts about lists and words, the contract of a transition system
    with an invariant (locale \<open>invariant_system\<close>).
  \<^item> \<open>Bytes\<close>: numbers in memory in either byte order, windows of a byte list (locale
    \<open>byte_store\<close>, instance \<open>image\<close>), buffers and \<open>strcmp\<close> on them, runs that may crash
    (\<open>crash\<close>) or not return (\<open>None\<close>).
  \<^item> \<open>FileIO\<close>: open files (\<open>ofile\<close>) with the system calls the programs make. An environment
    decides by the number of a call whether it succeeds, fails or falls short; \<open>reliable\<close>
    files never fail.

  \<^bold>\<open>Associative arrays\<close> (\<open>src/assoc_array_gc\<close>). \<open>assoc_array_gc\<close> in \<open>repro.c\<close> and
  \<open>repro_fixed.c\<close> walks an old tree of sixteen-slot nodes, copies what an iterator keeps and
  folds small subtrees into their parents.

  \<^item> \<open>AssocArray\<close>: tagged pointers, nodes, the heap. \<open>AssocGC\<close>: the function as a machine over
    its labels, one step per jump (\<open>gc_step\<close>), both versions at once over the retry condition.
  \<^item> \<open>AssocTree\<close>: the specification on trees without addresses (\<open>gct\<close>), with its lemmas: the
    leaves that are kept, compactness, termination of the retries (locale \<open>retry_policy\<close>, with
    both versions as instances). \<open>AssocRep\<close>: how a tree lies in the heap.
    \<open>AssocRefine\<close>, \<open>AssocRun\<close>: the machine implements the specification, and ends.
    \<open>AssocProps\<close>: the properties.
  \<^item> \<open>AssocConstruct\<close>, \<open>AssocCapture\<close>: the creation helpers of the test program, the statements
    of \<open>construct_array.c\<close> as data, the generator \<open>assoc_array_constructor.py\<close> that wrote them.
    \<open>AssocPrune\<close>: evaluating the specification on large trees. \<open>AssocCaptureProps\<close>: both test
    programs on the captured array.

  The refinement is for arrays without shortcuts, the only ones the test programs can build;
  the machine itself models shortcuts too. No fuel is used: \<open>gc_loop\<close> is a partial function,
  and the refinement shows that it returns.

  \<^bold>\<open>crashstash\<close> (\<open>src/crashstash\<close>). \<open>Crashstash\<close>: the handlers of the proc file on the module's
  variables. \<open>CrashstashProps\<close>: all handlers in any order as an instance of
  \<open>invariant_system\<close>, on files whose offset the kernel keeps, and the round trip to the reader and to the script \<open>crashstash.py\<close>.

  \<^bold>\<open>editbuildid\<close> (\<open>src/editbuildid\<close>). \<open>BuildId\<close>: all of the program, on files of either class and
  byte order. \<open>BuildIdProps\<close>: hexadecimal strings, padding, independence of the machine's byte
  order, when the walk over the notes returns. \<open>BuildIdEdit\<close>: lists of notes and their encoding;
  whatever the system calls do, only the old build ID is overwritten. \<open>BuildIdRoundtrip\<close>: the
  search refines the search of the list, and what was written is read back.

  \<^bold>\<open>editvmcoreinfo\<close> (\<open>src/vmcoreinfo/editvmcoreinfo.c\<close>). \<open>VmcoreInfo\<close>: all of the program.
  \<open>VmcoreProps\<close>: encoding of the program headers, the search, the copy loop. \<open>VmcoreEdit\<close>: core
  dumps (\<open>vmcore\<close>) and the image after an edit. \<open>VmcoreRoundtrip\<close>: the edited file is a core dump
  with the new note and the old data; where the program fails half way. \<open>VmcoreFail\<close>: a last note
  without padding, on which the program fails after it has rewritten the headers; the program
  returns, whatever its files hold.

  \<^bold>\<open>phys2virt\<close> (\<open>src/elf/phys2virt.c\<close>). \<open>Phys2virt\<close>: the model, and that it rewrites the addresses
  of all program headers and nothing else.

  \<^bold>\<open>negdentcreate\<close> (\<open>src/negdentcreate\<close>). \<open>Negdent\<close>: the operations on a directory, the worker
  threads, the signal and the main thread as interleaved steps (\<open>neg_step\<close>). \<open>NegdentProps\<close>: the
  ranges of the threads and the file names. \<open>NegdentRun\<close>: an invariant of all interleavings, an
  instance of \<open>invariant_system\<close>, and what an exit with 0 means. \<open>NegdentStop\<close>: after the signal
  every schedule ends.

  \<^bold>\<open>dumpphys\<close> (\<open>src/vmcoreinfo/dumpphys.c\<close>). \<open>DumpPhys\<close>: all of the program over the functions of
  libkdumpfile, the fields of a record. \<open>DumpPhysProps\<close>: times and progress; the loops visit the
  frames of the bitmap in ascending order. \<open>DumpPhysRun\<close>: dumps and searches as whole runs.
  What is assumed of the library is \<open>bitmap_ok\<close> (the two searches in the page bitmap) and, for
  whole runs, \<open>memory\<close> (every page can be read).

  \<^bold>\<open>Small programs.\<close> \<open>SmallTools\<close>: \<open>drgn_vmalloc_test.c\<close>, \<open>ctfdictprint.c\<close>, \<open>get_vmcoreinfo.c\<close> and
  \<open>openclose.c\<close>.

  \<^bold>\<open>Loops.\<close> A loop that is bounded by its data is a total function; one that is not
  (\<open>gc_loop\<close>, \<open>notes_loop\<close>, \<open>sendfile_loop\<close>, \<open>range_loop\<close>, \<open>openclose_loop\<close>) is a partial function
  into an option, and the properties say when it returns.

  \<^bold>\<open>Not modelled.\<close> Text that is only printed (messages, help, the floating point numbers of a
  progress line); the buffers of \<open>stdio\<close>, whose calls act on the file at once; allocations of a
  few bytes that fail in a user program; a \<open>pthread_create\<close> or \<open>ftell\<close> that fails. Not modelled
  at all: \<open>ftrace_killer.c\<close>, a module that makes one call of a private kernel function; the scripts
  \<open>findvmcoreinfo.py\<close>, \<open>vmcoreinfosize.py\<close>, \<open>drgn_test_ctf_type_lookup.py\<close> and \<open>mkvmcore\<close>, which
  wrap programs or libraries from outside the repository; the parts of \<open>assoc_array_constructor.py\<close>
  and \<open>crashstash.py\<close> that read a core dump through drgn.
\<close>

end
